(* ===== verification/Lily_Prelude.thy ===== *)
theory Lily_Prelude
  imports
    Main
    "HOL-Library.AList"
    "HOL-Library.Char_ord"
    "HOL-Library.List_Lexorder"
    "HOL-Library.Product_Lexorder"
    "HOL-Library.Multiset"
    "HOL-Library.Word"
begin

text \<open>
  Shared vocabulary of the development. A Rust \<open>Result<A, E>\<close> is a value of \<open>E + A\<close>
  (\<open>Inl\<close> is \<open>Err\<close>, \<open>Inr\<close> is \<open>Ok\<close>); a Rust \<open>String\<close> is the list of its UTF-8
  bytes, so \<open>length\<close> is \<open>str::len\<close>; a \<open>HashMap\<close> is an association list with
  distinct keys behind the operations \<open>hm_get\<close>, \<open>hm_insert\<close> and \<open>hm_remove\<close>;
  \<open>u8\<close>, \<open>u32\<close>, \<open>u64\<close> and \<open>usize\<close> are machine words where the code's overflow
  behaviour matters. The theory also holds \<open>str::split\<close>, \<open>join\<close> and the generic
  lemmas on lists and words that the components share.
\<close>

named_theorems split_simps \<open>how splitting a string acts on its parts\<close>
named_theorems hashmap_simps \<open>what a lookup returns after an update of a hash map\<close>

type_synonym ('e, 'a) result = "'e + 'a"
type_synonym u32 = "32 word"
type_synonym u64 = "64 word"
type_synonym usize = "64 word"

abbreviation Ok :: "'a \<Rightarrow> ('e, 'a) result" where "Ok \<equiv> Inr"
abbreviation Err :: "'e \<Rightarrow> ('e, 'a) result" where "Err \<equiv> Inl"

text \<open>The \<open>?\<close> operator.\<close>

fun and_then :: "('e, 'a) result \<Rightarrow> ('a \<Rightarrow> ('e, 'b) result) \<Rightarrow> ('e, 'b) result" where
  "and_then (Inl e) f = Inl e"
| "and_then (Inr a) f = f a"

lemma and_then_eq_Inr [simp]:
  "and_then r f = Inr b \<longleftrightarrow> (\<exists>a. r = Inr a \<and> f a = Inr b)"
  by (cases r) auto

lemma and_then_eq_Inl:
  "and_then r f = Inl e \<longleftrightarrow> r = Inl e \<or> (\<exists>a. r = Inr a \<and> f a = Inl e)"
  by (cases r) auto

section \<open>Splitting and joining strings\<close>

text \<open>
  \<open>str::split(c)\<close> for a one-byte separator: the pieces between the separators, at
  least one piece, empty pieces kept.
\<close>

fun split_on :: "'a \<Rightarrow> 'a list \<Rightarrow> 'a list list" where
  "split_on c [] = [[]]"
| "split_on c (x # xs) =
     (if x = c then [] # split_on c xs
      else (x # hd (split_on c xs)) # tl (split_on c xs))"

text \<open>\<open>[_]::join(c)\<close>.\<close>

fun join_with :: "'a \<Rightarrow> 'a list list \<Rightarrow> 'a list" where
  "join_with c [] = []"
| "join_with c [s] = s"
| "join_with c (s # t # ss) = s @ c # join_with c (t # ss)"

lemma split_on_not_Nil [simp]: "split_on c xs \<noteq> []"
  by (cases xs) auto

lemma split_on_Cons_obtain:
  obtains s ss where "split_on c xs = s # ss"
  using split_on_not_Nil[of c xs] by (cases "split_on c xs") auto

lemma join_with_Cons: "ss \<noteq> [] \<Longrightarrow> join_with c (s # ss) = s @ c # join_with c ss"
  by (cases ss) auto

lemma join_with_head: "join_with c ((s @ c # t) # ss) = s @ c # join_with c (t # ss)"
  by (cases ss) auto

lemma join_with_eq_Nil [simp]: "s \<noteq> [] \<Longrightarrow> join_with c (s # ss) \<noteq> []"
  by (cases ss) auto

lemma join_split [simp, split_simps]: "join_with c (split_on c xs) = xs"
proof (induction xs)
  case Nil
  then show ?case by simp
next
  case (Cons x xs)
  obtain s ss where s: "split_on c xs = s # ss" by (rule split_on_Cons_obtain)
  with Cons show ?case by (cases ss) auto
qed

lemma split_on_notin: "s \<in> set (split_on c xs) \<Longrightarrow> c \<notin> set s"
proof (induction xs arbitrary: s)
  case Nil
  then show ?case by simp
next
  case (Cons x xs)
  obtain t ts where t: "split_on c xs = t # ts" by (rule split_on_Cons_obtain)
  with Cons show ?case by (auto split: if_splits)
qed

lemma split_on_single [split_simps]: "c \<notin> set s \<Longrightarrow> split_on c s = [s]"
  by (induction s) auto

lemma split_on_append [split_simps]: "c \<notin> set s \<Longrightarrow> split_on c (s @ c # xs) = s # split_on c xs"
  by (induction s) auto

lemma split_join:
  "ss \<noteq> [] \<Longrightarrow> \<forall>s\<in>set ss. c \<notin> set s \<Longrightarrow> split_on c (join_with c ss) = ss"
  by (induction c ss rule: join_with.induct) (auto simp: split_simps)

lemma split_on_inject: "split_on c xs = split_on c ys \<longleftrightarrow> xs = ys"
  by (metis join_split)

lemma split_on_first:
  assumes "xs = c # ys" shows "split_on c xs = [] # split_on c ys"
  using assms by simp

section \<open>First match in a list\<close>

lemma find_SomeD:
  "find P xs = Some x \<Longrightarrow> x \<in> set xs \<and> P x"
  by (induction xs) (auto split: if_splits)

lemma find_None_iff_set: "find P xs = None \<longleftrightarrow> (\<forall>x\<in>set xs. \<not> P x)"
  by (induction xs) auto

text \<open>
  The first match of a list sorted by a key has the least key of all matches.
\<close>

lemma find_sorted_least:
  fixes f :: "'a \<Rightarrow> 'k::linorder"
  assumes "sorted (map f xs)" and "find P xs = Some x" and "y \<in> set xs" and "P y"
  shows "f x \<le> f y"
  using assms by (induction xs) (auto split: if_splits)

text \<open>For a symmetric relation, holding pairwise does not depend on the order.\<close>

lemma sorted_wrt_perm:
  assumes sym: "\<And>x y. R x y \<Longrightarrow> R y x"
  shows "mset xs = mset ys \<Longrightarrow> sorted_wrt R xs \<Longrightarrow> sorted_wrt R ys"
proof (induction xs arbitrary: ys)
  case (Cons a xs)
  from Cons.prems(1) have "a \<in> set ys" by (metis list.set_intros(1) mset_eq_setD)
  then obtain ps qs where ys: "ys = ps @ a # qs" by (meson split_list)
  with Cons.prems(1) have perm: "mset xs = mset (ps @ qs)" by simp
  with Cons have "sorted_wrt R (ps @ qs)" by auto
  moreover have "\<forall>z\<in>set (ps @ qs). R a z"
    using Cons.prems(2) mset_eq_setD[OF perm] by auto
  ultimately show ?case using sym by (auto simp: ys sorted_wrt_append)
qed simp

lemma sort_remdups_set_eq:
  "set xs = set ys \<Longrightarrow> sort (remdups xs) = sort (remdups ys)"
  by (simp add: sorted_list_of_set_sort_remdups [symmetric])

lemma map_sort_key:
  assumes "\<And>x. f (g x) = f x"
  shows "map g (sort_key f xs) = sort_key f (map g xs)"
proof -
  have "map g (insort_key f x ys) = insort_key f (g x) (map g ys)" for x ys
    using assms by (induction ys) auto
  then show ?thesis by (induction xs) (auto simp: sort_key_def)
qed

section \<open>Best first match\<close>

text \<open>
  A table whose entries are scanned in rank order, lowest rank first. The provider promises
  that two valid entries of one rank that match the same query are in conflict; the client
  keeps only entries that are pairwise free of conflict. The first match is then the
  unique match of lowest rank, whatever the order the entries were given in.
\<close>

locale precedence_table =
  fixes matches :: "'r \<Rightarrow> 'q \<Rightarrow> bool"
    and rank :: "'r \<Rightarrow> 'k::linorder"
    and conflict :: "'r \<Rightarrow> 'r \<Rightarrow> bool"
    and valid :: "'r \<Rightarrow> bool"
  assumes conflict_complete:
    "valid r \<Longrightarrow> valid s \<Longrightarrow> rank r = rank s \<Longrightarrow> matches r q \<Longrightarrow> matches s q \<Longrightarrow> conflict r s"
begin

lemma first_match_best:
  assumes "sorted (map rank xs)" and "\<forall>r\<in>set xs. valid r"
    and "\<forall>r\<in>set xs. \<forall>s\<in>set xs. r \<noteq> s \<longrightarrow> \<not> conflict r s"
    and "find (\<lambda>r. matches r q) xs = Some r" and "s \<in> set xs" and "matches s q" and "s \<noteq> r"
  shows "rank r < rank s"
proof -
  from assms(4) have "r \<in> set xs" and "matches r q" by (auto dest: find_SomeD)
  with assms conflict_complete[of r s q] have "rank r \<noteq> rank s" by auto
  moreover have "rank r \<le> rank s" using assms by (auto dest: find_sorted_least)
  ultimately show ?thesis by simp
qed

lemma first_match_order_independent:
  assumes "sorted (map rank xs)" and "sorted (map rank ys)" and "set xs = set ys"
    and "\<forall>r\<in>set xs. valid r" and "\<forall>r\<in>set xs. \<forall>s\<in>set xs. r \<noteq> s \<longrightarrow> \<not> conflict r s"
  shows "find (\<lambda>r. matches r q) xs = find (\<lambda>r. matches r q) ys"
proof (cases "find (\<lambda>r. matches r q) xs")
  case None
  with assms(3) show ?thesis by (simp add: find_None_iff_set) (metis find_None_iff_set)
next
  case (Some r)
  with assms(3) obtain s where s: "find (\<lambda>r. matches r q) ys = Some s"
    by (cases "find (\<lambda>r. matches r q) ys") (auto simp: find_None_iff_set dest: find_SomeD)
  have "r = s"
  proof (rule ccontr)
    assume "r \<noteq> s"
    then have "rank r < rank s"
      using first_match_best[OF assms(1,4,5) Some, of s] s assms(3) find_SomeD[OF s] by auto
    moreover have "rank s < rank r"
      using first_match_best[OF assms(2) _ _ s, of r] Some assms(3-5) find_SomeD[OF Some] \<open>r \<noteq> s\<close>
      by auto
    ultimately show False by simp
  qed
  with Some s show ?thesis by simp
qed

end

section \<open>Hash maps\<close>

type_synonym ('k, 'v) hashmap = "('k \<times> 'v) list"

abbreviation hm_get :: "('k, 'v) hashmap \<Rightarrow> 'k \<Rightarrow> 'v option" where "hm_get \<equiv> map_of"
abbreviation hm_insert :: "'k \<Rightarrow> 'v \<Rightarrow> ('k, 'v) hashmap \<Rightarrow> ('k, 'v) hashmap" where
  "hm_insert \<equiv> AList.update"
abbreviation hm_remove :: "'k \<Rightarrow> ('k, 'v) hashmap \<Rightarrow> ('k, 'v) hashmap" where
  "hm_remove \<equiv> AList.delete"
abbreviation hm_values :: "('k, 'v) hashmap \<Rightarrow> 'v list" where "hm_values \<equiv> map snd"
abbreviation hm_keys :: "('k, 'v) hashmap \<Rightarrow> 'k list" where "hm_keys \<equiv> map fst"
abbreviation hm_invar :: "('k, 'v) hashmap \<Rightarrow> bool" where "hm_invar m \<equiv> distinct (map fst m)"

text \<open>
  The contract of \<open>std::collections::HashMap\<close> that the components rely on, stated over
  the operations so that a client proof does not look inside the representation.
\<close>

locale hash_map =
  fixes get :: "'m \<Rightarrow> 'k \<Rightarrow> 'v option"
    and insert :: "'k \<Rightarrow> 'v \<Rightarrow> 'm \<Rightarrow> 'm"
    and remove :: "'k \<Rightarrow> 'm \<Rightarrow> 'm"
    and entries :: "'m \<Rightarrow> ('k \<times> 'v) set"
    and invar :: "'m \<Rightarrow> bool"
  assumes get_insert: "get (insert k v m) k' = (if k' = k then Some v else get m k')"
    and get_remove: "get (remove k m) k' = (if k' = k then None else get m k')"
    and get_entries: "invar m \<Longrightarrow> (k, v) \<in> entries m \<longleftrightarrow> get m k = Some v"
    and invar_insert: "invar m \<Longrightarrow> invar (insert k v m)"
    and invar_remove: "invar m \<Longrightarrow> invar (remove k m)"
begin

lemma get_insert_same: "get (insert k v m) k = Some v"
  by (simp add: get_insert)

lemma remove_insert_get: "k' \<noteq> k \<Longrightarrow> get (remove k (insert k v m)) k' = get m k'"
  by (simp add: get_remove get_insert)

lemma entries_insert_fresh:
  assumes "invar m" and "get m k = None"
  shows "entries (insert k v m) = Set.insert (k, v) (entries m)"
  using assms invar_insert[OF assms(1)]
  by (auto simp: get_entries get_insert split: if_splits)

lemma entries_remove:
  assumes "invar m"
  shows "entries (remove k m) = {e \<in> entries m. fst e \<noteq> k}"
  using assms invar_remove[OF assms]
  by (auto simp: get_entries get_remove split: if_splits)

end

interpretation assoc: hash_map hm_get hm_insert hm_remove set hm_invar
  by unfold_locales
    (auto simp: update_conv' delete_conv' distinct_update distinct_delete
      intro: map_of_is_SomeI dest: map_of_SomeD)

declare assoc.get_insert [hashmap_simps] assoc.get_remove [hashmap_simps]
  assoc.invar_insert [hashmap_simps] assoc.invar_remove [hashmap_simps]

section \<open>ASCII bytes\<close>

fun starts_with :: "char \<Rightarrow> string \<Rightarrow> bool" where
  "starts_with c [] = False"
| "starts_with c (x # xs) = (x = c)"

fun strip_prefix :: "char \<Rightarrow> string \<Rightarrow> string option" where
  "strip_prefix c [] = None"
| "strip_prefix c (x # xs) = (if x = c then Some xs else None)"

abbreviation in_ascii_range :: "char \<Rightarrow> char \<Rightarrow> char \<Rightarrow> bool" where
  "in_ascii_range lo hi c \<equiv> (of_char lo :: nat) \<le> of_char c \<and> (of_char c :: nat) \<le> of_char hi"

definition is_ascii_alphabetic :: "char \<Rightarrow> bool" where
  "is_ascii_alphabetic c \<longleftrightarrow>
     in_ascii_range (CHR ''a'') (CHR ''z'') c \<or> in_ascii_range (CHR ''A'') (CHR ''Z'') c"

definition is_ascii_alphanumeric :: "char \<Rightarrow> bool" where
  "is_ascii_alphanumeric c \<longleftrightarrow>
     is_ascii_alphabetic c \<or> in_ascii_range (CHR ''0'') (CHR ''9'') c"

definition to_ascii_uppercase :: "char \<Rightarrow> char" where
  "to_ascii_uppercase c =
     (if in_ascii_range (CHR ''a'') (CHR ''z'') c then char_of (of_char c - (32 :: nat)) else c)"

abbreviation byte :: "char \<Rightarrow> nat" where
  "byte c \<equiv> of_char c"

definition is_ascii_control :: "char \<Rightarrow> bool" where
  "is_ascii_control b \<longleftrightarrow> byte b < 0x20 \<or> byte b = 0x7f"

text \<open>\<open>str::strip_prefix\<close> and \<open>str::strip_suffix\<close> for a string.\<close>

definition strip_prefix_str :: "string \<Rightarrow> string \<Rightarrow> string option" where
  "strip_prefix_str p s = (if take (length p) s = p then Some (drop (length p) s) else None)"

definition strip_suffix_str :: "string \<Rightarrow> string \<Rightarrow> string option" where
  "strip_suffix_str p s = map_option rev (strip_prefix_str (rev p) (rev s))"

section \<open>White space and control characters in UTF-8\<close>

text \<open>
  \<open>str::trim().is_empty()\<close>: the string consists of white space, with the multi-byte white
  space characters of UTF-8.
\<close>

fun is_blank :: "string \<Rightarrow> bool" where
  "is_blank [] = True"
| "is_blank (a # s) =
     (if 0x09 \<le> byte a \<and> byte a \<le> 0x0d \<or> byte a = 0x20 then is_blank s
      else
        (case s of
           b # s' \<Rightarrow>
             if byte a = 0xc2 \<and> (byte b = 0x85 \<or> byte b = 0xa0) then is_blank s'
             else
               (case s' of
                  c # s'' \<Rightarrow>
                    (byte a = 0xe1 \<and> byte b = 0x9a \<and> byte c = 0x80 \<or>
                     byte a = 0xe2 \<and> byte b = 0x80 \<and> 0x80 \<le> byte c \<and> byte c \<le> 0x8a \<or>
                     byte a = 0xe2 \<and> byte b = 0x80 \<and> (byte c = 0xa8 \<or> byte c = 0xa9 \<or> byte c = 0xaf) \<or>
                     byte a = 0xe2 \<and> byte b = 0x81 \<and> byte c = 0x9f \<or>
                     byte a = 0xe3 \<and> byte b = 0x80 \<and> byte c = 0x80) \<and> is_blank s''
                | [] \<Rightarrow> False)
         | [] \<Rightarrow> False))"

text \<open>\<open>s.trim() == s\<close>: no white space character at either end.\<close>

definition is_trimmed :: "string \<Rightarrow> bool" where
  "is_trimmed s \<longleftrightarrow> s = [] \<or>
     \<not> list_ex (\<lambda>k. is_blank (take k s) \<or> is_blank (drop (length s - k) s)) [1, 2, 3]"

text \<open>\<open>chars().any(char::is_control)\<close>: the C0 and C1 controls and DEL.\<close>

fun has_control :: "string \<Rightarrow> bool" where
  "has_control [] = False"
| "has_control (a # s) = (byte a < 0x20 \<or> byte a = 0x7f \<or>
     (byte a = 0xc2 \<and> (case s of b # _ \<Rightarrow> 0x80 \<le> byte b \<and> byte b \<le> 0x9f | [] \<Rightarrow> False)) \<or> has_control s)"

section \<open>Decimal numbers\<close>

definition digit_char :: "nat \<Rightarrow> char" where
  "digit_char d = ''0123456789'' ! d"

fun show_nat :: "nat \<Rightarrow> string" where
  "show_nat n = (if n < 10 then [digit_char n] else show_nat (n div 10) @ [digit_char (n mod 10)])"

declare show_nat.simps [simp del]

section \<open>Machine integers\<close>

definition saturating_add :: "'w::len word \<Rightarrow> 'w word \<Rightarrow> 'w word" where
  "saturating_add a b = (if unat a + unat b < 2 ^ LENGTH('w) then a + b else -1)"

definition checked_add :: "'w::len word \<Rightarrow> 'w word \<Rightarrow> 'w word option" where
  "checked_add a b = (if unat a + unat b < 2 ^ LENGTH('w) then Some (a + b) else None)"

lemma unat_saturating_add:
  "unat (saturating_add a (b :: 'w::len word)) = min (unat a + unat b) (2 ^ LENGTH('w) - 1)"
  by (auto simp: saturating_add_def unat_word_ariths unsigned_minus_1_eq_mask mask_eq_exp_minus_1 min_def)

lemma checked_add_Some_iff:
  "checked_add a (b :: 'w::len word) = Some c \<longleftrightarrow>
     unat a + unat b < 2 ^ LENGTH('w) \<and> unat c = unat a + unat b"
  by (auto simp: checked_add_def unat_add_lem word_unat_eq_iff)

end
