(* ===== verification/Route_Table.thy ===== *)
theory Route_Table
  imports Lily_Prelude
begin

text \<open>
  The HTTP route table of \<^verbatim>\<open>lily_http_api/src/route_table/route_table.rs\<close>: validation and
  normalisation of registered routes, rejection of duplicate and ambiguous templates, the
  precedence order of the parameterised routes, lookup by method and path, the
  \<open>Allow\<close> list of a method miss and the extraction of path parameters.

  A template is a path whose segments may be \<open>:name\<close> (one non-empty segment) or, last,
  \<open>*name\<close> (one or more non-empty segments). \<open>http::Method::from_bytes\<close> belongs to the
  \<open>http\<close> crate: it is the parameter \<open>method_ok\<close>. The handler, guard, middleware and
  CORS fields of \<open>RouteInfo\<close> are carried by the table and never read; they are the
  payload of the record.
\<close>

section \<open>Data\<close>

record 'a RouteInfo =
  rt_method :: string
  rt_path :: string
  rt_payload :: 'a
  handler_name :: string
  route_plan_id :: nat

datatype InvalidRouteReason =
    EmptyMethod
  | InvalidMethod
  | PathTooLong
  | PathMustStartWithSlash
  | QueryOrFragmentNotAllowed
  | EmptySegment
  | InvalidParameterName
  | DuplicateParameterName
  | CatchAllMustBeFinal

record DuplicateRouteError =
  dup_method :: string
  dup_path :: string
  dup_first_handler :: string
  duplicate_handler :: string

record InvalidRouteError =
  inv_method :: string
  inv_path :: string
  inv_handler :: string
  inv_reason :: InvalidRouteReason

record AmbiguousRouteError =
  amb_method :: string
  amb_first_path :: string
  amb_first_handler :: string
  amb_second_path :: string
  amb_second_handler :: string

datatype RouteTableBuildError =
    Duplicate DuplicateRouteError
  | Invalid InvalidRouteError
  | Ambiguous AmbiguousRouteError

datatype 'a RouteResolution =
    Found "'a RouteInfo"
  | MethodNotAllowed "string list"
  | NotFound

record 'a RouteTable =
  exact_routes :: "(string, 'a RouteInfo) hashmap"
  param_routes :: "'a RouteInfo list"
  exact_count :: nat
  param_count :: nat

record RouteTableStats =
  stats_exact_routes :: nat
  stats_param_routes :: nat
  stats_total_routes :: nat

definition MAX_ROUTE_TEMPLATE_BYTES :: nat where
  "MAX_ROUTE_TEMPLATE_BYTES = 4 * 1024"

section \<open>Segments\<close>

abbreviation is_param_segment :: "string \<Rightarrow> bool" where
  "is_param_segment s \<equiv> starts_with (CHR '':'') s"

abbreviation is_star_segment :: "string \<Rightarrow> bool" where
  "is_star_segment s \<equiv> starts_with (CHR ''*'') s"

abbreviation segments :: "string \<Rightarrow> string list" where
  "segments path \<equiv> split_on (CHR ''/'') path"

definition is_parameter_name :: "string \<Rightarrow> bool" where
  "is_parameter_name name =
     (case name of
        [] \<Rightarrow> False
      | c # cs \<Rightarrow> (is_ascii_alphabetic c \<or> c = CHR ''_'') \<and>
          list_all (\<lambda>b. is_ascii_alphanumeric b \<or> b = CHR ''_'') cs)"

definition normalized_registration_path :: "string \<Rightarrow> string" where
  "normalized_registration_path path =
     join_with (CHR ''/'')
       (map (\<lambda>segment. if is_param_segment segment then '':''
                       else if is_star_segment segment then ''*'' else segment)
         (segments path))"

definition literal_segment_count :: "string \<Rightarrow> nat" where
  "literal_segment_count path =
     length (filter (\<lambda>segment. \<not> is_param_segment segment \<and> \<not> is_star_segment segment)
       (tl (segments path)))"

definition is_parameterized :: "string \<Rightarrow> bool" where
  "is_parameterized path =
     list_ex (\<lambda>segment. is_param_segment segment \<or> is_star_segment segment) (segments path)"

definition fixed_segment_count :: "string \<Rightarrow> nat" where
  "fixed_segment_count path =
     length (takeWhile (\<lambda>segment. \<not> is_star_segment segment) (tl (segments path)))"

definition has_catch_all :: "string \<Rightarrow> bool" where
  "has_catch_all path = list_ex is_star_segment (segments path)"

definition route_key :: "string \<Rightarrow> string \<Rightarrow> string" where
  "route_key mth path = mth @ '':'' @ path"

section \<open>Matching, overlap, parameters\<close>

fun segments_match :: "string list \<Rightarrow> string list \<Rightarrow> bool" where
  "segments_match (pattern # ps) (segment # ss) =
     (if is_star_segment pattern then segment \<noteq> [] \<and> list_all (\<lambda>s. s \<noteq> []) ss
      else if is_param_segment pattern then segment \<noteq> [] \<and> segments_match ps ss
      else pattern = segment \<and> segments_match ps ss)"
| "segments_match [] [] = True"
| "segments_match _ _ = False"

definition path_matches :: "string \<Rightarrow> string \<Rightarrow> bool" where
  "path_matches pattern path = segments_match (segments pattern) (segments path)"

definition templates_overlap :: "string \<Rightarrow> string \<Rightarrow> bool" where
  "templates_overlap left right =
     (let l = tl (segments left); r = tl (segments right);
          left_fixed = length (takeWhile (\<lambda>s. \<not> is_star_segment s) l);
          right_fixed = length (takeWhile (\<lambda>s. \<not> is_star_segment s) r)
      in if list_ex (\<lambda>index. \<not> is_param_segment (l ! index) \<and> \<not> is_param_segment (r ! index)
                        \<and> l ! index \<noteq> r ! index) [0..<min left_fixed right_fixed]
         then False
         else (case (left_fixed < length l, right_fixed < length r) of
                 (False, False) \<Rightarrow> left_fixed = right_fixed
               | (True, False) \<Rightarrow> right_fixed > left_fixed
               | (False, True) \<Rightarrow> left_fixed > right_fixed
               | (True, True) \<Rightarrow> True))"

fun extract_segments :: "string list \<Rightarrow> string list \<Rightarrow> (string \<times> string) list" where
  "extract_segments (pattern # ps) (segment # ss) =
     (case strip_prefix (CHR '':'') pattern of
        Some name \<Rightarrow> (name, segment) # extract_segments ps ss
      | None \<Rightarrow>
          (case strip_prefix (CHR ''*'') pattern of
             Some name \<Rightarrow> [(name, fold (\<lambda>remaining value. value @ ''/'' @ remaining) ss segment)]
           | None \<Rightarrow> extract_segments ps ss))"
| "extract_segments _ _ = []"

definition extract_params :: "string \<Rightarrow> string \<Rightarrow> (string \<times> string) list" where
  "extract_params pattern path = extract_segments (segments pattern) (segments path)"

section \<open>Validation\<close>

definition invalid_route :: "'a RouteInfo \<Rightarrow> InvalidRouteReason \<Rightarrow> RouteTableBuildError" where
  "invalid_route route reason = Invalid
     \<lparr>inv_method = rt_method route, inv_path = rt_path route,
      inv_handler = handler_name route, inv_reason = reason\<rparr>"

text \<open>The loop over the segments; \<open>seen\<close> is the set \<open>parameter_names\<close>.\<close>

fun check_segments :: "string list \<Rightarrow> string list \<Rightarrow> InvalidRouteReason option" where
  "check_segments seen [] = None"
| "check_segments seen (segment # rest) =
     (case strip_prefix (CHR '':'') segment of
        Some name \<Rightarrow>
          if \<not> is_parameter_name name then Some InvalidParameterName
          else if name \<in> set seen then Some DuplicateParameterName
          else check_segments (name # seen) rest
      | None \<Rightarrow>
          (case strip_prefix (CHR ''*'') segment of
             Some name \<Rightarrow>
               if rest \<noteq> [] then Some CatchAllMustBeFinal
               else if \<not> is_parameter_name name then Some InvalidParameterName
               else if name \<in> set seen then Some DuplicateParameterName
               else check_segments (name # seen) rest
           | None \<Rightarrow> check_segments seen rest))"

definition validate_and_normalize_route ::
  "(string \<Rightarrow> bool) \<Rightarrow> 'a RouteInfo \<Rightarrow> (RouteTableBuildError, 'a RouteInfo) result" where
  "validate_and_normalize_route method_ok route =
     (if rt_method route = [] then Err (invalid_route route EmptyMethod)
      else let route = route\<lparr>rt_method := map to_ascii_uppercase (rt_method route)\<rparr> in
        if \<not> method_ok (rt_method route) then Err (invalid_route route InvalidMethod)
        else if length (rt_path route) > MAX_ROUTE_TEMPLATE_BYTES
          then Err (invalid_route route PathTooLong)
        else if \<not> starts_with (CHR ''/'') (rt_path route)
          then Err (invalid_route route PathMustStartWithSlash)
        else if CHR ''?'' \<in> set (rt_path route) \<or> CHR ''#'' \<in> set (rt_path route)
          then Err (invalid_route route QueryOrFragmentNotAllowed)
        else if rt_path route \<noteq> ''/'' \<and> list_ex (\<lambda>s. s = []) (tl (segments (rt_path route)))
          then Err (invalid_route route EmptySegment)
        else (case check_segments [] (tl (segments (rt_path route))) of
                Some reason \<Rightarrow> Err (invalid_route route reason)
              | None \<Rightarrow> Ok route))"

section \<open>Building the table\<close>

fun reject_equal_precedence_overlap ::
  "'a RouteInfo list \<Rightarrow> 'a RouteInfo \<Rightarrow> (RouteTableBuildError, unit) result" where
  "reject_equal_precedence_overlap [] candidate = Ok ()"
| "reject_equal_precedence_overlap (existing # rest) candidate =
     (if rt_method existing = rt_method candidate
         \<and> literal_segment_count (rt_path existing) = literal_segment_count (rt_path candidate)
         \<and> fixed_segment_count (rt_path existing) = fixed_segment_count (rt_path candidate)
         \<and> has_catch_all (rt_path existing) = has_catch_all (rt_path candidate)
         \<and> templates_overlap (rt_path existing) (rt_path candidate)
      then Err (Ambiguous
        \<lparr>amb_method = rt_method candidate,
         amb_first_path = rt_path existing, amb_first_handler = handler_name existing,
         amb_second_path = rt_path candidate, amb_second_handler = handler_name candidate\<rparr>)
      else reject_equal_precedence_overlap rest candidate)"

text \<open>The first loop of \<open>from_routes\<close>: normalise every route and number it.\<close>

fun normalize_routes ::
  "(string \<Rightarrow> bool) \<Rightarrow> nat \<Rightarrow> 'a RouteInfo list \<Rightarrow> (RouteTableBuildError, 'a RouteInfo list) result"
where
  "normalize_routes method_ok plan_id [] = Ok []"
| "normalize_routes method_ok plan_id (route # rest) =
     and_then (validate_and_normalize_route method_ok route) (\<lambda>route'.
     and_then (normalize_routes method_ok (Suc plan_id) rest) (\<lambda>rest'.
     Ok (route'\<lparr>route_plan_id := plan_id\<rparr> # rest')))"

text \<open>The second loop: the three collections it fills.\<close>

record 'a Admission =
  adm_exact :: "(string, 'a RouteInfo) hashmap"
  adm_param :: "'a RouteInfo list"
  adm_registered :: "(string, string) hashmap"

definition admit_route ::
  "'a Admission \<Rightarrow> 'a RouteInfo \<Rightarrow> (RouteTableBuildError, 'a Admission) result" where
  "admit_route st route =
     (let registration_key =
            route_key (rt_method route) (normalized_registration_path (rt_path route))
      in case hm_get (adm_registered st) registration_key of
           Some first_handler \<Rightarrow> Err (Duplicate
             \<lparr>dup_method = rt_method route, dup_path = rt_path route,
              dup_first_handler = first_handler, duplicate_handler = handler_name route\<rparr>)
         | None \<Rightarrow>
             let st = st\<lparr>adm_registered :=
                   hm_insert registration_key (handler_name route) (adm_registered st)\<rparr>
             in if is_parameterized (rt_path route) then
                  and_then (reject_equal_precedence_overlap (adm_param st) route)
                    (\<lambda>_. Ok (st\<lparr>adm_param := adm_param st @ [route]\<rparr>))
                else Ok (st\<lparr>adm_exact :=
                  hm_insert (route_key (rt_method route) (rt_path route)) route (adm_exact st)\<rparr>))"

fun admit_routes ::
  "'a Admission \<Rightarrow> 'a RouteInfo list \<Rightarrow> (RouteTableBuildError, 'a Admission) result" where
  "admit_routes st [] = Ok st"
| "admit_routes st (route # rest) =
     and_then (admit_route st route) (\<lambda>st'. admit_routes st' rest)"

text \<open>
  The comparator of \<open>sort_by\<close> as a key: more literal segments first, then more fixed
  segments, then templates without a catch-all, then method, path and handler name. Both
  \<open>sort_by\<close> and \<open>sort_key\<close> are stable.
\<close>

definition route_order_key ::
  "'a RouteInfo \<Rightarrow> int \<times> int \<times> bool \<times> string \<times> string \<times> string" where
  "route_order_key route =
     (- int (literal_segment_count (rt_path route)), - int (fixed_segment_count (rt_path route)),
      has_catch_all (rt_path route), rt_method route, rt_path route, handler_name route)"

definition from_routes ::
  "(string \<Rightarrow> bool) \<Rightarrow> 'a RouteInfo list \<Rightarrow> (RouteTableBuildError, 'a RouteTable) result" where
  "from_routes method_ok routes =
     and_then (normalize_routes method_ok 0 routes) (\<lambda>routes.
     and_then (admit_routes \<lparr>adm_exact = [], adm_param = [], adm_registered = []\<rparr> routes) (\<lambda>st.
     Ok \<lparr>exact_routes = adm_exact st,
         param_routes = sort_key route_order_key (adm_param st),
         exact_count = length (adm_exact st),
         param_count = length (adm_param st)\<rparr>))"

section \<open>Lookup\<close>

definition table_routes :: "'a RouteTable \<Rightarrow> 'a RouteInfo list" where
  "table_routes table = hm_values (exact_routes table) @ param_routes table"

definition route_count :: "'a RouteTable \<Rightarrow> nat" where
  "route_count table = exact_count table + param_count table"

definition stats :: "'a RouteTable \<Rightarrow> RouteTableStats" where
  "stats table = \<lparr>stats_exact_routes = exact_count table, stats_param_routes = param_count table,
     stats_total_routes = exact_count table + param_count table\<rparr>"

text \<open>\<open>buf[start..start + src.len()].copy_from_slice(src)\<close>.\<close>

definition copy_into :: "nat \<Rightarrow> string \<Rightarrow> string \<Rightarrow> string" where
  "copy_into start src buf = take start buf @ src @ drop (start + length src) buf"

definition sat_usize :: "nat \<Rightarrow> nat" where
  "sat_usize n = min n (2 ^ 64 - 1)"

text \<open>
  The key of the exact lookup: assembled in a 256-byte stack buffer when it fits, on the
  heap otherwise.
\<close>

definition lookup_key :: "string \<Rightarrow> string \<Rightarrow> string" where
  "lookup_key mth path =
     (let key_len = sat_usize (sat_usize (length mth + length path) + 1)
      in if key_len \<le> 256 then
           let key_buf = replicate 256 (CHR 0x00);
               method_end = length mth;
               key_buf = copy_into 0 mth key_buf;
               key_buf = key_buf[method_end := CHR '':''];
               key_buf = copy_into (method_end + 1) path key_buf
           in take key_len key_buf
         else route_key mth path)"

definition find_route_for_method ::
  "'a RouteTable \<Rightarrow> string \<Rightarrow> string \<Rightarrow> 'a RouteInfo option" where
  "find_route_for_method table mth path =
     (case hm_get (exact_routes table) (lookup_key mth path) of
        Some route \<Rightarrow> Some route
      | None \<Rightarrow> find (\<lambda>route. rt_method route = mth \<and> path_matches (rt_path route) path)
                  (param_routes table))"

text \<open>A \<open>BTreeSet<String>\<close> collected in order: sorted, no duplicates.\<close>

definition allowed_methods :: "'a RouteTable \<Rightarrow> string \<Rightarrow> string list" where
  "allowed_methods table path =
     sort (remdups (concat (map
       (\<lambda>route. if rt_method route = ''GET'' then [rt_method route, ''HEAD''] else [rt_method route])
       (filter (\<lambda>route. if is_parameterized (rt_path route)
                         then path_matches (rt_path route) path
                         else rt_path route = path)
         (table_routes table)))))"

definition resolve :: "'a RouteTable \<Rightarrow> string \<Rightarrow> string \<Rightarrow> 'a RouteResolution" where
  "resolve table mth path =
     (case find_route_for_method table mth path of
        Some route \<Rightarrow> Found route
      | None \<Rightarrow>
          (case (if mth = ''HEAD'' then find_route_for_method table ''GET'' path else None) of
             Some route \<Rightarrow> Found route
           | None \<Rightarrow>
               let allow = allowed_methods table path
               in if allow = [] then NotFound else MethodNotAllowed allow))"


section \<open>The exact-lookup key\<close>

lemma lookup_key_eq_route_key: "lookup_key mth path = route_key mth path"
proof (cases "sat_usize (sat_usize (length mth + length path) + 1) \<le> 256")
  case True
  then have short: "length mth + length path + 1 \<le> 256"
    by (simp add: sat_usize_def min_def split: if_splits)
  define buf where "buf = replicate 256 (CHR 0x00)"
  have len: "sat_usize (sat_usize (length mth + length path) + 1) = length mth + length path + 1"
    using short by (simp add: sat_usize_def)
  have step1: "copy_into 0 mth buf = mth @ drop (length mth) buf"
    by (simp add: copy_into_def)
  have "drop (length mth) buf = CHR 0x00 # drop (length mth + 1) buf"
    using short Cons_nth_drop_Suc[of "length mth" buf] by (simp add: buf_def)
  then have step2:
    "(copy_into 0 mth buf)[length mth := CHR '':''] = mth @ CHR '':'' # drop (length mth + 1) buf"
    by (simp add: step1)
  have step3: "copy_into (length mth + 1) path (mth @ CHR '':'' # drop (length mth + 1) buf)
      = mth @ CHR '':'' # path @ drop (length mth + 1 + length path) buf"
    by (simp add: copy_into_def add.commute)
  show ?thesis
    using True unfolding lookup_key_def route_key_def Let_def
    by (simp only: len if_True buf_def [symmetric] step2 step3) simp
next
  case False
  then show ?thesis by (simp add: lookup_key_def Let_def)
qed

lemma route_key_inject:
  assumes "CHR '':'' \<notin> set m" and "CHR '':'' \<notin> set m'"
  shows "route_key m p = route_key m' p' \<longleftrightarrow> m = m' \<and> p = p'"
proof
  assume eq: "route_key m p = route_key m' p'"
  have "takeWhile (\<lambda>c. c \<noteq> CHR '':'') (route_key m p) = m"
    using assms(1) by (auto simp: route_key_def takeWhile_append)
  moreover have "takeWhile (\<lambda>c. c \<noteq> CHR '':'') (route_key m' p') = m'"
    using assms(2) by (auto simp: route_key_def takeWhile_append)
  ultimately have "m = m'" using eq by simp
  with eq show "m = m' \<and> p = p'" by (simp add: route_key_def)
qed simp

section \<open>Templates\<close>

lemma strip_prefix_Some_iff [simp]: "strip_prefix c s = Some name \<longleftrightarrow> s = c # name"
  by (cases s) auto

lemma strip_prefix_None_iff [simp]: "strip_prefix c s = None \<longleftrightarrow> \<not> starts_with c s"
  by (cases s) auto

lemma starts_with_iff: "starts_with c s \<longleftrightarrow> (\<exists>name. s = c # name)"
  by (cases s) auto

lemma star_not_param: "is_star_segment s \<Longrightarrow> \<not> is_param_segment s"
  by (cases s) auto

lemma path_matches_slash:
  "path_matches (CHR ''/'' # pattern) path \<longleftrightarrow>
     (\<exists>rest. path = CHR ''/'' # rest \<and> segments_match (segments pattern) (segments rest))"
proof (cases path)
  case Nil
  then show ?thesis by (cases "segments pattern") (auto simp: path_matches_def)
next
  case (Cons c rest)
  then show ?thesis by (auto simp: path_matches_def)
qed

text \<open>Overlap by recursion on the two segment lists.\<close>

fun seg_overlap :: "string list \<Rightarrow> string list \<Rightarrow> bool" where
  "seg_overlap [] [] = True"
| "seg_overlap (p # ps) (q # qs) =
     (if is_star_segment p \<or> is_star_segment q then True
      else (is_param_segment p \<or> is_param_segment q \<or> p = q) \<and> seg_overlap ps qs)"
| "seg_overlap _ _ = False"

abbreviation fixed_prefix :: "string list \<Rightarrow> nat" where
  "fixed_prefix ss \<equiv> length (takeWhile (\<lambda>s. \<not> is_star_segment s) ss)"

lemma list_ex_upt_Suc:
  "list_ex P [0..<Suc n] \<longleftrightarrow> P 0 \<or> list_ex (\<lambda>i. P (Suc i)) [0..<n]"
  by (simp add: list_ex_iff Bex_def less_Suc_eq_0_disj del: upt_Suc) blast

lemma fixed_prefix_le: "fixed_prefix ss \<le> length ss"
  by (rule length_takeWhile_le)

lemma seg_overlap_fixed:
  "seg_overlap l r \<longleftrightarrow>
     \<not> list_ex (\<lambda>i. \<not> is_param_segment (l ! i) \<and> \<not> is_param_segment (r ! i) \<and> l ! i \<noteq> r ! i)
         [0..<min (fixed_prefix l) (fixed_prefix r)] \<and>
     (case (fixed_prefix l < length l, fixed_prefix r < length r) of
        (False, False) \<Rightarrow> fixed_prefix l = fixed_prefix r
      | (True, False) \<Rightarrow> fixed_prefix r > fixed_prefix l
      | (False, True) \<Rightarrow> fixed_prefix l > fixed_prefix r
      | (True, True) \<Rightarrow> True)"
proof (induction l r rule: seg_overlap.induct)
  case (2 p ps q qs)
  show ?case
  proof (cases "is_star_segment p \<or> is_star_segment q")
    case True
    then show ?thesis
      using fixed_prefix_le[of ps] fixed_prefix_le[of qs] by (auto split: bool.split)
  next
    case False
    with 2 show ?thesis by (auto simp: list_ex_upt_Suc simp del: upt_Suc split: bool.split)
  qed
qed (auto split: bool.split)

lemma templates_overlap_seg:
  "templates_overlap left right = seg_overlap (tl (segments left)) (tl (segments right))"
  by (simp add: templates_overlap_def seg_overlap_fixed Let_def)

lemma seg_overlap_sym: "seg_overlap l r = seg_overlap r l"
  by (induction l r rule: seg_overlap.induct) auto

lemma segments_match_overlap:
  "segments_match l ss \<Longrightarrow> segments_match r ss \<Longrightarrow> seg_overlap l r"
proof (induction l r arbitrary: ss rule: seg_overlap.induct)
  case (2 p ps q qs)
  then show ?case by (cases ss) (auto split: if_splits)
qed (auto elim: segments_match.elims)

text \<open>
  Two templates that overlap have a common instance: the literal where one of them has
  one, a fixed filler where both are parameters.
\<close>

abbreviation filler :: string where "filler \<equiv> ''x''"

definition instance_segment :: "string \<Rightarrow> string" where
  "instance_segment s = (if is_param_segment s \<or> is_star_segment s then filler else s)"

fun common_instance :: "string list \<Rightarrow> string list \<Rightarrow> string list" where
  "common_instance (p # ps) (q # qs) =
     (if is_star_segment p then map instance_segment (q # qs)
      else if is_star_segment q then map instance_segment (p # ps)
      else (if is_param_segment p then instance_segment q else p) # common_instance ps qs)"
| "common_instance _ _ = []"

definition proper_segments :: "string list \<Rightarrow> bool" where
  "proper_segments ss \<longleftrightarrow> (\<forall>s\<in>set ss. s \<noteq> [] \<and> CHR ''/'' \<notin> set s) \<and>
     (\<forall>s\<in>set (butlast ss). \<not> is_star_segment s)"

lemma proper_segments_Cons:
  "proper_segments (s # ss) \<longleftrightarrow> s \<noteq> [] \<and> CHR ''/'' \<notin> set s \<and>
     (ss \<noteq> [] \<longrightarrow> \<not> is_star_segment s) \<and> proper_segments ss"
  by (auto simp: proper_segments_def)

lemma instance_segment_nonempty: "s \<noteq> [] \<Longrightarrow> instance_segment s \<noteq> []"
  by (simp add: instance_segment_def)

lemma segments_match_instance:
  "proper_segments ss \<Longrightarrow> segments_match ss (map instance_segment ss)"
proof (induction ss)
  case (Cons s ss)
  then show ?case by (auto simp: proper_segments_Cons instance_segment_def)
qed simp

lemma instance_all_nonempty:
  "proper_segments ss \<Longrightarrow> list_all (\<lambda>s. s \<noteq> []) (map instance_segment ss)"
  by (auto simp: proper_segments_def list_all_iff instance_segment_nonempty)

lemma common_instance_matches:
  "proper_segments l \<Longrightarrow> proper_segments r \<Longrightarrow> seg_overlap l r \<Longrightarrow>
     segments_match l (common_instance l r) \<and> segments_match r (common_instance l r)"
proof (induction l r rule: seg_overlap.induct)
  case (2 p ps q qs)
  have inst: "segments_match (p # ps) (map instance_segment (p # ps))"
       "segments_match (q # qs) (map instance_segment (q # qs))"
    using 2 segments_match_instance by blast+
  have ne: "list_all (\<lambda>s. s \<noteq> []) (map instance_segment (p # ps))"
      "list_all (\<lambda>s. s \<noteq> []) (map instance_segment (q # qs))"
    using 2 instance_all_nonempty by blast+
  consider "is_star_segment p" | "\<not> is_star_segment p" "is_star_segment q"
    | "\<not> is_star_segment p" "\<not> is_star_segment q" by blast
  then show ?case
  proof cases
    case 3
    with 2 have "segments_match ps (common_instance ps qs) \<and> segments_match qs (common_instance ps qs)"
      by (auto simp: proper_segments_Cons)
    with 3 2 show ?thesis by (auto simp: proper_segments_Cons instance_segment_def)
  qed (use inst ne in auto)
qed auto

lemma common_instance_no_slash:
  "proper_segments l \<Longrightarrow> proper_segments r \<Longrightarrow> s \<in> set (common_instance l r) \<Longrightarrow> CHR ''/'' \<notin> set s"
proof (induction l r rule: common_instance.induct)
  case (1 p ps q qs)
  then show ?case
    by (auto simp: proper_segments_Cons proper_segments_def instance_segment_def split: if_splits)
qed auto

section \<open>Accepted routes\<close>

definition normal_form :: "'a RouteInfo \<Rightarrow> 'a RouteInfo" where
  "normal_form route = route\<lparr>rt_method := map to_ascii_uppercase (rt_method route)\<rparr>"

definition well_formed_template :: "string \<Rightarrow> bool" where
  "well_formed_template path \<longleftrightarrow>
     length path \<le> MAX_ROUTE_TEMPLATE_BYTES \<and> starts_with (CHR ''/'') path \<and>
     CHR ''?'' \<notin> set path \<and> CHR ''#'' \<notin> set path \<and>
     (path = ''/'' \<or> [] \<notin> set (tl (segments path))) \<and>
     check_segments [] (tl (segments path)) = None"

definition route_ok :: "(string \<Rightarrow> bool) \<Rightarrow> 'a RouteInfo \<Rightarrow> bool" where
  "route_ok method_ok route \<longleftrightarrow> rt_method route \<noteq> [] \<and>
     method_ok (map to_ascii_uppercase (rt_method route)) \<and> well_formed_template (rt_path route)"

lemma normal_form_simps [simp]:
  "rt_path (normal_form r) = rt_path r" "handler_name (normal_form r) = handler_name r"
  "rt_payload (normal_form r) = rt_payload r"
  "rt_method (normal_form r) = map to_ascii_uppercase (rt_method r)"
  by (simp_all add: normal_form_def)

lemma validate_Ok_iff:
  "validate_and_normalize_route method_ok route = Ok route' \<longleftrightarrow>
     route_ok method_ok route \<and> route' = normal_form route"
  by (auto simp: validate_and_normalize_route_def route_ok_def well_formed_template_def
      normal_form_def Let_def list_ex_iff split: if_splits option.splits)

lemma check_segments_star_last:
  "check_segments seen ss = None \<Longrightarrow> s \<in> set (butlast ss) \<Longrightarrow> \<not> is_star_segment s"
proof (induction seen ss rule: check_segments.induct)
  case (2 seen segment rest)
  then show ?case by (cases segment) (auto split: if_splits)
qed simp

lemma well_formed_starts: "well_formed_template path \<Longrightarrow> \<exists>rest. path = CHR ''/'' # rest"
  by (auto simp: well_formed_template_def starts_with_iff)

lemma well_formed_proper:
  assumes "well_formed_template path" and "is_parameterized path"
  shows "proper_segments (tl (segments path))"
proof -
  from assms(2) have "path \<noteq> ''/''" by (auto simp: is_parameterized_def)
  with assms(1) show ?thesis
    by (auto simp: proper_segments_def well_formed_template_def
        dest: check_segments_star_last list.set_sel(2)[OF split_on_not_Nil, THEN split_on_notin])
qed

fun numbered :: "nat \<Rightarrow> 'a RouteInfo list \<Rightarrow> 'a RouteInfo list" where
  "numbered k [] = []"
| "numbered k (r # rs) = r\<lparr>route_plan_id := k\<rparr> # numbered (Suc k) rs"

lemma numbered_map [simp]:
  assumes "\<And>r k. f (r\<lparr>route_plan_id := k\<rparr>) = f r"
  shows "map f (numbered k rs) = map f rs"
  using assms by (induction rs arbitrary: k) auto

lemma length_numbered [simp]: "length (numbered k rs) = length rs"
  by (induction rs arbitrary: k) auto

lemma normalize_routes_Ok_iff:
  "normalize_routes method_ok k routes = Ok rs \<longleftrightarrow>
     (\<forall>r\<in>set routes. route_ok method_ok r) \<and> rs = numbered k (map normal_form routes)"
  by (induction routes arbitrary: k rs) (auto simp: validate_Ok_iff)

section \<open>Admission\<close>

definition ambiguous :: "'a RouteInfo \<Rightarrow> 'a RouteInfo \<Rightarrow> bool" where
  "ambiguous r s \<longleftrightarrow> rt_method r = rt_method s \<and>
     literal_segment_count (rt_path r) = literal_segment_count (rt_path s) \<and>
     fixed_segment_count (rt_path r) = fixed_segment_count (rt_path s) \<and>
     has_catch_all (rt_path r) = has_catch_all (rt_path s) \<and>
     templates_overlap (rt_path r) (rt_path s)"

lemma ambiguous_sym: "ambiguous r s = ambiguous s r"
  by (auto simp: ambiguous_def templates_overlap_seg seg_overlap_sym)

lemma reject_Ok_iff:
  "reject_equal_precedence_overlap rs r = Ok () \<longleftrightarrow> (\<forall>e\<in>set rs. \<not> ambiguous e r)"
  by (induction rs) (auto simp: ambiguous_def)

definition registration_key :: "'a RouteInfo \<Rightarrow> string" where
  "registration_key r = route_key (rt_method r) (normalized_registration_path (rt_path r))"

lemma normalized_literal:
  "\<not> is_parameterized path \<Longrightarrow> normalized_registration_path path = path"
proof -
  assume "\<not> is_parameterized path"
  then have "map (\<lambda>segment. if is_param_segment segment then '':''
        else if is_star_segment segment then ''*'' else segment) (segments path) = segments path"
    by (intro map_idI) (auto simp: is_parameterized_def list_ex_iff)
  then show ?thesis by (simp add: normalized_registration_path_def)
qed

text \<open>What the three collections hold once a prefix of the routes is admitted.\<close>

definition param_part :: "'a RouteInfo list \<Rightarrow> 'a RouteInfo list" where
  "param_part rs = filter (\<lambda>r. is_parameterized (rt_path r)) rs"

definition exact_part :: "'a RouteInfo list \<Rightarrow> (string \<times> 'a RouteInfo) list" where
  "exact_part rs = map (\<lambda>r. (route_key (rt_method r) (rt_path r), r))
     (filter (\<lambda>r. \<not> is_parameterized (rt_path r)) rs)"

definition admitted :: "'a RouteInfo list \<Rightarrow> 'a Admission" where
  "admitted rs = \<lparr>adm_exact = exact_part rs, adm_param = param_part rs,
     adm_registered = map (\<lambda>r. (registration_key r, handler_name r)) rs\<rparr>"

lemma admitted_simps [simp]:
  "adm_exact (admitted rs) = exact_part rs" "adm_param (admitted rs) = param_part rs"
  by (simp_all add: admitted_def)

lemma exact_part_keys: "k \<in> set (hm_keys (exact_part rs)) \<Longrightarrow> k \<in> registration_key ` set rs"
  by (auto simp: exact_part_def registration_key_def image_iff)
    (metis normalized_literal)

lemma update_fresh: "k \<notin> set (hm_keys m) \<Longrightarrow> hm_insert k v m = m @ [(k, v)]"
  by (induction m) auto

lemma admit_route_Ok_iff:
  "admit_route (admitted rs) r = Ok st \<longleftrightarrow>
     registration_key r \<notin> registration_key ` set rs \<and>
     (is_parameterized (rt_path r) \<longrightarrow> (\<forall>e\<in>set (param_part rs). \<not> ambiguous e r)) \<and>
     st = admitted (rs @ [r])"
proof (cases "registration_key r \<in> registration_key ` set rs")
  case True
  then have "hm_get (adm_registered (admitted rs)) (registration_key r) \<noteq> None"
    by (auto simp: admitted_def map_of_eq_None_iff image_image)
  with True show ?thesis
    by (auto simp: admit_route_def registration_key_def Let_def)
next
  case False
  then have get: "hm_get (adm_registered (admitted rs)) (registration_key r) = None"
    by (auto simp: admitted_def map_of_eq_None_iff image_image)
  have reg: "hm_insert (registration_key r) (handler_name r) (adm_registered (admitted rs))
      = adm_registered (admitted (rs @ [r]))"
    using False by (simp add: admitted_def update_fresh image_image)
  have ex: "hm_insert (route_key (rt_method r) (rt_path r)) r (exact_part rs) = exact_part (rs @ [r])"
    if literal: "\<not> is_parameterized (rt_path r)"
  proof -
    have "route_key (rt_method r) (rt_path r) = registration_key r"
      using literal by (simp add: registration_key_def normalized_literal)
    with False exact_part_keys[of "registration_key r" rs]
    have "route_key (rt_method r) (rt_path r) \<notin> set (hm_keys (exact_part rs))" by auto
    with literal show ?thesis by (simp add: update_fresh) (simp add: exact_part_def)
  qed
  show ?thesis
    using get reg False ex
    by (auto simp: admit_route_def registration_key_def [symmetric] Let_def reject_Ok_iff
        admitted_def param_part_def exact_part_def)
qed

definition compatible_routes :: "'a RouteInfo list \<Rightarrow> bool" where
  "compatible_routes rs \<longleftrightarrow> distinct (map registration_key rs) \<and>
     sorted_wrt (\<lambda>r s. \<not> ambiguous r s) (param_part rs)"

lemma compatible_routes_Nil [simp]: "compatible_routes []"
  by (simp add: compatible_routes_def param_part_def)

lemma admitted_Nil: "admitted [] = \<lparr>adm_exact = [], adm_param = [], adm_registered = []\<rparr>"
  by (simp add: admitted_def exact_part_def param_part_def)

lemma compatible_routes_snoc:
  "compatible_routes (rs @ [r]) \<longleftrightarrow> compatible_routes rs \<and>
     registration_key r \<notin> registration_key ` set rs \<and>
     (is_parameterized (rt_path r) \<longrightarrow> (\<forall>e\<in>set (param_part rs). \<not> ambiguous e r))"
  by (auto simp: compatible_routes_def param_part_def sorted_wrt_append)

lemma compatible_routes_prefix: "compatible_routes (rs @ qs) \<Longrightarrow> compatible_routes rs"
  by (auto simp: compatible_routes_def param_part_def sorted_wrt_append)

lemma admit_routes_Ok_iff:
  "compatible_routes rs \<Longrightarrow> admit_routes (admitted rs) qs = Ok st \<longleftrightarrow>
     compatible_routes (rs @ qs) \<and> st = admitted (rs @ qs)"
proof (induction qs arbitrary: rs)
  case (Cons q qs)
  show ?case
  proof (cases "compatible_routes (rs @ [q])")
    case True
    with Cons.IH[of "rs @ [q]"] Cons.prems show ?thesis
      by (simp add: admit_route_Ok_iff compatible_routes_snoc)
  next
    case False
    with Cons.prems compatible_routes_prefix[of "rs @ [q]" qs] show ?thesis
      by (auto simp: admit_route_Ok_iff compatible_routes_snoc)
  qed
qed auto

definition table_of :: "'a RouteInfo list \<Rightarrow> 'a RouteTable" where
  "table_of rs = \<lparr>exact_routes = exact_part rs, param_routes = sort_key route_order_key (param_part rs),
     exact_count = length (exact_part rs), param_count = length (param_part rs)\<rparr>"

lemma from_routes_Ok_iff:
  "from_routes method_ok routes = Ok table \<longleftrightarrow>
     (\<forall>r\<in>set routes. route_ok method_ok r) \<and>
     (let rs = numbered 0 (map normal_form routes)
      in compatible_routes rs \<and> table = table_of rs)"
  by (auto simp: from_routes_def normalize_routes_Ok_iff admitted_Nil [symmetric]
      admit_routes_Ok_iff Let_def table_of_def)

section \<open>Precedence\<close>

definition request_matches :: "'a RouteInfo \<Rightarrow> string \<times> string \<Rightarrow> bool" where
  "request_matches r q \<longleftrightarrow> rt_method r = fst q \<and> path_matches (rt_path r) (snd q)"

definition route_rank :: "'a RouteInfo \<Rightarrow> int \<times> int \<times> bool" where
  "route_rank r = (- int (literal_segment_count (rt_path r)),
     - int (fixed_segment_count (rt_path r)), has_catch_all (rt_path r))"

lemma path_matches_overlap:
  assumes "starts_with (CHR ''/'') l" and "starts_with (CHR ''/'') r"
    and "path_matches l path" and "path_matches r path"
  shows "templates_overlap l r"
proof -
  obtain l' r' where "l = CHR ''/'' # l'" "r = CHR ''/'' # r'"
    using assms(1,2) by (auto simp: starts_with_iff)
  with assms(3,4) show ?thesis
    by (auto simp: path_matches_slash templates_overlap_seg intro: segments_match_overlap)
qed

interpretation routes: precedence_table request_matches route_rank ambiguous
    "\<lambda>r. starts_with (CHR ''/'') (rt_path r)"
  by unfold_locales
    (auto simp: request_matches_def route_rank_def ambiguous_def intro: path_matches_overlap)

lemma sorted_route_rank: "sorted (map route_rank (sort_key route_order_key rs))"
proof -
  have "sorted_wrt (\<lambda>r s. route_order_key r \<le> route_order_key s) (sort_key route_order_key rs)"
    using sorted_sort_key[of route_order_key rs] by (simp add: sorted_map)
  then have "sorted_wrt (\<lambda>r s. route_rank r \<le> route_rank s) (sort_key route_order_key rs)"
    by (rule sorted_wrt_mono_rel[rotated])
      (auto simp: route_order_key_def route_rank_def less_eq_prod_def less_prod_def)
  then show ?thesis by (simp add: sorted_map)
qed

lemma segments_match_literal:
  "\<forall>s\<in>set ps. \<not> is_param_segment s \<and> \<not> is_star_segment s \<Longrightarrow> segments_match ps ss \<longleftrightarrow> ps = ss"
  by (induction ps ss rule: segments_match.induct) auto

lemma path_matches_literal: "\<not> is_parameterized p \<Longrightarrow> path_matches p path \<longleftrightarrow> p = path"
  by (simp add: path_matches_def is_parameterized_def list_ex_iff segments_match_literal
      split_on_inject)

section \<open>What a built table holds\<close>

definition erase_plan :: "'a RouteInfo \<Rightarrow> 'a RouteInfo" where
  "erase_plan r = r\<lparr>route_plan_id := 0\<rparr>"

lemma erase_plan_simps [simp]:
  "rt_path (erase_plan r) = rt_path r" "rt_method (erase_plan r) = rt_method r"
  "handler_name (erase_plan r) = handler_name r"
  by (simp_all add: erase_plan_def)

lemma erase_plan_invariant [simp]:
  "registration_key (erase_plan r) = registration_key r"
  "ambiguous (erase_plan r) (erase_plan s) = ambiguous r s"
  "route_order_key (erase_plan r) = route_order_key r"
  "route_rank (erase_plan r) = route_rank r"
  "request_matches (erase_plan r) q = request_matches r q"
  by (simp_all add: registration_key_def ambiguous_def route_order_key_def route_rank_def
      request_matches_def)

lemma map_erase_numbered [simp]: "map erase_plan (numbered k rs) = map erase_plan rs"
  by (rule numbered_map) (simp add: erase_plan_def)

lemma param_part_erase: "param_part (map erase_plan rs) = map erase_plan (param_part rs)"
  by (simp add: param_part_def filter_map comp_def)

lemma compatible_erase [simp]: "compatible_routes (map erase_plan rs) = compatible_routes rs"
  by (simp add: compatible_routes_def param_part_erase sorted_wrt_map comp_def)

lemma compatible_numbered [simp]: "compatible_routes (numbered k rs) = compatible_routes rs"
  by (metis compatible_erase map_erase_numbered)

lemma compatible_perm:
  assumes "mset rs = mset rs'"
  shows "compatible_routes rs = compatible_routes rs'"
proof -
  have imp: "compatible_routes ys" if "mset xs = mset ys" "compatible_routes xs"
    for xs ys :: "'a RouteInfo list"
  proof -
    have "mset (param_part xs) = mset (param_part ys)"
      using that(1) by (simp add: param_part_def)
    moreover have "mset (map registration_key xs) = mset (map registration_key ys)"
      using that(1) by simp
    ultimately show ?thesis
      using that(2) unfolding compatible_routes_def
      by (metis (no_types, lifting) ambiguous_sym mset_eq_imp_distinct_iff sorted_wrt_perm)
  qed
  from assms show ?thesis by (metis imp)
qed

lemma distinct_registration_pairwise:
  assumes "compatible_routes rs" and "r \<in> set rs" and "s \<in> set rs" and "r \<noteq> s"
  shows "registration_key r \<noteq> registration_key s"
  using assms by (auto simp: compatible_routes_def distinct_map dest: inj_onD)

lemma compatible_pairwise:
  assumes "compatible_routes rs" and "r \<in> set (param_part rs)" and "s \<in> set (param_part rs)"
    and "r \<noteq> s"
  shows "\<not> ambiguous r s"
proof -
  have earlier: "\<not> ambiguous (param_part rs ! i) (param_part rs ! j)"
    if "i < j" "j < length (param_part rs)" for i j
    using assms(1) that by (simp add: compatible_routes_def sorted_wrt_iff_nth_less)
  from assms(2,3) obtain i j where ij: "i < length (param_part rs)" "param_part rs ! i = r"
      "j < length (param_part rs)" "param_part rs ! j = s"
    by (auto simp: in_set_conv_nth)
  with assms(4) consider "i < j" | "j < i" by (metis linorder_neqE_nat)
  then show ?thesis
    using earlier[of i j] earlier[of j i] ij ambiguous_sym[of r s] by cases auto
qed

lemma exact_part_distinct:
  assumes "compatible_routes rs"
  shows "hm_invar (exact_part rs)"
proof -
  have "map fst (exact_part rs) =
      map registration_key (filter (\<lambda>r. \<not> is_parameterized (rt_path r)) rs)"
    by (simp add: exact_part_def registration_key_def normalized_literal)
  then show ?thesis
    using assms by (simp add: compatible_routes_def distinct_map_filter)
qed

lemma exact_part_get:
  assumes "compatible_routes rs"
  shows "hm_get (exact_part rs) k = Some r \<longleftrightarrow>
     r \<in> set rs \<and> \<not> is_parameterized (rt_path r) \<and> k = route_key (rt_method r) (rt_path r)"
  using exact_part_distinct[OF assms] by (auto simp: exact_part_def)

lemma set_table_routes: "set (table_routes (table_of rs)) = set rs"
  by (auto simp: table_routes_def table_of_def exact_part_def param_part_def)

lemma param_routes_table_of:
  "param_routes (table_of rs) = sort_key route_order_key (param_part rs)"
  by (simp add: table_of_def)

lemma exact_routes_table_of: "exact_routes (table_of rs) = exact_part rs"
  by (simp add: table_of_def)

lemma find_route_eq:
  "find_route_for_method (table_of rs) mth path =
     (case hm_get (exact_part rs) (route_key mth path) of
        Some route \<Rightarrow> Some route
      | None \<Rightarrow> find (\<lambda>r. request_matches r (mth, path)) (sort_key route_order_key (param_part rs)))"
  by (simp add: find_route_for_method_def lookup_key_eq_route_key param_routes_table_of
      exact_routes_table_of request_matches_def split: option.split)

text \<open>
  A lookup in a compatible table: the route it returns matches, no other route of the
  method that matches precedes it, and it fails only if nothing matches.
\<close>

definition precedes :: "'a RouteInfo \<Rightarrow> 'a RouteInfo \<Rightarrow> bool" where
  "precedes r s \<longleftrightarrow> is_parameterized (rt_path s) \<and>
     (is_parameterized (rt_path r) \<longrightarrow> route_rank r < route_rank s)"

lemma exact_get_iff:
  assumes "compatible_routes rs" and "CHR '':'' \<notin> set mth"
    and tokens: "\<forall>r\<in>set rs. CHR '':'' \<notin> set (rt_method r)"
  shows "hm_get (exact_part rs) (route_key mth path) = Some r \<longleftrightarrow>
     r \<in> set rs \<and> \<not> is_parameterized (rt_path r) \<and> request_matches r (mth, path)"
  using assms route_key_inject[of mth "rt_method r" path "rt_path r"]
  by (auto simp: exact_part_get request_matches_def path_matches_literal)

lemma find_route_matches:
  assumes "compatible_routes rs" and "CHR '':'' \<notin> set mth"
    and "\<forall>r\<in>set rs. CHR '':'' \<notin> set (rt_method r)"
    and "find_route_for_method (table_of rs) mth path = Some r"
  shows "r \<in> set rs \<and> request_matches r (mth, path)"
  using assms
  by (auto simp: find_route_eq exact_get_iff param_part_def split: option.splits dest: find_SomeD)

lemma find_route_None:
  assumes "compatible_routes rs" and "CHR '':'' \<notin> set mth"
    and "\<forall>r\<in>set rs. CHR '':'' \<notin> set (rt_method r)"
  shows "find_route_for_method (table_of rs) mth path = None \<longleftrightarrow>
     (\<forall>r\<in>set rs. \<not> request_matches r (mth, path))"
proof -
  have "hm_get (exact_part rs) (route_key mth path) = None \<longleftrightarrow>
      (\<forall>r\<in>set rs. \<not> is_parameterized (rt_path r) \<longrightarrow> \<not> request_matches r (mth, path))"
    using exact_get_iff[OF assms, of path] by (metis not_Some_eq)
  then show ?thesis
    by (auto simp: find_route_eq find_None_iff_set param_part_def split: option.splits)
qed

lemma find_route_precedes:
  assumes comp: "compatible_routes rs" and tok: "CHR '':'' \<notin> set mth"
    and toks: "\<forall>r\<in>set rs. CHR '':'' \<notin> set (rt_method r)"
    and slash: "\<forall>r\<in>set rs. starts_with (CHR ''/'') (rt_path r)"
    and found: "find_route_for_method (table_of rs) mth path = Some r"
    and other: "s \<in> set rs" "request_matches s (mth, path)" "s \<noteq> r"
  shows "precedes r s"
proof (cases "hm_get (exact_part rs) (route_key mth path)")
  case (Some r')
  with found have "hm_get (exact_part rs) (route_key mth path) = Some r"
    by (simp add: find_route_eq)
  then show ?thesis
    using other exact_get_iff[OF comp tok toks, of path r] exact_get_iff[OF comp tok toks, of path s]
    by (auto simp: precedes_def)
next
  case None
  with found have f: "find (\<lambda>r. request_matches r (mth, path)) (sort_key route_order_key (param_part rs)) = Some r"
    by (simp add: find_route_eq)
  have par: "is_parameterized (rt_path s)"
    using None other exact_get_iff[OF comp tok toks, of path s] by auto
  have "route_rank r < route_rank s"
    using routes.first_match_best[OF sorted_route_rank _ _ f, of s] compatible_pairwise[OF comp]
      slash other par by (auto simp: param_part_def)
  with par show ?thesis by (simp add: precedes_def)
qed

lemma built_table:
  assumes "from_routes method_ok routes = Ok table" and "\<And>m. method_ok m \<Longrightarrow> CHR '':'' \<notin> set m"
  obtains rs where "table = table_of rs" and "compatible_routes rs"
    and "\<forall>r\<in>set rs. CHR '':'' \<notin> set (rt_method r)"
    and "\<forall>r\<in>set rs. well_formed_template (rt_path r)"
    and "map erase_plan rs = map (erase_plan \<circ> normal_form) routes"
proof -
  define rs where "rs = numbered 0 (map normal_form routes)"
  from assms(1) have table: "table = table_of rs" "compatible_routes rs"
    and ok: "\<forall>r\<in>set routes. route_ok method_ok r"
    by (auto simp: from_routes_Ok_iff Let_def rs_def)
  have er: "map erase_plan rs = map (erase_plan \<circ> normal_form) routes" by (simp add: rs_def)
  have "\<exists>r0\<in>set routes. rt_method r = map to_ascii_uppercase (rt_method r0) \<and> rt_path r = rt_path r0"
    if "r \<in> set rs" for r
  proof -
    from that have "erase_plan r \<in> set (map (erase_plan \<circ> normal_form) routes)"
      by (metis er image_eqI list.set_map)
    then obtain r0 where "r0 \<in> set routes" and e: "erase_plan r = erase_plan (normal_form r0)" by auto
    then show ?thesis
      by (metis erase_plan_simps(1,2) normal_form_simps(1,4))
  qed
  then have "\<forall>r\<in>set rs. CHR '':'' \<notin> set (rt_method r) \<and> well_formed_template (rt_path r)"
    using ok assms(2) by (fastforce simp: route_ok_def)
  with table er that show ?thesis by blast
qed

lemma well_formed_slash: "well_formed_template path \<Longrightarrow> starts_with (CHR ''/'') path"
  by (simp add: well_formed_template_def)

lemma template_hit:
  "(if is_parameterized p then path_matches p path else p = path) = path_matches p path"
  by (simp add: path_matches_literal)

lemma set_allowed_methods:
  "set (allowed_methods (table_of rs) path) =
     {rt_method r | r. r \<in> set rs \<and> path_matches (rt_path r) path} \<union>
     (if \<exists>r\<in>set rs. rt_method r = ''GET'' \<and> path_matches (rt_path r) path then {''HEAD''} else {})"
  by (auto simp: allowed_methods_def template_hit set_table_routes split: if_splits)

lemma allowed_methods_by_image:
  "set (allowed_methods (table_of rs) path) =
     (let hits = {m. \<exists>r\<in>erase_plan ` set rs. m = rt_method r \<and> path_matches (rt_path r) path}
      in hits \<union> (if ''GET'' \<in> hits then {''HEAD''} else {}))"
  by (auto simp: set_allowed_methods Let_def)

section \<open>Properties of the route table\<close>

text \<open>
  C1. A built table resolves a request to the best route. The route found is registered
  for the request's method (or, for \<open>HEAD\<close> with no \<open>HEAD\<close> route on the path, for
  \<open>GET\<close>), its template matches the path, and it strictly precedes every other route of its
  method that matches: exact routes precede templates, and templates are ranked by literal
  segments, fixed segments and absence of a catch-all.
\<close>

theorem resolve_found_best:
  assumes built: "from_routes method_ok routes = Ok table"
    and tokens: "\<And>m. method_ok m \<Longrightarrow> CHR '':'' \<notin> set m"
    and mth: "CHR '':'' \<notin> set mth"
    and found: "resolve table mth path = Found r"
  shows "r \<in> set (table_routes table) \<and> path_matches (rt_path r) path \<and>
    (rt_method r = mth \<or> mth = ''HEAD'' \<and> rt_method r = ''GET'' \<and>
      (\<forall>s\<in>set (table_routes table). rt_method s = ''HEAD'' \<longrightarrow> \<not> path_matches (rt_path s) path)) \<and>
    (\<forall>s\<in>set (table_routes table).
      rt_method s = rt_method r \<and> path_matches (rt_path s) path \<and> s \<noteq> r \<longrightarrow> precedes r s)"
proof -
  from built tokens obtain rs where t: "table = table_of rs" and comp: "compatible_routes rs"
    and toks: "\<forall>r\<in>set rs. CHR '':'' \<notin> set (rt_method r)"
    and wf: "\<forall>r\<in>set rs. well_formed_template (rt_path r)"
    by (rule built_table)
  from wf have slash: "\<forall>r\<in>set rs. starts_with (CHR ''/'') (rt_path r)"
    by (simp add: well_formed_slash)
  from found obtain m where m: "find_route_for_method table m path = Some r"
    and mcase: "m = mth \<or> mth = ''HEAD'' \<and> m = ''GET'' \<and> find_route_for_method table mth path = None"
    by (auto simp: resolve_def Let_def split: option.splits if_splits)
  from mcase mth have mtok: "CHR '':'' \<notin> set m" by auto
  have hit: "r \<in> set rs" "request_matches r (m, path)"
    using find_route_matches[OF comp mtok toks] m t by auto
  then have "r \<in> set (table_routes table)" "path_matches (rt_path r) path"
    by (auto simp: t set_table_routes request_matches_def)
  moreover have "rt_method r = mth \<or> mth = ''HEAD'' \<and> rt_method r = ''GET'' \<and>
      (\<forall>s\<in>set (table_routes table). rt_method s = ''HEAD'' \<longrightarrow> \<not> path_matches (rt_path s) path)"
    using mcase hit find_route_None[OF comp mth toks, of path]
    by (auto simp: t set_table_routes request_matches_def)
  moreover have "\<forall>s\<in>set (table_routes table).
      rt_method s = rt_method r \<and> path_matches (rt_path s) path \<and> s \<noteq> r \<longrightarrow> precedes r s"
    using find_route_precedes[OF comp mtok toks slash] m t hit
    by (auto simp: set_table_routes request_matches_def)
  ultimately show ?thesis by blast
qed

text \<open>
  C4. A miss is classified exactly. The result is \<open>NotFound\<close> if and only if no route of
  any method matches the path; otherwise, with no route for the method (and for \<open>HEAD\<close> no
  \<open>GET\<close> route either), it is \<open>MethodNotAllowed\<close>, and the \<open>Allow\<close> list is sorted, free
  of duplicates and names exactly the methods that match plus \<open>HEAD\<close> where \<open>GET\<close> does.
\<close>

theorem resolve_miss:
  assumes built: "from_routes method_ok routes = Ok table"
    and tokens: "\<And>m. method_ok m \<Longrightarrow> CHR '':'' \<notin> set m"
    and mth: "CHR '':'' \<notin> set mth"
  shows "(resolve table mth path = NotFound \<longleftrightarrow>
      (\<forall>r\<in>set (table_routes table). \<not> path_matches (rt_path r) path)) \<and>
    (resolve table mth path = MethodNotAllowed allow \<longleftrightarrow>
      (\<exists>r\<in>set (table_routes table). path_matches (rt_path r) path) \<and>
      (\<forall>r\<in>set (table_routes table). path_matches (rt_path r) path \<longrightarrow>
         rt_method r \<noteq> mth \<and> \<not> (mth = ''HEAD'' \<and> rt_method r = ''GET'')) \<and>
      sorted allow \<and> distinct allow \<and>
      set allow = {rt_method r | r. r \<in> set (table_routes table) \<and> path_matches (rt_path r) path} \<union>
        (if \<exists>r\<in>set (table_routes table). rt_method r = ''GET'' \<and> path_matches (rt_path r) path
         then {''HEAD''} else {}))"
proof -
  from built tokens obtain rs where t: "table = table_of rs" and comp: "compatible_routes rs"
    and toks: "\<forall>r\<in>set rs. CHR '':'' \<notin> set (rt_method r)"
    by (rule built_table)
  let ?hit = "\<lambda>r. r \<in> set rs \<and> path_matches (rt_path r) path"
  have none: "find_route_for_method table m path = None \<longleftrightarrow> (\<forall>r. ?hit r \<longrightarrow> rt_method r \<noteq> m)"
    if "CHR '':'' \<notin> set m" for m
    using find_route_None[OF comp that toks, of path] by (auto simp: t request_matches_def)
  have get: "CHR '':'' \<notin> set ''GET''" by simp
  have empty: "allowed_methods table path = [] \<longleftrightarrow> (\<forall>r. \<not> ?hit r)"
    using set_allowed_methods[of rs path] by (auto simp: t simp flip: set_empty)
  have sd: "sorted (allowed_methods table path) \<and> distinct (allowed_methods table path)"
    by (simp add: allowed_methods_def)
  have nodup: "allow = allowed_methods table path \<longleftrightarrow>
      sorted allow \<and> distinct allow \<and> set allow = set (allowed_methods table path)"
    using sd by (metis sorted_distinct_set_unique)
  have notfound: "resolve table mth path = NotFound \<longleftrightarrow>
      (\<forall>r\<in>set (table_routes table). \<not> path_matches (rt_path r) path)"
    using none[OF mth] none[OF get] empty
    by (auto simp: resolve_def Let_def t set_table_routes split: option.splits if_splits)
  have "resolve table mth path = MethodNotAllowed allow \<longleftrightarrow>
      (\<exists>r. ?hit r) \<and> (\<forall>r. ?hit r \<longrightarrow> rt_method r \<noteq> mth \<and> \<not> (mth = ''HEAD'' \<and> rt_method r = ''GET'')) \<and>
      allow = allowed_methods table path"
    using none[OF mth] none[OF get] empty
    by (auto simp: resolve_def Let_def split: option.splits if_splits)
  with notfound show ?thesis
    unfolding nodup by (auto simp: t set_table_routes set_allowed_methods)
qed

fun erase_resolution :: "'a RouteResolution \<Rightarrow> 'a RouteResolution" where
  "erase_resolution (Found r) = Found (erase_plan r)"
| "erase_resolution res = res"

lemma route_ok_perm:
  "mset routes = mset routes' \<Longrightarrow> (\<forall>r\<in>set routes. P r) = (\<forall>r\<in>set routes'. P r)"
  by (metis mset_eq_setD)

lemma find_erase:
  "map_option erase_plan (find (\<lambda>r. request_matches r q) xs) =
     find (\<lambda>r. request_matches r q) (map erase_plan xs)"
  by (induction xs) auto

lemma exact_get_erase:
  "map_option erase_plan (hm_get (exact_part rs) k) = hm_get (exact_part (map erase_plan rs)) k"
  by (induction rs) (auto simp: exact_part_def)

lemma find_route_erase:
  "map_option erase_plan (find_route_for_method (table_of rs) mth path) =
     find_route_for_method (table_of (map erase_plan rs)) mth path"
  by (simp add: find_route_eq exact_get_erase [symmetric] find_erase param_part_erase map_sort_key
      split: option.split)

lemma find_route_perm:
  assumes "mset rs = mset rs'" and comp: "compatible_routes rs"
    and "\<forall>r\<in>set rs. starts_with (CHR ''/'') (rt_path r)"
  shows "find_route_for_method (table_of rs) mth path = find_route_for_method (table_of rs') mth path"
proof -
  from assms have comp': "compatible_routes rs'" and set: "set rs = set rs'"
    using compatible_perm mset_eq_setD by blast+
  have "map_of (exact_part rs) = map_of (exact_part rs')"
    using exact_part_distinct[OF comp] exact_part_distinct[OF comp']
    by (subst map_of_inject_set) (auto simp: exact_part_def set)
  moreover have "find (\<lambda>r. request_matches r (mth, path)) (sort_key route_order_key (param_part rs)) =
      find (\<lambda>r. request_matches r (mth, path)) (sort_key route_order_key (param_part rs'))"
    using compatible_pairwise[OF comp] set assms(3)
    by (intro routes.first_match_order_independent sorted_route_rank) (auto simp: param_part_def)
  ultimately show ?thesis by (simp add: find_route_eq split: option.split)
qed

lemma resolve_perm:
  assumes "mset (map erase_plan rs) = mset (map erase_plan rs')" and "compatible_routes rs"
    and "\<forall>r\<in>set rs. starts_with (CHR ''/'') (rt_path r)"
  shows "erase_resolution (resolve (table_of rs) mth path) =
    erase_resolution (resolve (table_of rs') mth path)"
proof -
  have find: "map_option erase_plan (find_route_for_method (table_of rs) m path) =
      map_option erase_plan (find_route_for_method (table_of rs') m path)" for m
    using assms by (auto simp: find_route_erase intro!: find_route_perm)
  have imgs: "erase_plan ` set rs = erase_plan ` set rs'"
    using mset_eq_setD[OF assms(1)] by simp
  have "set (allowed_methods (table_of rs) path) = set (allowed_methods (table_of rs') path)"
    unfolding allowed_methods_by_image imgs ..
  then have "allowed_methods (table_of rs) path = allowed_methods (table_of rs') path"
    by (simp add: allowed_methods_def sort_remdups_set_eq)
  then show ?thesis
    using find[of mth] find[of "''GET''"]
    by (cases "find_route_for_method (table_of rs) mth path";
        cases "find_route_for_method (table_of rs') mth path";
        cases "find_route_for_method (table_of rs) ''GET'' path";
        cases "find_route_for_method (table_of rs') ''GET'' path")
      (auto simp: resolve_def Let_def)
qed

text \<open>
  C5. Building does not depend on the order in which routes are registered: a permutation of
  the routes is accepted if and only if the routes are, and both tables answer every
  request alike (up to the plan id, which numbers the registrations).
\<close>

theorem from_routes_order_independent:
  assumes "mset routes = mset routes'"
  shows "((\<exists>table. from_routes method_ok routes = Ok table) \<longleftrightarrow>
      (\<exists>table'. from_routes method_ok routes' = Ok table')) \<and>
    (\<forall>table table'. from_routes method_ok routes = Ok table \<longrightarrow>
      from_routes method_ok routes' = Ok table' \<longrightarrow>
      erase_resolution (resolve table mth path) = erase_resolution (resolve table' mth path))"
proof (intro conjI allI impI)
  have perm: "mset (map normal_form routes) = mset (map normal_form routes')"
    using assms by simp
  show "(\<exists>table. from_routes method_ok routes = Ok table) \<longleftrightarrow>
      (\<exists>table'. from_routes method_ok routes' = Ok table')"
    by (simp add: from_routes_Ok_iff Let_def compatible_perm[OF perm]
        route_ok_perm[OF assms, of "route_ok method_ok"])
  fix table table'
  assume built: "from_routes method_ok routes = Ok table" "from_routes method_ok routes' = Ok table'"
  define rs where "rs = numbered 0 (map normal_form routes)"
  define rs' where "rs' = numbered 0 (map normal_form routes')"
  have "map rt_path rs = map rt_path routes"
    unfolding rs_def by (subst numbered_map) simp_all
  then have "rt_path ` set rs = rt_path ` set routes"
    by (metis list.set_map)
  moreover have "\<forall>r\<in>set routes. starts_with (CHR ''/'') (rt_path r)"
    using built(1) by (auto simp: from_routes_Ok_iff route_ok_def well_formed_slash)
  ultimately have slash: "\<forall>r\<in>set rs. starts_with (CHR ''/'') (rt_path r)"
    by (metis imageE imageI)
  have er: "mset (map erase_plan rs) = mset (map erase_plan rs')"
    by (simp add: rs_def rs'_def assms)
  have "table = table_of rs" "table' = table_of rs'" "compatible_routes rs"
    using built by (auto simp: from_routes_Ok_iff Let_def rs_def rs'_def)
  with resolve_perm[OF er _ slash] show
    "erase_resolution (resolve table mth path) = erase_resolution (resolve table' mth path)"
    by simp
qed

text \<open>
  C6. The ambiguity check is exact: two accepted templates are declared overlapping if and
  only if some path matches both.
\<close>

theorem templates_overlap_iff:
  assumes "well_formed_template l" and "is_parameterized l"
    and "well_formed_template r" and "is_parameterized r"
  shows "templates_overlap l r \<longleftrightarrow> (\<exists>path. path_matches l path \<and> path_matches r path)"
proof
  assume ov: "templates_overlap l r"
  obtain l' r' where lr: "l = CHR ''/'' # l'" "r = CHR ''/'' # r'"
    using assms(1,3) well_formed_starts by blast
  have proper: "proper_segments (segments l')" "proper_segments (segments r')"
    using assms well_formed_proper lr by fastforce+
  let ?c = "common_instance (segments l') (segments r')"
  have match: "segments_match (segments l') ?c" "segments_match (segments r') ?c"
    using common_instance_matches[OF proper] ov lr by (auto simp: templates_overlap_seg)
  moreover have "?c \<noteq> []" using match by (cases "segments l'") auto
  ultimately have "path_matches l (CHR ''/'' # join_with (CHR ''/'') ?c)"
    "path_matches r (CHR ''/'' # join_with (CHR ''/'') ?c)"
    using common_instance_no_slash[OF proper] lr by (auto simp: path_matches_slash split_join)
  then show "\<exists>path. path_matches l path \<and> path_matches r path" by blast
next
  assume "\<exists>path. path_matches l path \<and> path_matches r path"
  then show "templates_overlap l r"
    using assms path_matches_overlap well_formed_slash by blast
qed

definition template_params :: "string \<Rightarrow> string list" where
  "template_params pattern =
     map tl (filter (\<lambda>s. is_param_segment s \<or> is_star_segment s) (segments pattern))"

fun fill_segments :: "string list \<Rightarrow> (string \<times> string) list \<Rightarrow> string list" where
  "fill_segments [] values = []"
| "fill_segments (p # ps) values =
     (if is_param_segment p \<or> is_star_segment p
      then (case values of
              [] \<Rightarrow> p # fill_segments ps []
            | (name, v) # rest \<Rightarrow> v # fill_segments ps rest)
      else p # fill_segments ps values)"

lemma fold_join:
  "fold (\<lambda>remaining value. value @ CHR ''/'' # remaining) ss s = join_with (CHR ''/'') (s # ss)"
  by (induction ss arbitrary: s) (auto simp: join_with_head)

lemma fill_extract_segments:
  "segments_match ps ss \<Longrightarrow> \<forall>s\<in>set (butlast ps). \<not> is_star_segment s \<Longrightarrow> ps \<noteq> [] \<Longrightarrow>
     join_with (CHR ''/'') (fill_segments ps (extract_segments ps ss)) = join_with (CHR ''/'') ss"
proof (induction ps ss rule: segments_match.induct)
  case (1 p ps s ss)
  show ?case
  proof (cases "is_star_segment p")
    case True
    with "1.prems" have "ps = []" by (cases ps) auto
    with True show ?thesis by (auto simp: starts_with_iff fold_join)
  next
    case False
    show ?thesis
    proof (cases "ps = []")
      case True
      with False 1 show ?thesis by (cases ss) (auto simp: starts_with_iff split: if_splits)
    next
      case ps: False
      with 1 False have IH: "join_with (CHR ''/'') (fill_segments ps (extract_segments ps ss))
          = join_with (CHR ''/'') ss" and "ss \<noteq> []"
        by (auto split: if_splits elim: segments_match.elims)
      moreover have "fill_segments ps vs \<noteq> []" for vs using ps by (cases ps) (auto split: list.split)
      ultimately show ?thesis
        using 1 False by (cases p) (auto simp: join_with_Cons split: if_splits)
    qed
  qed
qed auto

lemma extract_segments_names:
  "segments_match ps ss \<Longrightarrow> \<forall>s\<in>set (butlast ps). \<not> is_star_segment s \<Longrightarrow>
     map fst (extract_segments ps ss) =
       map tl (filter (\<lambda>s. is_param_segment s \<or> is_star_segment s) ps)"
proof (induction ps ss rule: segments_match.induct)
  case (1 p ps s ss)
  then show ?case by (cases p; cases "ps = []") (auto split: if_splits)
qed auto

lemma extract_segments_nonempty:
  "segments_match ps ss \<Longrightarrow> (name, v) \<in> set (extract_segments ps ss) \<Longrightarrow> v \<noteq> []"
proof (induction ps ss rule: segments_match.induct)
  case (1 p ps s ss)
  then show ?case by (cases p; cases ss) (auto simp: fold_join split: if_splits)
qed auto

lemma check_segments_params:
  "check_segments seen ss = None \<Longrightarrow>
     (let names = map tl (filter (\<lambda>s. is_param_segment s \<or> is_star_segment s) ss)
      in distinct names \<and> list_all is_parameter_name names \<and> set names \<inter> set seen = {})"
proof (induction seen ss rule: check_segments.induct)
  case (2 seen segment rest)
  then show ?case
    by (cases segment) (auto simp: Let_def split: if_splits)
qed simp

text \<open>
  C11. Parameter extraction loses nothing. For a path that matches an accepted template, the
  extracted names are the template's parameters in order, pairwise distinct identifiers, the
  values are non-empty, and filling the values back into the template gives the path.
\<close>

theorem extract_params_round_trip:
  assumes wf: "well_formed_template pattern" and match: "path_matches pattern path"
  shows "map fst (extract_params pattern path) = template_params pattern \<and>
    distinct (template_params pattern) \<and> list_all is_parameter_name (template_params pattern) \<and>
    list_all (\<lambda>(name, v). v \<noteq> []) (extract_params pattern path) \<and>
    join_with (CHR ''/'') (fill_segments (segments pattern) (extract_params pattern path)) = path"
proof (intro conjI)
  obtain rest where p: "pattern = CHR ''/'' # rest" using well_formed_starts[OF wf] by blast
  have check: "check_segments [] (segments rest) = None"
    using wf p by (simp add: well_formed_template_def)
  then have star: "\<forall>s\<in>set (butlast (segments pattern)). \<not> is_star_segment s"
    using check_segments_star_last p by auto
  have m: "segments_match (segments pattern) (segments path)"
    using match by (simp add: path_matches_def)
  show "map fst (extract_params pattern path) = template_params pattern"
    using extract_segments_names[OF m star] by (simp add: extract_params_def template_params_def)
  show "distinct (template_params pattern)" "list_all is_parameter_name (template_params pattern)"
    using check_segments_params[OF check] p by (simp_all add: template_params_def Let_def)
  show "list_all (\<lambda>(name, v). v \<noteq> []) (extract_params pattern path)"
    using extract_segments_nonempty[OF m] by (auto simp: extract_params_def list_all_iff)
  show "join_with (CHR ''/'') (fill_segments (segments pattern) (extract_params pattern path)) = path"
    using fill_extract_segments[OF m star] by (simp add: extract_params_def)
qed

text \<open>
  The table holds every registered route once, normalised, and the counters agree: no
  registration is dropped or replaced by the hash map.
\<close>

theorem from_routes_keeps_every_route:
  assumes "from_routes method_ok routes = Ok table"
  shows "mset (map erase_plan (table_routes table)) = mset (map (erase_plan \<circ> normal_form) routes) \<and>
    route_count table = length routes \<and> stats_total_routes (stats table) = length routes"
proof (intro conjI)
  define rs where "rs = numbered 0 (map normal_form routes)"
  have t: "table = table_of rs"
    using assms by (simp add: from_routes_Ok_iff Let_def rs_def)
  have split: "mset (table_routes table) = mset rs"
    by (simp add: t table_routes_def table_of_def exact_part_def param_part_def comp_def union_commute)
  have er: "map erase_plan rs = map (erase_plan \<circ> normal_form) routes" by (simp add: rs_def)
  have "mset (map erase_plan (table_routes table)) = mset (map erase_plan rs)"
    using split by simp
  then show "mset (map erase_plan (table_routes table)) = mset (map (erase_plan \<circ> normal_form) routes)"
    by (simp only: er)
  have "length (exact_part rs) + length (param_part rs) = length rs"
    using sum_length_filter_compl[of "\<lambda>r. is_parameterized (rt_path r)" rs]
    by (simp add: exact_part_def param_part_def)
  then show "route_count table = length routes" "stats_total_routes (stats table) = length routes"
    by (simp_all add: t route_count_def stats_def table_of_def rs_def)
qed

section \<open>A concrete table\<close>

definition demo_route :: "string \<Rightarrow> string \<Rightarrow> string \<Rightarrow> nat \<Rightarrow> unit RouteInfo" where
  "demo_route m p h i =
     \<lparr>rt_method = m, rt_path = p, rt_payload = (), handler_name = h, route_plan_id = i\<rparr>"

definition demo_routes :: "unit RouteInfo list" where
  "demo_routes =
     [demo_route ''GET'' ''/:group/:id'' ''generic'' 0, demo_route ''GET'' ''/items/:id'' ''items'' 0,
      demo_route ''GET'' ''/items/new'' ''exact'' 0, demo_route ''POST'' ''/items/:id'' ''post'' 0]"

definition token_ok :: "string \<Rightarrow> bool" where
  "token_ok m = list_all is_ascii_alphanumeric m"

definition demo_table :: "unit RouteTable" where
  "demo_table =
     \<lparr>exact_routes = [(''GET:/items/new'', demo_route ''GET'' ''/items/new'' ''exact'' 2)],
      param_routes =
        [demo_route ''GET'' ''/items/:id'' ''items'' 1, demo_route ''POST'' ''/items/:id'' ''post'' 3,
         demo_route ''GET'' ''/:group/:id'' ''generic'' 0],
      exact_count = 1, param_count = 3\<rparr>"

lemmas template_eval = is_ascii_alphanumeric_def is_ascii_alphabetic_def is_parameter_name_def
  well_formed_template_def MAX_ROUTE_TEMPLATE_BYTES_def is_parameterized_def

lemmas demo_eval = template_eval demo_routes_def demo_route_def token_ok_def to_ascii_uppercase_def
  normalized_registration_path_def route_key_def templates_overlap_def literal_segment_count_def
  fixed_segment_count_def has_catch_all_def route_order_key_def

lemmas lookup_eval = demo_table_def demo_route_def resolve_def find_route_for_method_def
  lookup_key_eq_route_key path_matches_def route_key_def

lemma token_ok_no_colon: "token_ok m \<Longrightarrow> CHR '':'' \<notin> set m"
  by (auto simp: token_ok_def list_all_iff is_ascii_alphanumeric_def is_ascii_alphabetic_def)

lemma demo_built: "from_routes token_ok demo_routes = Ok demo_table"
  unfolding from_routes_Ok_iff
  by (simp add: demo_eval sort_key_def demo_table_def route_ok_def normal_form_def
      compatible_routes_def param_part_def exact_part_def ambiguous_def registration_key_def
      table_of_def less_eq_prod_def less_prod_def less_char_def less_eq_char_def)

lemma demo_resolve:
  "resolve demo_table ''GET'' ''/items/42'' = Found (demo_route ''GET'' ''/items/:id'' ''items'' 1)"
  by (simp add: lookup_eval)

lemma demo_members:
  "demo_route ''GET'' ''/:group/:id'' ''generic'' 0 \<in> set (table_routes demo_table)"
  by (simp add: demo_table_def table_routes_def)

theorem resolve_found_best_witness:
  "resolve demo_table ''GET'' ''/items/42'' = Found (demo_route ''GET'' ''/items/:id'' ''items'' 1) \<and>
   precedes (demo_route ''GET'' ''/items/:id'' ''items'' 1)
     (demo_route ''GET'' ''/:group/:id'' ''generic'' 0)"
proof -
  have "precedes (demo_route ''GET'' ''/items/:id'' ''items'' 1)
      (demo_route ''GET'' ''/:group/:id'' ''generic'' 0)"
    using resolve_found_best[OF demo_built token_ok_no_colon _ demo_resolve, THEN conjunct2,
        THEN conjunct2, THEN conjunct2, THEN bspec, OF _ _ demo_members]
    by (simp add: demo_route_def path_matches_def)
  with demo_resolve show ?thesis by simp
qed

theorem resolve_miss_witness:
  "resolve demo_table ''DELETE'' ''/items/42'' = MethodNotAllowed [''GET'', ''HEAD'', ''POST''] \<and>
   resolve demo_table ''DELETE'' ''/items'' = NotFound"
proof -
  note miss = resolve_miss[OF demo_built token_ok_no_colon, of "''DELETE''"]
  have "resolve demo_table ''DELETE'' ''/items'' = NotFound"
    using miss[of "''/items''"]
    by (simp add: demo_table_def demo_route_def table_routes_def path_matches_def)
  moreover have "resolve demo_table ''DELETE'' ''/items/42'' = MethodNotAllowed [''GET'', ''HEAD'', ''POST'']"
    by (simp add: lookup_eval allowed_methods_def table_routes_def is_parameterized_def sort_key_def
        less_char_def less_eq_char_def Let_def del: One_nat_def)
  ultimately show ?thesis by simp
qed

theorem from_routes_order_independent_witness:
  "\<exists>table'. from_routes token_ok (rev demo_routes) = Ok table' \<and>
     erase_resolution (resolve table' ''GET'' ''/items/42'') =
       Found (demo_route ''GET'' ''/items/:id'' ''items'' 0)"
proof -
  have perm: "mset demo_routes = mset (rev demo_routes)" by simp
  note indep = from_routes_order_independent[OF perm, of token_ok "''GET''" "''/items/42''"]
  obtain table' where "from_routes token_ok (rev demo_routes) = Ok table'"
    using indep demo_built by blast
  with indep demo_built demo_resolve show ?thesis by (auto simp: erase_plan_def demo_route_def)
qed

theorem templates_overlap_iff_witness:
  "templates_overlap ''/a/:x'' ''/:y/b'' \<and>
   (\<exists>path. path_matches ''/a/:x'' path \<and> path_matches ''/:y/b'' path)"
proof -
  have "templates_overlap ''/a/:x'' ''/:y/b''" by (simp add: templates_overlap_def)
  with templates_overlap_iff[of "''/a/:x''" "''/:y/b''"] show ?thesis
    by (simp add: template_eval)
qed

theorem extract_params_round_trip_witness:
  "extract_params ''/assets/*path'' ''/assets/a/b'' = [(''path'', ''a/b'')] \<and>
   join_with (CHR ''/'') (fill_segments (segments ''/assets/*path'')
     (extract_params ''/assets/*path'' ''/assets/a/b'')) = ''/assets/a/b''"
proof (rule conjI)
  show "extract_params ''/assets/*path'' ''/assets/a/b'' = [(''path'', ''a/b'')]"
    by (simp add: extract_params_def)
  have "well_formed_template ''/assets/*path''" by (simp add: template_eval)
  moreover have "path_matches ''/assets/*path'' ''/assets/a/b''" by (simp add: path_matches_def)
  ultimately show "join_with (CHR ''/'') (fill_segments (segments ''/assets/*path'')
     (extract_params ''/assets/*path'' ''/assets/a/b'')) = ''/assets/a/b''"
    using extract_params_round_trip by blast
qed

theorem from_routes_keeps_every_route_witness:
  "from_routes token_ok demo_routes = Ok demo_table \<and> route_count demo_table = length demo_routes"
  using demo_built from_routes_keeps_every_route[OF demo_built] by simp

end
