(* ===== verification/Injection_Error.thy ===== *)
theory Injection_Error
  imports Lily_Prelude
begin

text \<open>
  The errors of the dependency-injection layer: \<^verbatim>\<open>lily_error/src/injection/injection_error.rs\<close>,
  the broker errors it wraps (\<^verbatim>\<open>lily_error/src/application/message_broker\<close>) and the stable
  codes of \<^verbatim>\<open>lily_injection/src/storage/resolution_trace.rs\<close>. A \<open>TypeId\<close> is a number. The
  display texts are not modelled.
\<close>

section \<open>Broker errors\<close>

datatype RabbitMqTlsErrorKind =
    AdditionalCaUnavailable | AdditionalCaNotRegularFile | AdditionalCaEmpty
  | AdditionalCaTooLarge | AdditionalCaInvalid
  | ClientCertificateUnavailable | ClientCertificateNotRegularFile | ClientCertificateEmpty
  | ClientCertificateTooLarge | ClientCertificateInvalid
  | ClientPrivateKeyUnavailable | ClientPrivateKeyNotRegularFile | ClientPrivateKeyEmpty
  | ClientPrivateKeyTooLarge | ClientPrivateKeyInvalid
  | ClientIdentityRejected | UnsupportedProtocolVersions

datatype RabbitMqConsumerTaskRole = Receiver | Dispatcher | Supervisor

datatype RabbitMqConsumerTaskFailureKind =
  UnexpectedExit | TaskPanicked | TaskCancelled | OperationFailed

datatype RabbitMqTopologyResourceKind = Exchange | QueueResource | Binding | Plan

datatype RabbitMqTopologyOperation = Declare | Verify | Bind | Publish

datatype RabbitMqTopologyErrorKind =
  DeclarationMismatch | PermissionDenied | PassiveResourceNotFound | NotReady

record RabbitMqTopologyError =
  topology_kind :: RabbitMqTopologyErrorKind
  topology_operation :: RabbitMqTopologyOperation
  resource_kind :: RabbitMqTopologyResourceKind
  resource_name :: string

record RabbitMqConsumerTaskFailure =
  task_queue :: string
  task_role :: RabbitMqConsumerTaskRole
  task_kind :: RabbitMqConsumerTaskFailureKind
  operation_error_code :: "string option"

datatype RabbitMQError =
    BrokerGeneral string
  | Io string
  | Lapin string
  | Tls RabbitMqTlsErrorKind
  | Configuration string
  | Topology RabbitMqTopologyError
  | NotInitialized
  | BrokerCancelled
  | Timeout string
  | PublisherNack
  | PublisherConfirmNotRequested
  | Unroutable string
  | InvalidMessage string
  | QueueSettlement string
  | ConsumerTaskFailed RabbitMqConsumerTaskFailure

datatype MessageBrokerError = RabbitMQError RabbitMQError

fun topology_error_code :: "RabbitMqTopologyErrorKind \<Rightarrow> string" where
  "topology_error_code DeclarationMismatch = ''BROKER_TOPOLOGY_MISMATCH''"
| "topology_error_code PermissionDenied = ''BROKER_TOPOLOGY_PERMISSION''"
| "topology_error_code PassiveResourceNotFound = ''BROKER_TOPOLOGY_NOT_FOUND''"
| "topology_error_code NotReady = ''BROKER_TOPOLOGY_NOT_READY''"

fun rabbitmq_error_code :: "RabbitMQError \<Rightarrow> string" where
  "rabbitmq_error_code (BrokerGeneral _) = ''BROKER_GENERAL''"
| "rabbitmq_error_code (Io _) = ''BROKER_IO''"
| "rabbitmq_error_code (Lapin _) = ''BROKER_TRANSPORT''"
| "rabbitmq_error_code (Tls _) = ''BROKER_TLS''"
| "rabbitmq_error_code (Configuration _) = ''BROKER_CONFIGURATION''"
| "rabbitmq_error_code (Topology e) = topology_error_code (topology_kind e)"
| "rabbitmq_error_code NotInitialized = ''BROKER_NOT_INITIALIZED''"
| "rabbitmq_error_code BrokerCancelled = ''BROKER_CANCELLED''"
| "rabbitmq_error_code (Timeout _) = ''BROKER_TIMEOUT''"
| "rabbitmq_error_code PublisherNack = ''BROKER_NACK''"
| "rabbitmq_error_code PublisherConfirmNotRequested = ''BROKER_CONFIRM_NOT_REQUESTED''"
| "rabbitmq_error_code (Unroutable _) = ''BROKER_UNROUTABLE''"
| "rabbitmq_error_code (InvalidMessage _) = ''BROKER_INVALID_MESSAGE''"
| "rabbitmq_error_code (QueueSettlement code) = code"
| "rabbitmq_error_code (ConsumerTaskFailed _) = ''BROKER_CONSUMER_TASK_FAILED''"

fun broker_error_code :: "MessageBrokerError \<Rightarrow> string" where
  "broker_error_code (RabbitMQError e) = rabbitmq_error_code e"

section \<open>Injection errors\<close>

type_synonym TypeId = nat

datatype ShutdownOutcomeStatus = Completed | Failed | Panicked | TimedOut | Cancelled

record ShutdownOutcome =
  component :: string
  outcome_status :: ShutdownOutcomeStatus
  detail :: "string option"

definition outcome_completed :: "string \<Rightarrow> ShutdownOutcome" where
  "outcome_completed name = \<lparr>component = name, outcome_status = Completed, detail = None\<rparr>"

definition outcome_with_detail :: "string \<Rightarrow> ShutdownOutcomeStatus \<Rightarrow> string \<Rightarrow> ShutdownOutcome" where
  "outcome_with_detail name status text =
     \<lparr>component = name, outcome_status = status, detail = Some text\<rparr>"

record ShutdownRemainingWork =
  active_scopes :: nat
  cleanup_tasks :: nat
  active_resolutions :: nat
  root_lifecycle_entries :: nat

datatype InjectionError =
    InitError string
  | DisposeError string
  | DisposalPanicked string string
  | NewError string
  | General string
  | MessageBroker MessageBrokerError
  | ServiceNotFound string
  | ServiceResolutionFailed string
  | DependencyResolutionFailed string string InjectionError
  | MissingDependency string TypeId
  | CircularDependency "string list"
  | LifetimeMismatch string string string string
  | AmbiguousRegistration TypeId "string list"
  | DuplicateInterfaceBinding TypeId string "string list"
  | InvalidRegistrationPlan string
  | RuntimeUnavailable string
  | ContainerClosing
  | ContainerClosed
  | ScopeAlreadyActive string
  | ScopeClosed string
  | ScopeCleanupTimedOut string
  | ScopeRequired string
  | ServiceInitializationFailed string InjectionError
  | InitializationCleanupFailed string InjectionError InjectionError
  | StartupRollbackFailed InjectionError "string list" "ShutdownOutcome list" "ShutdownRemainingWork option"
  | ShutdownTimedOut u64 nat
  | ShutdownFailed "string list" "ShutdownOutcome list" "ShutdownRemainingWork option"

fun message_broker_error :: "InjectionError \<Rightarrow> MessageBrokerError option" where
  "message_broker_error (MessageBroker e) = Some e"
| "message_broker_error (DependencyResolutionFailed _ _ source) = message_broker_error source"
| "message_broker_error (ServiceInitializationFailed _ source) = message_broker_error source"
| "message_broker_error (InitializationCleanupFailed _ initialization _) =
     message_broker_error initialization"
| "message_broker_error (StartupRollbackFailed startup _ _ _) = message_broker_error startup"
| "message_broker_error _ = None"

text \<open>\<open>Error::source\<close> returns a trait object: here, one of the two error types behind it.\<close>

datatype dyn_error = InjectionSource InjectionError | BrokerSource MessageBrokerError

fun error_source :: "InjectionError \<Rightarrow> dyn_error option" where
  "error_source (DependencyResolutionFailed _ _ source) = Some (InjectionSource source)"
| "error_source (ServiceInitializationFailed _ source) = Some (InjectionSource source)"
| "error_source (InitializationCleanupFailed _ initialization _) = Some (InjectionSource initialization)"
| "error_source (StartupRollbackFailed startup _ _ _) = Some (InjectionSource startup)"
| "error_source (MessageBroker e) = Some (BrokerSource e)"
| "error_source _ = None"

fun error_code :: "InjectionError \<Rightarrow> string" where
  "error_code (InitError _) = ''di.init_failed''"
| "error_code (DisposeError _) = ''di.dispose_failed''"
| "error_code (DisposalPanicked _ _) = ''di.disposal_panicked''"
| "error_code (NewError _) = ''di.construction_failed''"
| "error_code (General _) = ''di.operation_failed''"
| "error_code (MessageBroker _) = ''di.message_broker_failed''"
| "error_code (ServiceNotFound _) = ''di.service_not_found''"
| "error_code (ServiceResolutionFailed _) = ''di.resolution_failed''"
| "error_code (DependencyResolutionFailed _ _ _) = ''di.dependency_resolution_failed''"
| "error_code (MissingDependency _ _) = ''di.missing_dependency''"
| "error_code (CircularDependency _) = ''di.circular_dependency''"
| "error_code (LifetimeMismatch _ _ _ _) = ''di.lifetime_mismatch''"
| "error_code (AmbiguousRegistration _ _) = ''di.ambiguous_registration''"
| "error_code (DuplicateInterfaceBinding _ _ _) = ''di.duplicate_interface_binding''"
| "error_code (InvalidRegistrationPlan _) = ''di.invalid_registration_plan''"
| "error_code (RuntimeUnavailable _) = ''di.runtime_unavailable''"
| "error_code ContainerClosing = ''di.container_closing''"
| "error_code ContainerClosed = ''di.container_closed''"
| "error_code (ScopeAlreadyActive _) = ''di.scope_already_active''"
| "error_code (ScopeClosed _) = ''di.scope_closed''"
| "error_code (ScopeCleanupTimedOut _) = ''di.scope_cleanup_timed_out''"
| "error_code (ScopeRequired _) = ''di.scope_required''"
| "error_code (ServiceInitializationFailed _ _) = ''di.service_initialization_failed''"
| "error_code (InitializationCleanupFailed _ _ _) = ''di.initialization_cleanup_failed''"
| "error_code (StartupRollbackFailed _ _ _ _) = ''di.startup_rollback_failed''"
| "error_code (ShutdownTimedOut _ _) = ''di.shutdown_timed_out''"
| "error_code (ShutdownFailed _ _ _) = ''di.shutdown_failed''"

text \<open>The accessor finds what following \<open>Error::source\<close> to its end would find.\<close>

lemma message_broker_error_source:
  "message_broker_error e =
     (case error_source e of
        None \<Rightarrow> None
      | Some (BrokerSource b) \<Rightarrow> Some b
      | Some (InjectionSource e') \<Rightarrow> message_broker_error e')"
  by (cases e) auto

end
