(* ===== verification/Service_Graph.thy ===== *)
theory Service_Graph
  imports Injection_Error "HOL-Library.While_Combinator"
begin

text \<open>
  The dependency-injection registry: \<^verbatim>\<open>lily_injection_registry/src/lib.rs\<close>
  (\<open>validate_service_route_metadata\<close>, \<open>analyze_service_graph\<close> with its depth-first cycle
  search and Kahn's topological order), \<^verbatim>\<open>lifetime_validation.rs\<close> and the registration
  plan of \<^verbatim>\<open>lily_injection/src/storage/registration_plan.rs\<close>.

  A \<open>TypeId\<close> is a number. The factory, projection and disposer functions of the metadata
  are carried by the plan and never called during validation, so they are left out of the
  records. The link-time slices are the arguments of \<open>discover\<close>.
\<close>

section \<open>Metadata\<close>

datatype ServiceLifetime = Singleton | Scoped | Transient

record ServiceMetadata =
  type_id :: TypeId
  type_name :: string
  trait_type_id :: "TypeId option"
  trait_name :: "string option"
  lifetime :: ServiceLifetime
  dependencies :: "TypeId list"

datatype ServiceRouteKind = Concrete | Interface

record ServiceRouteMetadata =
  requested_type_id :: TypeId
  requested_type_name :: string
  implementation_type_id :: TypeId
  implementation_type_name :: string
  route_kind :: ServiceRouteKind

text \<open>\<open>{:?}\<close> of a lifetime.\<close>

fun lifetime_debug :: "ServiceLifetime \<Rightarrow> string" where
  "lifetime_debug Singleton = ''Singleton''"
| "lifetime_debug Scoped = ''Scoped''"
| "lifetime_debug Transient = ''Transient''"

text \<open>\<open>sort(); dedup()\<close> on the two names of a conflict.\<close>

definition conflicting_names :: "string \<Rightarrow> string \<Rightarrow> string list" where
  "conflicting_names a b = remdups_adj (sort [a, b])"

fun validate_lifetime_compatibility :: "ServiceLifetime \<Rightarrow> ServiceLifetime \<Rightarrow> (string, unit) result"
where
  "validate_lifetime_compatibility Singleton Singleton = Ok ()"
| "validate_lifetime_compatibility Singleton Transient = Ok ()"
| "validate_lifetime_compatibility Scoped Singleton = Ok ()"
| "validate_lifetime_compatibility Scoped Scoped = Ok ()"
| "validate_lifetime_compatibility Scoped Transient = Ok ()"
| "validate_lifetime_compatibility Transient Singleton = Ok ()"
| "validate_lifetime_compatibility Transient Scoped = Ok ()"
| "validate_lifetime_compatibility Transient Transient = Ok ()"
| "validate_lifetime_compatibility Singleton Scoped =
     Err ''Singleton service cannot depend on Scoped service. Use factory pattern or make dependency Singleton.''"

section \<open>Resolution routes\<close>

fun validate_routes_loop ::
  "(TypeId, ServiceRouteMetadata) hashmap \<Rightarrow> ServiceRouteMetadata list \<Rightarrow> (InjectionError, unit) result"
where
  "validate_routes_loop registrations [] = Ok ()"
| "validate_routes_loop registrations (route # rest) =
     (case hm_get registrations (requested_type_id route) of
        Some existing \<Rightarrow>
          let implementations = conflicting_names (implementation_type_name existing)
                (implementation_type_name route)
          in if route_kind existing = Interface \<and> route_kind route = Interface
             then Err (DuplicateInterfaceBinding (requested_type_id route)
                    (requested_type_name route) implementations)
             else Err (AmbiguousRegistration (requested_type_id route) implementations)
      | None \<Rightarrow>
          validate_routes_loop (hm_insert (requested_type_id route) route registrations) rest)"

definition validate_service_route_metadata ::
  "ServiceRouteMetadata list \<Rightarrow> (InjectionError, unit) result" where
  "validate_service_route_metadata routes = validate_routes_loop [] routes"

section \<open>The dependency graph\<close>

text \<open>Node \<open>i\<close> is the i-th service; \<open>g ! i\<close> lists the services it depends on.\<close>

type_synonym graph = "nat list list"

definition register_resolvable_type ::
  "(TypeId, nat) hashmap \<Rightarrow> ServiceMetadata list \<Rightarrow> TypeId \<Rightarrow> nat
     \<Rightarrow> (InjectionError, (TypeId, nat) hashmap) result" where
  "register_resolvable_type registrations metadata tid service_index =
     (case hm_get registrations tid of
        Some existing_index \<Rightarrow>
          Err (AmbiguousRegistration tid
            (conflicting_names (type_name (metadata ! existing_index))
               (type_name (metadata ! service_index))))
      | None \<Rightarrow> Ok (hm_insert tid service_index registrations))"

text \<open>The loop over the concrete ids, then the loop over the trait aliases.\<close>

fun register_concrete ::
  "(TypeId, nat) hashmap \<Rightarrow> ServiceMetadata list \<Rightarrow> nat list
     \<Rightarrow> (InjectionError, (TypeId, nat) hashmap) result" where
  "register_concrete registrations metadata [] = Ok registrations"
| "register_concrete registrations metadata (index # rest) =
     and_then (register_resolvable_type registrations metadata (type_id (metadata ! index)) index)
       (\<lambda>registrations'. register_concrete registrations' metadata rest)"

fun register_aliases ::
  "(TypeId, nat) hashmap \<Rightarrow> ServiceMetadata list \<Rightarrow> nat list
     \<Rightarrow> (InjectionError, (TypeId, nat) hashmap) result" where
  "register_aliases registrations metadata [] = Ok registrations"
| "register_aliases registrations metadata (index # rest) =
     (case trait_type_id (metadata ! index) of
        None \<Rightarrow> register_aliases registrations metadata rest
      | Some alias \<Rightarrow>
          and_then (register_resolvable_type registrations metadata alias index)
            (\<lambda>registrations'. register_aliases registrations' metadata rest))"

text \<open>The edges of one service: duplicate injected types count once.\<close>

fun service_edges ::
  "(TypeId, nat) hashmap \<Rightarrow> ServiceMetadata list \<Rightarrow> ServiceMetadata \<Rightarrow> TypeId list \<Rightarrow> nat list
     \<Rightarrow> (InjectionError, nat list) result" where
  "service_edges registrations metadata service [] edges = Ok edges"
| "service_edges registrations metadata service (dep # rest) edges =
     (case hm_get registrations dep of
        None \<Rightarrow> Err (MissingDependency (type_name service) dep)
      | Some dependency_index \<Rightarrow>
          let dependency = metadata ! dependency_index
          in (case validate_lifetime_compatibility (lifetime service) (lifetime dependency) of
                Inl _ \<Rightarrow> Err (LifetimeMismatch (type_name service) (lifetime_debug (lifetime service))
                               (type_name dependency) (lifetime_debug (lifetime dependency)))
              | Inr _ \<Rightarrow>
                  service_edges registrations metadata service rest
                    (if dependency_index \<in> set edges then edges else edges @ [dependency_index])))"

fun graph_edges ::
  "(TypeId, nat) hashmap \<Rightarrow> ServiceMetadata list \<Rightarrow> ServiceMetadata list
     \<Rightarrow> (InjectionError, graph) result" where
  "graph_edges registrations metadata [] = Ok []"
| "graph_edges registrations metadata (service # rest) =
     and_then (service_edges registrations metadata service (dependencies service) []) (\<lambda>edges.
     and_then (graph_edges registrations metadata rest) (\<lambda>g. Ok (edges # g)))"

section \<open>Depth-first cycle search\<close>

text \<open>
  A visit returns the cycle it found, or the states and the stack it leaves behind. States:
  0 not visited, 1 on the stack, 2 finished. The recursive visit of an unvisited dependency
  (mark, push, loop over its dependencies, pop, finish) is written inside the loop, so
  that one recursion covers both; \<open>visit\<close> is that body for the outer loop. The graph
  built by the analysis has every index in range.
\<close>

datatype visit_result = Cycle "nat list" | Clear "nat list" "nat list"

definition unvisited :: "nat list \<Rightarrow> nat" where
  "unvisited states = length (filter (\<lambda>s. s = 0) states)"

fun position_or_zero :: "nat \<Rightarrow> nat list \<Rightarrow> nat" where
  "position_or_zero x xs = (if x \<in> set xs then length (takeWhile (\<lambda>y. y \<noteq> x) xs) else 0)"

fun leave :: "nat \<Rightarrow> visit_result \<Rightarrow> visit_result" where
  "leave node (Cycle c) = Cycle c"
| "leave node (Clear states stack) = Clear (states[node := 2]) (butlast stack)"

lemma unvisited_mark: "i < length st \<Longrightarrow> st ! i = 0 \<Longrightarrow> k \<noteq> 0 \<Longrightarrow> unvisited (st[i := k]) < unvisited st"
proof (induction st arbitrary: i)
  case (Cons a st)
  then show ?case by (cases i) (auto simp: unvisited_def)
qed simp

lemma unvisited_update_le: "k \<noteq> 0 \<Longrightarrow> unvisited (st[i := k]) \<le> unvisited st"
proof (induction st arbitrary: i)
  case (Cons a st)
  then show ?case by (cases i) (auto simp: unvisited_def le_SucI)
qed (simp add: unvisited_def)

function visit_dependencies ::
  "graph \<Rightarrow> nat list \<Rightarrow> nat list \<Rightarrow> nat list \<Rightarrow> visit_result" where
  "visit_dependencies g [] states stack = Clear states stack"
| "visit_dependencies g (dep # rest) states stack =
     (if dep < length states \<and> states ! dep = 0 then
        (case leave dep (visit_dependencies g (g ! dep) (states[dep := 1]) (stack @ [dep])) of
           Cycle c \<Rightarrow> Cycle c
         | Clear states' stack' \<Rightarrow> visit_dependencies g rest states' stack')
      else if dep < length states \<and> states ! dep = 1 then
        Cycle (drop (position_or_zero dep stack) stack)
      else visit_dependencies g rest states stack)"
  by pat_completeness auto

lemma leave_Clear:
  "leave node r = Clear st sk \<longleftrightarrow>
     (\<exists>st' sk'. r = Clear st' sk' \<and> st = st'[node := 2] \<and> sk = butlast sk')"
  by (cases r) auto

lemma visit_unvisited_le:
  "visit_dependencies_dom (g, deps, states, stack) \<Longrightarrow>
   visit_dependencies g deps states stack = Clear states' stack' \<Longrightarrow> unvisited states' \<le> unvisited states"
proof (induction g deps states stack arbitrary: states' stack' rule: visit_dependencies.pinduct)
  case (1 g states stack)
  then show ?case by (simp add: visit_dependencies.psimps)
next
  case (2 g dep rest states stack)
  show ?case
  proof (cases "dep < length states \<and> states ! dep = 0")
    case True
    with 2 obtain st sk where st: "visit_dependencies g (g ! dep) (states[dep := 1]) (stack @ [dep]) = Clear st sk"
      and rest: "visit_dependencies g rest (st[dep := 2]) (butlast sk) = Clear states' stack'"
      by (auto simp: visit_dependencies.psimps leave_Clear split: visit_result.splits)
    have "unvisited states' \<le> unvisited (st[dep := 2])"
      using "2.IH"(2)[OF True] st rest by simp
    also have "\<dots> \<le> unvisited st" by (simp add: unvisited_update_le)
    also have "\<dots> \<le> unvisited (states[dep := 1])" using "2.IH"(1)[OF True st] .
    also have "\<dots> \<le> unvisited states" by (simp add: unvisited_update_le)
    finally show ?thesis .
  next
    case False
    with 2 show ?thesis by (auto simp: visit_dependencies.psimps split: if_splits)
  qed
qed

termination visit_dependencies
proof (relation "measures [\<lambda>(g, deps, states, stack). unvisited states,
    \<lambda>(g, deps, states, stack). length deps]", goal_cases)
  case (2 g dep rest states stack)
  then show ?case using unvisited_mark[of dep states 1] by simp
next
  case (3 g dep rest states stack st sk)
  then obtain st' sk' where st': "visit_dependencies g (g ! dep) (states[dep := 1]) (stack @ [dep]) = Clear st' sk'"
    and "st = st'[dep := 2]"
    by (auto simp: leave_Clear)
  then have "unvisited st \<le> unvisited (states[dep := 1])"
    using visit_unvisited_le[OF 3(3) st'] unvisited_update_le[of 2 st' dep] by simp
  also have "\<dots> < unvisited states" using 3 unvisited_mark[of dep states 1] by simp
  finally show ?case by simp
qed auto

definition visit :: "nat \<Rightarrow> graph \<Rightarrow> nat list \<Rightarrow> nat list \<Rightarrow> visit_result" where
  "visit current g states stack =
     leave current (visit_dependencies g (g ! current) (states[current := 1]) (stack @ [current]))"

text \<open>The outer loop over all nodes.\<close>

fun search_cycles :: "graph \<Rightarrow> nat list \<Rightarrow> nat list \<Rightarrow> nat list \<Rightarrow> nat list option" where
  "search_cycles g [] states stack = None"
| "search_cycles g (index # rest) states stack =
     (if states ! index = 0 then
        (case visit index g states stack of
           Cycle c \<Rightarrow> Some c
         | Clear states' stack' \<Rightarrow> search_cycles g rest states' stack')
      else search_cycles g rest states stack)"

definition find_dependency_cycle :: "graph \<Rightarrow> nat list option" where
  "find_dependency_cycle g = search_cycles g [0..<length g] (replicate (length g) 0) []"

section \<open>Kahn's algorithm\<close>

text \<open>The inner loop over \<open>reverse_graph[dependency]\<close> while the graph is reversed.\<close>

definition reverse_edges :: "graph \<Rightarrow> graph" where
  "reverse_edges g = fold
     (\<lambda>service_index reverse.
        fold (\<lambda>dependency_index reverse.
               reverse[dependency_index := reverse ! dependency_index @ [service_index]])
          (g ! service_index) reverse)
     [0..<length g] (replicate (length g) [])"

record kahn_state =
  kahn_queue :: "nat list"
  in_degree :: "nat list"
  topological_order :: "nat list"

text \<open>The loop over the dependents of the node just ordered.\<close>

fun release_dependents :: "nat list \<Rightarrow> kahn_state \<Rightarrow> kahn_state" where
  "release_dependents [] st = st"
| "release_dependents (dependent # rest) st =
     (let degree = in_degree st ! dependent - 1;
          st = st\<lparr>in_degree := (in_degree st)[dependent := degree]\<rparr>
      in release_dependents rest
           (if degree = 0 then st\<lparr>kahn_queue := kahn_queue st @ [dependent]\<rparr> else st))"

definition kahn_step :: "graph \<Rightarrow> kahn_state \<Rightarrow> kahn_state" where
  "kahn_step reverse st =
     (let current = hd (kahn_queue st)
      in release_dependents (reverse ! current)
           (st\<lparr>kahn_queue := tl (kahn_queue st),
               topological_order := topological_order st @ [current]\<rparr>))"

definition kahn_init :: "graph \<Rightarrow> kahn_state" where
  "kahn_init g = \<lparr>kahn_queue = filter (\<lambda>i. length (g ! i) = 0) [0..<length g],
     in_degree = map length g, topological_order = []\<rparr>"

definition kahn :: "graph \<Rightarrow> nat list" where
  "kahn g = topological_order
     (while (\<lambda>st. kahn_queue st \<noteq> []) (kahn_step (reverse_edges g)) (kahn_init g))"

section \<open>The analysis\<close>

definition close_cycle :: "string list \<Rightarrow> string list" where
  "close_cycle names = (case names of [] \<Rightarrow> [] | first # _ \<Rightarrow> names @ [first])"

definition analyze_service_graph ::
  "ServiceMetadata list \<Rightarrow> (InjectionError, TypeId list) result" where
  "analyze_service_graph metadata =
     (if metadata = [] then Ok []
      else
        and_then (register_concrete [] metadata [0..<length metadata]) (\<lambda>registrations.
        and_then (register_aliases registrations metadata [0..<length metadata]) (\<lambda>registrations.
        and_then (graph_edges registrations metadata metadata) (\<lambda>g.
        case find_dependency_cycle g of
          Some cycle \<Rightarrow>
            Err (CircularDependency (close_cycle (map (\<lambda>index. type_name (metadata ! index)) cycle)))
        | None \<Rightarrow>
            Ok (map (\<lambda>index. type_id (metadata ! index))
              (filter (\<lambda>index. lifetime (metadata ! index) = Singleton) (kahn g)))))))"

section \<open>Correctness of the cycle search\<close>

definition edges :: "graph \<Rightarrow> (nat \<times> nat) set" where
  "edges g = {(u, v). u < length g \<and> v \<in> set (g ! u)}"

definition wf_graph :: "graph \<Rightarrow> bool" where
  "wf_graph g \<longleftrightarrow> (\<forall>u < length g. distinct (g ! u) \<and> (\<forall>v\<in>set (g ! u). v < length g))"

definition black :: "nat list \<Rightarrow> nat set" where
  "black states = {v. v < length states \<and> states ! v = 2}"

definition grey :: "nat list \<Rightarrow> nat set" where
  "grey states = {v. v < length states \<and> states ! v = 1}"

text \<open>
  Finished nodes are closed under dependencies and lie on no cycle; every state is
  0, 1 or 2.
\<close>

definition dfs_inv :: "graph \<Rightarrow> nat list \<Rightarrow> bool" where
  "dfs_inv g states \<longleftrightarrow> length states = length g \<and> (\<forall>s\<in>set states. s \<le> 2) \<and>
     (\<forall>v\<in>black states. set (g ! v) \<subseteq> black states \<and> (v, v) \<notin> (edges g)\<^sup>+)"

lemma color_update:
  assumes "d < length st"
  shows "black (st[d := 2]) = insert d (black st)" "grey (st[d := 2]) = grey st - {d}"
    and "st ! d = 0 \<Longrightarrow> black (st[d := 1]) = black st"
    and "grey (st[d := 1]) = insert d (grey st)"
  using assms by (auto simp: black_def grey_def nth_list_update split: if_splits)

lemmas color_simps = color_update color_update(3,4)[unfolded One_nat_def]

lemma grey_not_black: "v \<in> grey st \<Longrightarrow> v \<notin> black st"
  by (auto simp: grey_def black_def)

lemma black_closed_rtrancl:
  assumes "(u, v) \<in> (edges g)\<^sup>*" and "u \<in> B" and "\<forall>x\<in>B. set (g ! x) \<subseteq> B"
  shows "v \<in> B"
  using assms by (induction rule: rtrancl_induct) (auto simp: edges_def)

lemma dfs_inv_mark: "dfs_inv g st \<Longrightarrow> d < length g \<Longrightarrow> st ! d = 0 \<Longrightarrow> dfs_inv g (st[d := 1])"
  by (auto simp: dfs_inv_def color_simps
      dest: set_update_subset_insert[THEN subsetD])

lemma dfs_inv_finish:
  assumes inv: "dfs_inv g st" and d: "d \<in> grey st" and deps: "set (g ! d) \<subseteq> black st"
  shows "dfs_inv g (st[d := 2])"
proof -
  have len: "d < length st" using d by (simp add: grey_def)
  have "(d, d) \<notin> (edges g)\<^sup>+"
  proof
    assume "(d, d) \<in> (edges g)\<^sup>+"
    then obtain w where "(d, w) \<in> edges g" and w: "(w, d) \<in> (edges g)\<^sup>*"
      by (meson tranclD)
    then have "w \<in> black st" using deps by (auto simp: edges_def)
    then have "d \<in> black st"
      using black_closed_rtrancl[OF w, of "black st"] inv by (auto simp: dfs_inv_def)
    with d show False by (simp add: grey_not_black)
  qed
  then show ?thesis
    using inv deps len
    by (auto simp: dfs_inv_def color_simps dest: set_update_subset_insert[THEN subsetD])
qed

lemma visit_Clear:
  assumes "visit_dependencies g deps st sk = Clear st' sk'" and "wf_graph g" and "dfs_inv g st"
    and "\<forall>d\<in>set deps. d < length g"
  shows "sk' = sk \<and> dfs_inv g st' \<and> grey st' = grey st \<and> black st \<subseteq> black st' \<and> set deps \<subseteq> black st'"
  using assms
proof (induction g deps st sk arbitrary: st' sk' rule: visit_dependencies.induct)
  case (1 g st sk)
  then show ?case by simp
next
  case (2 g d rest st sk)
  have d: "d < length st" "d < length g" using "2.prems"(3,4) by (auto simp: dfs_inv_def)
  show ?case
  proof (cases "st ! d = 0")
    case True
    then obtain st2 sk2 where
      inner: "visit_dependencies g (g ! d) (st[d := 1]) (sk @ [d]) = Clear st2 sk2" and
      outer: "visit_dependencies g rest (st2[d := 2]) (butlast sk2) = Clear st' sk'"
      using "2.prems" d by (auto simp: leave_Clear split: visit_result.splits)
    have inv1: "dfs_inv g (st[d := 1])" using "2.prems" d True by (blast intro: dfs_inv_mark)
    have IH1: "sk2 = sk @ [d]" "dfs_inv g st2" "grey st2 = insert d (grey st)"
      "black st \<subseteq> black st2" "set (g ! d) \<subseteq> black st2"
      using "2.IH"(1)[OF conjI[OF d(1) True] inner "2.prems"(2) inv1] "2.prems"(2) d True
      by (auto simp: wf_graph_def color_simps)
    have dg: "d \<in> grey st2" using IH1 by simp
    then have len2: "d < length st2" by (simp add: grey_def)
    have "d \<notin> grey st" using True by (simp add: grey_def)
    then have step: "dfs_inv g (st2[d := 2])" "grey (st2[d := 2]) = grey st"
      "black st \<subseteq> black (st2[d := 2])" "d \<in> black (st2[d := 2])"
      using dfs_inv_finish[OF IH1(2) dg IH1(5)] IH1 len2 by (auto simp: color_simps)
    have "sk' = butlast sk2 \<and> dfs_inv g st' \<and> grey st' = grey (st2[d := 2]) \<and>
        black (st2[d := 2]) \<subseteq> black st' \<and> set rest \<subseteq> black st'"
      using "2.IH"(2)[OF conjI[OF d(1) True], of "st2[d := 2]" "butlast sk2"] inner outer step "2.prems"
      by simp
    with step IH1 show ?thesis by auto
  next
    case False
    have "st ! d \<le> 2" using "2.prems"(3) d by (simp add: dfs_inv_def)
    moreover have "st ! d \<noteq> 1" using "2.prems"(1) d False by (auto split: if_splits)
    ultimately have two: "d \<in> black st" "\<not> (d < length st \<and> st ! d = 0)"
      "\<not> (d < length st \<and> st ! d = 1)"
      using False d by (auto simp: black_def)
    then have "visit_dependencies g rest st sk = Clear st' sk'" using "2.prems"(1) d by simp
    from "2.IH"(3)[OF two(2,3) this "2.prems"(2,3)] two "2.prems"(4) show ?thesis by auto
  qed
qed

definition is_cycle :: "graph \<Rightarrow> nat list \<Rightarrow> bool" where
  "is_cycle g c \<longleftrightarrow> c \<noteq> [] \<and> distinct c \<and> (\<forall>v\<in>set c. v < length g) \<and>
     successively (\<lambda>u v. (u, v) \<in> edges g) c \<and> (last c, hd c) \<in> edges g"

lemma successively_drop: "successively P xs \<Longrightarrow> successively P (drop n xs)"
  by (metis append_take_drop_id successively_append_iff)

lemma position_drop: "x \<in> set xs \<Longrightarrow> drop (position_or_zero x xs) xs = dropWhile (\<lambda>y. y \<noteq> x) xs"
  by (simp add: dropWhile_eq_drop)

lemma stack_cycle:
  assumes "successively (\<lambda>u v. (u, v) \<in> edges g) sk" and "distinct sk" and "d \<in> set sk"
    and "(last sk, d) \<in> edges g" and "\<forall>v\<in>set sk. v < length g"
  shows "is_cycle g (drop (position_or_zero d sk) sk)"
proof -
  let ?c = "drop (position_or_zero d sk) sk"
  have ne: "?c \<noteq> []" and hd: "hd ?c = d"
    using assms(3) hd_dropWhile[of "\<lambda>y. y \<noteq> d" sk]
    by (auto simp: position_drop dropWhile_eq_Nil_conv simp del: position_or_zero.simps)
  moreover have "last ?c = last sk" using ne by (simp add: last_drop)
  ultimately show ?thesis
    using assms by (auto simp: is_cycle_def successively_drop dest: in_set_dropD
        simp del: position_or_zero.simps)
qed

lemma visit_Cycle:
  assumes "visit_dependencies g deps st sk = Cycle c" and "wf_graph g" and "dfs_inv g st"
    and "\<forall>d\<in>set deps. d < length g" and "successively (\<lambda>u v. (u, v) \<in> edges g) sk"
    and "distinct sk" and "set sk = grey st"
    and "sk \<noteq> [] \<longrightarrow> (\<forall>d\<in>set deps. (last sk, d) \<in> edges g)"
  shows "is_cycle g c"
  using assms
proof (induction g deps st sk arbitrary: c rule: visit_dependencies.induct)
  case (1 g st sk)
  then show ?case by simp
next
  case (2 g d rest st sk)
  have d: "d < length st" "d < length g" using "2.prems"(3,4) by (auto simp: dfs_inv_def)
  have bounded: "\<forall>v\<in>set sk. v < length g"
    using "2.prems"(3,7) by (auto simp: grey_def dfs_inv_def)
  consider "st ! d = 0" | "st ! d = 1" | "st ! d \<noteq> 0" "st ! d \<noteq> 1" by blast
  then show ?case
  proof cases
    case 1
    have inv1: "dfs_inv g (st[d := 1])" using "2.prems"(3) d 1 by (intro dfs_inv_mark)
    have path: "successively (\<lambda>u v. (u, v) \<in> edges g) (sk @ [d])" "distinct (sk @ [d])"
      "set (sk @ [d]) = grey (st[d := 1])" "\<forall>w\<in>set (g ! d). (last (sk @ [d]), w) \<in> edges g"
      using "2.prems"(5-8) d 1 by (auto simp: successively_append_iff color_simps edges_def) (simp add: grey_def)
    have deps: "\<forall>w\<in>set (g ! d). w < length g" using "2.prems"(2) d by (auto simp: wf_graph_def)
    show ?thesis
    proof (cases "visit_dependencies g (g ! d) (st[d := 1]) (sk @ [d])")
      case (Cycle c')
      with "2.prems"(1) d 1 have "c' = c" by simp
      with "2.IH"(1)[OF conjI[OF d(1) 1] Cycle "2.prems"(2) inv1 deps path(1,2,3)] path(4)
      show ?thesis by simp
    next
      case (Clear st2 sk2)
      note C = visit_Clear[OF Clear "2.prems"(2) inv1 deps]
      have dg: "d \<in> grey st2" "d < length st2"
        using C d by (auto simp: color_simps grey_def dfs_inv_def)
      have inv2: "dfs_inv g (st2[d := 2])" using dfs_inv_finish C dg by blast
      have "d \<notin> grey st" using 1 by (simp add: grey_def)
      then have "set sk = grey (st2[d := 2])"
        using C dg "2.prems"(7) d by (simp add: color_simps)
      moreover have "visit_dependencies g rest (st2[d := 2]) sk = Cycle c"
        using "2.prems"(1) d 1 Clear C by simp
      ultimately show ?thesis
        using "2.IH"(2)[OF conjI[OF d(1) 1], of "st2[d := 2]" sk c] Clear C inv2 "2.prems"(2-6,8)
        by simp
    qed
  next
    case 2
    then have "d \<in> set sk" using "2.prems"(7) d by (auto simp: grey_def)
    with 2 show ?thesis
      using stack_cycle[of g sk d] "2.prems"(1,5,6,8) d bounded
      by (cases sk) (simp_all del: position_or_zero.simps)
  next
    case 3
    with "2.prems"(1) have "visit_dependencies g rest st sk = Cycle c" by simp
    with 3 "2.IH"(3) "2.prems"(2-8) show ?thesis by simp
  qed
qed

text \<open>The outer loop is the inner loop run with an empty stack.\<close>

lemma search_is_visit:
  assumes "wf_graph g" and "dfs_inv g st" and "grey st = {}" and "\<forall>d\<in>set ns. d < length g"
  shows "search_cycles g ns st [] =
    (case visit_dependencies g ns st [] of Cycle c \<Rightarrow> Some c | Clear _ _ \<Rightarrow> None)"
  using assms
proof (induction ns arbitrary: st)
  case (Cons i ns)
  have i: "i < length g" "i < length st" using Cons.prems by (auto simp: dfs_inv_def)
  have one: "st ! i \<noteq> 1" using Cons.prems(3) i by (auto simp: grey_def)
  show ?case
  proof (cases "st ! i = 0")
    case False
    with one Cons i show ?thesis by simp
  next
    case True
    show ?thesis
    proof (cases "visit i g st []")
      case (Cycle c)
      with True i show ?thesis by (simp add: visit_def)
    next
      case (Clear st' sk')
      have "visit_dependencies g [i] st [] = Clear st' sk'"
        using Clear True i by (simp add: visit_def)
      from visit_Clear[OF this Cons.prems(1,2)] i Cons.prems(3)
      have "sk' = []" "dfs_inv g st'" "grey st' = {}" by auto
      with Clear True i Cons show ?thesis by (simp add: visit_def)
    qed
  qed
qed simp

lemma dfs_start: "dfs_inv g (replicate (length g) 0) \<and> grey (replicate (length g) 0) = {}"
  by (auto simp: dfs_inv_def grey_def black_def)

lemma no_cycle_acyclic:
  assumes "wf_graph g" and "find_dependency_cycle g = None"
  shows "acyclic (edges g)"
proof -
  let ?st = "replicate (length g) 0"
  obtain st' sk' where "visit_dependencies g [0..<length g] ?st [] = Clear st' sk'"
    using assms search_is_visit[of g ?st "[0..<length g]"] dfs_start[of g]
    by (auto simp: find_dependency_cycle_def split: visit_result.splits)
  from visit_Clear[OF this assms(1)] dfs_start[of g]
  have "dfs_inv g st'" "{..<length g} \<subseteq> black st'" by auto
  then have "(v, v) \<notin> (edges g)\<^sup>+" for v
    by (cases "v < length g") (auto simp: dfs_inv_def edges_def dest: tranclD)
  then show ?thesis by (simp add: acyclic_def)
qed

lemma found_cycle:
  assumes "wf_graph g" and "find_dependency_cycle g = Some c"
  shows "is_cycle g c"
proof -
  let ?st = "replicate (length g) 0"
  have "visit_dependencies g [0..<length g] ?st [] = Cycle c"
    using assms search_is_visit[of g ?st "[0..<length g]"] dfs_start[of g]
    by (auto simp: find_dependency_cycle_def split: visit_result.splits)
  from visit_Cycle[OF this assms(1)] dfs_start[of g] show ?thesis by simp
qed

lemma successively_rtrancl:
  "successively (\<lambda>u v. (u, v) \<in> E) c \<Longrightarrow> c \<noteq> [] \<Longrightarrow> (hd c, last c) \<in> E\<^sup>*"
  by (induction c rule: induct_list012) (auto intro: converse_rtrancl_into_rtrancl)

lemma is_cycle_not_acyclic: "is_cycle g c \<Longrightarrow> \<not> acyclic (edges g)"
  using successively_rtrancl[of "edges g" c] rtrancl_into_trancl1[of "hd c" "last c" "edges g" "hd c"]
  by (auto simp: is_cycle_def acyclic_def)

section \<open>Correctness of Kahn's algorithm\<close>

lemma append_at_each:
  assumes "distinct ds" and "\<forall>d\<in>set ds. d < length r"
  shows "length (fold (\<lambda>d r. r[d := r ! d @ [i]]) ds r) = length r \<and>
    (\<forall>u < length r. fold (\<lambda>d r. r[d := r ! d @ [i]]) ds r ! u = r ! u @ (if u \<in> set ds then [i] else []))"
  using assms by (induction ds arbitrary: r) (auto simp: nth_list_update)

lemma reverse_edges_prefix:
  fixes g :: graph and k :: nat
  defines "r \<equiv> fold (\<lambda>i r. fold (\<lambda>d r. r[d := r ! d @ [i]]) (g ! i) r) [0..<k] (replicate (length g) [])"
  assumes "wf_graph g" and "k \<le> length g"
  shows "length r = length g \<and> (\<forall>u < length g. r ! u = filter (\<lambda>v. u \<in> set (g ! v)) [0..<k])"
  using assms(3) unfolding r_def
proof (induction k)
  case (Suc k)
  have "distinct (g ! k)" "\<forall>d\<in>set (g ! k). d < length g"
    using assms(2) Suc.prems by (auto simp: wf_graph_def Suc_le_eq)
  then show ?case
    using Suc append_at_each[of "g ! k" "fold (\<lambda>i. fold (\<lambda>d r. r[d := r ! d @ [i]]) (g ! i)) [0..<k]
      (replicate (length g) [])" k] by (simp add: Suc_le_eq)
qed simp

lemma reverse_edges_nth:
  "wf_graph g \<Longrightarrow> u < length g \<Longrightarrow> reverse_edges g ! u = filter (\<lambda>v. u \<in> set (g ! v)) [0..<length g]"
  using reverse_edges_prefix[of g "length g"] by (simp add: reverse_edges_def)

lemma release_dependents_result:
  assumes "distinct vs" and "\<forall>v\<in>set vs. v < length (in_degree st) \<and> 0 < in_degree st ! v"
  shows "length (in_degree (release_dependents vs st)) = length (in_degree st) \<and>
    topological_order (release_dependents vs st) = topological_order st \<and>
    kahn_queue (release_dependents vs st) = kahn_queue st @ filter (\<lambda>v. in_degree st ! v = 1) vs \<and>
    (\<forall>v < length (in_degree st). in_degree (release_dependents vs st) ! v =
       in_degree st ! v - (if v \<in> set vs then 1 else 0))"
  using assms
proof (induction vs arbitrary: st)
  case (Cons v vs)
  define st' where "st' = (let s = st\<lparr>in_degree := (in_degree st)[v := in_degree st ! v - 1]\<rparr>
      in if in_degree st ! v = 1 then s\<lparr>kahn_queue := kahn_queue st @ [v]\<rparr> else s)"
  have step: "release_dependents (v # vs) st = release_dependents vs st'"
    using Cons.prems by (auto simp: st'_def Let_def)
  have deg: "in_degree st' = (in_degree st)[v := in_degree st ! v - 1]"
    and ord: "topological_order st' = topological_order st"
    and queue: "kahn_queue st' = kahn_queue st @ (if in_degree st ! v = 1 then [v] else [])"
    by (simp_all add: st'_def Let_def)
  have same: "in_degree st' ! w = in_degree st ! w" if "w \<in> set vs" for w
    using that Cons.prems by (auto simp: deg nth_list_update)
  then have "filter (\<lambda>w. in_degree st' ! w = 1) vs = filter (\<lambda>w. in_degree st ! w = 1) vs"
    by (auto intro: filter_cong)
  moreover have "\<forall>w\<in>set vs. w < length (in_degree st') \<and> 0 < in_degree st' ! w"
    using Cons.prems same by (auto simp: deg)
  ultimately show ?case
    using Cons.IH[of st'] Cons.prems
    unfolding step ord queue
    by (simp add: deg nth_list_update del: release_dependents.simps)
qed simp

definition kahn_inv :: "graph \<Rightarrow> kahn_state \<Rightarrow> bool" where
  "kahn_inv g st \<longleftrightarrow>
     length (in_degree st) = length g \<and>
     distinct (topological_order st @ kahn_queue st) \<and>
     set (topological_order st @ kahn_queue st) \<subseteq> {..<length g} \<and>
     (\<forall>v < length g. in_degree st ! v = card (set (g ! v) - set (topological_order st))) \<and>
     (\<forall>v < length g. v \<in> set (topological_order st @ kahn_queue st) \<longleftrightarrow> in_degree st ! v = 0) \<and>
     (\<forall>i < length (topological_order st).
        set (g ! (topological_order st ! i)) \<subseteq> set (take i (topological_order st)))"

lemma kahn_inv_init: "wf_graph g \<Longrightarrow> kahn_inv g (kahn_init g)"
  by (auto simp: kahn_inv_def kahn_init_def wf_graph_def distinct_card)

lemma kahn_inv_step:
  assumes wf: "wf_graph g" and inv: "kahn_inv g st" and ne: "kahn_queue st \<noteq> []"
  shows "kahn_inv g (kahn_step (reverse_edges g) st) \<and>
    length (topological_order (kahn_step (reverse_edges g) st)) = Suc (length (topological_order st))"
proof -
  obtain c q where q: "kahn_queue st = c # q" using ne by (cases "kahn_queue st") auto
  have c: "c < length g" "c \<notin> set (topological_order st)" "in_degree st ! c = 0"
    using inv q unfolding kahn_inv_def by (auto simp del: card_0_eq)
  have len: "length (in_degree st) = length g" using inv by (simp add: kahn_inv_def)
  define vs where "vs = filter (\<lambda>v. c \<in> set (g ! v)) [0..<length g]"
  define st1 where "st1 = st\<lparr>kahn_queue := q, topological_order := topological_order st @ [c]\<rparr>"
  define st2 where "st2 = release_dependents vs st1"
  have vs: "distinct vs" "set vs = {v. v < length g \<and> c \<in> set (g ! v)}" by (auto simp: vs_def)
  have st2: "kahn_step (reverse_edges g) st = st2"
    using q c by (simp add: kahn_step_def st2_def st1_def vs_def reverse_edges_nth[OF wf] Let_def)
  have deg: "in_degree st ! v = card (set (g ! v) - set (topological_order st))" if "v < length g" for v
    using inv that by (simp add: kahn_inv_def)
  have pos: "\<forall>v\<in>set vs. v < length g \<and> 0 < in_degree st ! v"
  proof
    fix v
    assume "v \<in> set vs"
    then have v: "v < length g" "c \<in> set (g ! v) - set (topological_order st)" using vs c by auto
    then have "card (set (g ! v) - set (topological_order st)) \<noteq> 0"
      by (metis card_0_eq empty_iff finite_Diff List.finite_set)
    with v deg[of v] show "v < length g \<and> 0 < in_degree st ! v" by linarith
  qed
  then have "\<forall>v\<in>set vs. v < length (in_degree st1) \<and> 0 < in_degree st1 ! v"
    by (simp add: st1_def len)
  note res = release_dependents_result[OF vs(1) this, folded st2_def]
  have rel: "length (in_degree st2) = length g" "topological_order st2 = topological_order st @ [c]"
    "kahn_queue st2 = q @ filter (\<lambda>v. in_degree st ! v = 1) vs"
    "\<And>v. v < length g \<Longrightarrow> in_degree st2 ! v = in_degree st ! v - (if c \<in> set (g ! v) then 1 else 0)"
    using res by (simp_all add: st1_def len vs(2))
  have degs: "in_degree st2 ! v = card (set (g ! v) - set (topological_order st2))" if "v < length g" for v
  proof -
    have "set (g ! v) - set (topological_order st2) = (set (g ! v) - set (topological_order st)) - {c}"
      using rel by auto
    then show ?thesis using rel(4)[OF that] deg[OF that] c by (simp add: card_Diff_singleton_if)
  qed
  have old: "v \<in> set (topological_order st @ kahn_queue st) \<longleftrightarrow> in_degree st ! v = 0"
    if "v < length g" for v using inv that by (simp add: kahn_inv_def)
  have dist: "distinct (topological_order st2 @ kahn_queue st2)"
  proof -
    have "distinct (topological_order st @ c # q)" using inv q by (simp add: kahn_inv_def)
    moreover have "v \<notin> set (topological_order st @ c # q)" if "v \<in> set vs" for v
      using pos old[of v] that q by (metis less_irrefl)
    ultimately show ?thesis using vs(1) by (auto simp: rel)
  qed
  have queued: "v \<in> set (topological_order st2 @ kahn_queue st2) \<longleftrightarrow> in_degree st2 ! v = 0"
    if "v < length g" for v
  proof -
    have "c \<in> set (g ! v) \<Longrightarrow> in_degree st ! v \<noteq> 0" using that pos vs(2) by blast
    then show ?thesis using old[OF that] that by (auto simp: rel(2,3) rel(4)[OF that] q vs(2))
  qed
  have "set (g ! c) \<subseteq> set (topological_order st)"
    using deg[OF c(1)] c(3) by (simp add: subset_iff)
  then have first: "\<forall>i < length (topological_order st2).
      set (g ! (topological_order st2 ! i)) \<subseteq> set (take i (topological_order st2))"
    using inv by (simp add: kahn_inv_def nth_append less_Suc_eq rel(2))
  have "set (topological_order st2 @ kahn_queue st2) \<subseteq> {..<length g}"
    using inv q vs(2) by (auto simp: kahn_inv_def rel)
  with rel(1,2) dist degs queued first show ?thesis
    unfolding st2 kahn_inv_def by simp
qed

lemma kahn_inv_length: "kahn_inv g st \<Longrightarrow> length (topological_order st) \<le> length g"
  using card_mono[of "{..<length g}" "set (topological_order st)"]
  by (auto simp: kahn_inv_def distinct_card)

lemma kahn_terminates:
  assumes "wf_graph g"
  shows "\<exists>st. kahn_inv g st \<and> kahn_queue st = [] \<and> kahn g = topological_order st"
  unfolding kahn_def
proof (rule while_rule[where P = "kahn_inv g" and
      r = "measure (\<lambda>st. length g - length (topological_order st))"])
  show "kahn_inv g (kahn_init g)" by (rule kahn_inv_init[OF assms])
next
  fix st assume "kahn_inv g st" "kahn_queue st \<noteq> []"
  note step = kahn_inv_step[OF assms this]
  then show "kahn_inv g (kahn_step (reverse_edges g) st)" by simp
  from step kahn_inv_length[of g "kahn_step (reverse_edges g) st"]
  show "(kahn_step (reverse_edges g) st, st) \<in> measure (\<lambda>st. length g - length (topological_order st))"
    by simp
qed auto

lemma finite_edges: "wf_graph g \<Longrightarrow> finite (edges g)"
  by (rule finite_subset[of _ "{..<length g} \<times> {..<length g}"]) (auto simp: edges_def wf_graph_def)

lemma kahn_order:
  assumes wf: "wf_graph g" and acyclic: "acyclic (edges g)"
  shows "distinct (kahn g) \<and> set (kahn g) = {..<length g} \<and>
    (\<forall>i < length (kahn g). set (g ! (kahn g ! i)) \<subseteq> set (take i (kahn g)))"
proof -
  obtain st where inv: "kahn_inv g st" and empty: "kahn_queue st = []" and
    res: "kahn g = topological_order st"
    using kahn_terminates[OF wf] by blast
  define R where "R = {..<length g} - set (kahn g)"
  have stuck: "\<exists>w\<in>R. (v, w) \<in> edges g" if "v \<in> R" for v
  proof -
    have v: "v < length g" "v \<notin> set (kahn g)" using that by (auto simp: R_def)
    with inv empty res have "card (set (g ! v) - set (kahn g)) \<noteq> 0"
      unfolding kahn_inv_def by (simp del: card_0_eq)
    then obtain w where "w \<in> set (g ! v) - set (kahn g)" by (metis all_not_in_conv card.empty)
    with v wf show ?thesis by (auto simp: R_def edges_def wf_graph_def)
  qed
  have "R = {}"
  proof (rule ccontr)
    assume "R \<noteq> {}"
    then obtain z where "z \<in> R" "\<And>y. (y, z) \<in> (edges g)\<inverse> \<Longrightarrow> y \<notin> R"
      using finite_acyclic_wf_converse[OF finite_edges[OF wf] acyclic] by (metis wfE_min ex_in_conv)
    then show False using stuck by blast
  qed
  then show ?thesis using inv empty res by (auto simp: kahn_inv_def R_def)
qed

lemma take_rtrancl:
  assumes "wf_graph g" and "acyclic (edges g)" and "(u, v) \<in> (edges g)\<^sup>+"
    and "i < length (kahn g)" and "kahn g ! i = u"
  shows "v \<in> set (take i (kahn g))"
  using assms(3-5)
proof (induction arbitrary: i rule: converse_trancl_induct)
  case (base u)
  then show ?case using kahn_order[OF assms(1,2)] by (auto simp: edges_def)
next
  case (step u w)
  then have "w \<in> set (take i (kahn g))" using kahn_order[OF assms(1,2)] by (auto simp: edges_def)
  then obtain j where "j < i" "j < length (kahn g)" "kahn g ! j = w"
    by (auto simp: in_set_conv_nth)
  with step.IH have "v \<in> set (take j (kahn g))" by blast
  with \<open>j < i\<close> show ?case by (meson less_imp_le set_take_subset_set_take subsetD)
qed

section \<open>Registration of the resolvable ids\<close>

text \<open>
  The specification side: every id a dependency may name, with the service that provides
  it, and the relation "service i depends on service j" it induces.
\<close>

definition resolvable :: "ServiceMetadata list \<Rightarrow> (TypeId \<times> nat) list" where
  "resolvable metadata =
     map (\<lambda>i. (type_id (metadata ! i), i)) [0..<length metadata] @
     List.map_filter (\<lambda>i. map_option (\<lambda>t. (t, i)) (trait_type_id (metadata ! i))) [0..<length metadata]"

definition depends_on :: "ServiceMetadata list \<Rightarrow> (nat \<times> nat) set" where
  "depends_on metadata = {(i, j). i < length metadata \<and>
     (\<exists>d\<in>set (dependencies (metadata ! i)). map_of (resolvable metadata) d = Some j)}"

definition dependencies_valid :: "ServiceMetadata list \<Rightarrow> ServiceMetadata \<Rightarrow> bool" where
  "dependencies_valid metadata service \<longleftrightarrow>
     (\<forall>d\<in>set (dependencies service). \<exists>j. map_of (resolvable metadata) d = Some j \<and>
        \<not> (lifetime service = Singleton \<and> lifetime (metadata ! j) = Scoped))"

definition valid_service_graph :: "ServiceMetadata list \<Rightarrow> bool" where
  "valid_service_graph metadata \<longleftrightarrow> distinct (map fst (resolvable metadata)) \<and>
     (\<forall>service\<in>set metadata. dependencies_valid metadata service) \<and> acyclic (depends_on metadata)"

fun register_pairs ::
  "(TypeId, nat) hashmap \<Rightarrow> ServiceMetadata list \<Rightarrow> (TypeId \<times> nat) list
     \<Rightarrow> (InjectionError, (TypeId, nat) hashmap) result" where
  "register_pairs m metadata [] = Ok m"
| "register_pairs m metadata ((t, i) # ps) =
     and_then (register_resolvable_type m metadata t i) (\<lambda>m. register_pairs m metadata ps)"

lemma register_concrete_pairs:
  "register_concrete m metadata is = register_pairs m metadata (map (\<lambda>i. (type_id (metadata ! i), i)) is)"
  by (induction "is" arbitrary: m) auto

lemma register_aliases_pairs:
  "register_aliases m metadata is = register_pairs m metadata
     (List.map_filter (\<lambda>i. map_option (\<lambda>t. (t, i)) (trait_type_id (metadata ! i))) is)"
  by (induction "is" arbitrary: m) (auto simp: List.map_filter_simps split: option.splits)

lemma and_then_assoc: "and_then (and_then r f) h = and_then r (\<lambda>a. and_then (f a) h)"
  by (cases r) auto

lemma register_pairs_append:
  "register_pairs m metadata (ps @ qs) =
     and_then (register_pairs m metadata ps) (\<lambda>m. register_pairs m metadata qs)"
  by (induction m metadata ps rule: register_pairs.induct) (simp_all add: and_then_assoc)

lemma register_pairs_Ok:
  "register_pairs m metadata ps = Ok m' \<Longrightarrow>
   distinct (map fst ps) \<and> hm_get m' = hm_get m ++ map_of ps \<and> (\<forall>t\<in>fst ` set ps. hm_get m t = None)"
proof (induction m metadata ps arbitrary: m' rule: register_pairs.induct)
  case (2 m metadata t i ps)
  then have fresh: "hm_get m t = None" and
    rest: "register_pairs (hm_insert t i m) metadata ps = Ok m'"
    by (auto simp: register_resolvable_type_def split: option.splits)
  from "2.IH"[OF rest] fresh show ?case
    by (auto simp: hashmap_simps map_add_def fun_eq_iff split: option.splits if_splits)
qed simp

lemma register_pairs_complete:
  "distinct (map fst ps) \<Longrightarrow> \<forall>t\<in>fst ` set ps. hm_get m t = None \<Longrightarrow>
   \<exists>m'. register_pairs m metadata ps = Ok m'"
proof (induction m metadata ps rule: register_pairs.induct)
  case (2 m metadata t i ps)
  then have "\<forall>u\<in>fst ` set ps. hm_get (hm_insert t i m) u = None" by (auto simp: hashmap_simps)
  with 2 show ?case by (simp add: register_resolvable_type_def)
qed simp

lemma register_pairs_Err:
  "register_pairs m metadata ps = Err e \<Longrightarrow>
   \<exists>as t i bs j. ps = as @ (t, i) # bs \<and> ((t, j) \<in> set as \<or> hm_get m t = Some j) \<and>
     e = AmbiguousRegistration t
       (conflicting_names (type_name (metadata ! j)) (type_name (metadata ! i)))"
proof (induction m metadata ps rule: register_pairs.induct)
  case (2 m metadata t i ps)
  show ?case
  proof (cases "hm_get m t")
    case None
    with "2.prems" have "register_pairs (hm_insert t i m) metadata ps = Err e"
      by (simp add: register_resolvable_type_def)
    from "2.IH"[OF this] obtain as t' i' bs j where
      "ps = as @ (t', i') # bs" "(t', j) \<in> set as \<or> hm_get (hm_insert t i m) t' = Some j"
      "e = AmbiguousRegistration t'
         (conflicting_names (type_name (metadata ! j)) (type_name (metadata ! i')))" by blast
    then show ?thesis
      by (intro exI[of _ "(t, i) # as"] exI[of _ t'] exI[of _ i'] exI[of _ bs] exI[of _ j])
        (auto simp: hashmap_simps split: if_splits)
  next
    case (Some j)
    with "2.prems" show ?thesis
      by (auto simp: register_resolvable_type_def intro!: exI[of _ "[]"])
  qed
qed simp

section \<open>The edges of the graph\<close>

lemma validate_lifetime_Ok_iff:
  "validate_lifetime_compatibility a b = Ok () \<longleftrightarrow> \<not> (a = Singleton \<and> b = Scoped)"
  by (cases a; cases b) auto

lemma service_edges_Ok:
  "service_edges reg metadata s ds es = Ok es' \<Longrightarrow>
   (\<forall>d\<in>set ds. \<exists>j. hm_get reg d = Some j \<and> \<not> (lifetime s = Singleton \<and> lifetime (metadata ! j) = Scoped)) \<and>
   set es' = set es \<union> {j. \<exists>d\<in>set ds. hm_get reg d = Some j} \<and> (distinct es \<longrightarrow> distinct es')"
proof (induction ds arbitrary: es)
  case (Cons d ds)
  then obtain j where j: "hm_get reg d = Some j"
    "validate_lifetime_compatibility (lifetime s) (lifetime (metadata ! j)) = Ok ()"
    "service_edges reg metadata s ds (if j \<in> set es then es else es @ [j]) = Ok es'"
    by (auto simp: Let_def split: option.splits sum.splits)
  from Cons.IH[OF j(3)] j(1,2) show ?case
    by (auto simp: validate_lifetime_Ok_iff split: if_splits)
qed simp

lemma service_edges_Err:
  "service_edges reg metadata s ds es = Err e \<Longrightarrow>
   \<exists>d\<in>set ds. hm_get reg d = None \<and> e = MissingDependency (type_name s) d \<or>
     (\<exists>j. hm_get reg d = Some j \<and> lifetime s = Singleton \<and> lifetime (metadata ! j) = Scoped \<and>
        e = LifetimeMismatch (type_name s) ''Singleton'' (type_name (metadata ! j)) ''Scoped'')"
proof (induction ds arbitrary: es)
  case (Cons d ds)
  show ?case
  proof (cases "hm_get reg d")
    case (Some j)
    show ?thesis
    proof (cases "validate_lifetime_compatibility (lifetime s) (lifetime (metadata ! j)) = Ok ()")
      case True
      with Cons.prems Some
      have "service_edges reg metadata s ds (if j \<in> set es then es else es @ [j]) = Err e"
        by (simp add: Let_def)
      from Cons.IH[OF this] show ?thesis by auto
    next
      case False
      with Cons.prems Some show ?thesis
        by (cases "lifetime s"; cases "lifetime (metadata ! j)") auto
    qed
  qed (use Cons.prems in auto)
qed simp

lemma graph_edges_Ok:
  "graph_edges reg metadata ss = Ok g \<Longrightarrow>
   list_all2 (\<lambda>s es. service_edges reg metadata s (dependencies s) [] = Ok es) ss g"
  by (induction ss arbitrary: g) auto

lemma graph_edges_Err:
  "graph_edges reg metadata ss = Err e \<Longrightarrow>
   \<exists>s\<in>set ss. service_edges reg metadata s (dependencies s) [] = Err e"
  by (induction ss) (auto simp: and_then_eq_Inl)

section \<open>The analysis as a whole\<close>

lemma resolvable_index: "map_of (resolvable metadata) d = Some j \<Longrightarrow> j < length metadata"
  by (auto dest!: map_of_SomeD simp: resolvable_def List.map_filter_def)

lemma resolvable_id: "map_of (resolvable metadata) d = Some j \<Longrightarrow>
  type_id (metadata ! j) = d \<or> trait_type_id (metadata ! j) = Some d"
  by (auto dest!: map_of_SomeD simp: resolvable_def List.map_filter_def)

lemma analyze_unfold:
  "analyze_service_graph metadata =
     (if metadata = [] then Ok []
      else
        and_then (register_pairs [] metadata (resolvable metadata)) (\<lambda>registrations.
        and_then (graph_edges registrations metadata metadata) (\<lambda>g.
        case find_dependency_cycle g of
          Some cycle \<Rightarrow>
            Err (CircularDependency (close_cycle (map (\<lambda>index. type_name (metadata ! index)) cycle)))
        | None \<Rightarrow>
            Ok (map (\<lambda>index. type_id (metadata ! index))
              (filter (\<lambda>index. lifetime (metadata ! index) = Singleton) (kahn g))))))"
  by (simp add: analyze_service_graph_def resolvable_def register_pairs_append and_then_assoc
      register_concrete_pairs register_aliases_pairs)

lemma built_graph:
  assumes reg: "register_pairs [] metadata (resolvable metadata) = Ok reg"
    and g: "graph_edges reg metadata metadata = Ok g"
  shows "wf_graph g \<and> length g = length metadata \<and> edges g = depends_on metadata \<and>
    (\<forall>service\<in>set metadata. dependencies_valid metadata service)"
proof -
  have lookup: "hm_get reg = map_of (resolvable metadata)"
    using register_pairs_Ok[OF reg] by simp
  have len: "length g = length metadata"
    using graph_edges_Ok[OF g] by (simp add: list_all2_lengthD)
  have row: "(\<forall>d\<in>set (dependencies (metadata ! i)). \<exists>j. map_of (resolvable metadata) d = Some j \<and>
        \<not> (lifetime (metadata ! i) = Singleton \<and> lifetime (metadata ! j) = Scoped)) \<and>
      set (g ! i) = {j. \<exists>d\<in>set (dependencies (metadata ! i)). map_of (resolvable metadata) d = Some j} \<and>
      distinct (g ! i)" if "i < length metadata" for i
    using service_edges_Ok[of reg metadata "metadata ! i" "dependencies (metadata ! i)" "[]" "g ! i"]
      list_all2_nthD[OF graph_edges_Ok[OF g] that]
    by (simp add: lookup)
  have "\<forall>service\<in>set metadata. dependencies_valid metadata service"
    using row by (metis dependencies_valid_def in_set_conv_nth)
  with row len show ?thesis
    by (auto simp: wf_graph_def edges_def depends_on_def dest: resolvable_index)
qed

lemma graph_built:
  assumes "distinct (map fst (resolvable metadata))"
    and "\<forall>service\<in>set metadata. dependencies_valid metadata service"
  obtains reg g where "register_pairs [] metadata (resolvable metadata) = Ok reg"
    and "graph_edges reg metadata metadata = Ok g"
proof -
  obtain reg where reg: "register_pairs [] metadata (resolvable metadata) = Ok reg"
    using register_pairs_complete[OF assms(1), of "[]"] by auto
  then have lookup: "hm_get reg = map_of (resolvable metadata)"
    using register_pairs_Ok by fastforce
  have "\<nexists>e. graph_edges reg metadata metadata = Err e"
  proof
    assume "\<exists>e. graph_edges reg metadata metadata = Err e"
    then obtain e service where "service \<in> set metadata"
      "service_edges reg metadata service (dependencies service) [] = Err e"
      using graph_edges_Err by blast
    with service_edges_Err[of reg metadata service] assms(2) show False
      by (fastforce simp: lookup dependencies_valid_def)
  qed
  then obtain g where "graph_edges reg metadata metadata = Ok g"
    by (cases "graph_edges reg metadata metadata") auto
  with reg that show ?thesis by blast
qed

lemma analyze_Ok_order:
  assumes "analyze_service_graph metadata = Ok order"
  shows "valid_service_graph metadata \<and> (\<exists>is. order = map (\<lambda>i. type_id (metadata ! i))
      (filter (\<lambda>i. lifetime (metadata ! i) = Singleton) is) \<and>
    distinct is \<and> set is = {..<length metadata} \<and>
    (\<forall>k < length is. \<forall>j. (is ! k, j) \<in> (depends_on metadata)\<^sup>+ \<longrightarrow> j \<in> set (take k is)))"
proof (cases "metadata = []")
  case True
  with assms show ?thesis
    by (auto simp: analyze_unfold valid_service_graph_def resolvable_def List.map_filter_simps
        depends_on_def acyclic_def intro!: exI[of _ "[]"])
next
  case False
  with assms obtain reg g where reg: "register_pairs [] metadata (resolvable metadata) = Ok reg"
    and g: "graph_edges reg metadata metadata = Ok g" and none: "find_dependency_cycle g = None"
    and order: "order = map (\<lambda>i. type_id (metadata ! i))
      (filter (\<lambda>i. lifetime (metadata ! i) = Singleton) (kahn g))"
    by (auto simp: analyze_unfold split: option.splits)
  note built = built_graph[OF reg g]
  then have acyclic: "acyclic (depends_on metadata)" using no_cycle_acyclic[OF _ none] by simp
  then have "valid_service_graph metadata"
    using register_pairs_Ok[OF reg] built by (simp add: valid_service_graph_def)
  moreover have "\<forall>k < length (kahn g). \<forall>j. (kahn g ! k, j) \<in> (depends_on metadata)\<^sup>+ \<longrightarrow>
      j \<in> set (take k (kahn g))"
    using take_rtrancl[of g] built acyclic by auto
  ultimately show ?thesis
    using order kahn_order[of g] built acyclic by (intro conjI exI[of _ "kahn g"]) auto
qed

lemma map_nth_upt: "map (\<lambda>i. f (xs ! i)) [0..<length xs] = map f xs"
  by (rule nth_equalityI) simp_all

lemma valid_distinct_ids: "valid_service_graph metadata \<Longrightarrow> distinct (map type_id metadata)"
  unfolding valid_service_graph_def resolvable_def map_append distinct_append map_map
  by (simp add: o_def map_nth_upt)

lemma filter_take_split:
  assumes "k < length xs" and "y \<in> set (take k xs)" and "P y" and "P (xs ! k)"
  shows "\<exists>as bs cs. filter P xs = as @ y # bs @ xs ! k # cs"
proof -
  have "filter P xs = filter P (take k xs) @ xs ! k # filter P (drop (Suc k) xs)"
    using assms by (subst id_take_nth_drop[OF assms(1)]) simp
  moreover obtain as bs where "filter P (take k xs) = as @ y # bs"
    using assms split_list[of y "filter P (take k xs)"] by auto
  ultimately show ?thesis by auto
qed

text \<open>
  C2. A successful analysis orders exactly the singletons, each once, and every
  singleton comes after all the singletons it depends on, directly or through services
  of any lifetime.
\<close>

theorem analyze_startup_order:
  assumes "analyze_service_graph metadata = Ok order"
  shows "distinct order \<and>
    set order = {type_id s | s. s \<in> set metadata \<and> lifetime s = Singleton} \<and>
    (\<forall>i j. (i, j) \<in> (depends_on metadata)\<^sup>+ \<and> lifetime (metadata ! i) = Singleton \<and>
       lifetime (metadata ! j) = Singleton \<longrightarrow>
       (\<exists>as bs cs. order = as @ type_id (metadata ! j) # bs @ type_id (metadata ! i) # cs))"
proof -
  from analyze_Ok_order[OF assms] obtain "is" where valid: "valid_service_graph metadata"
    and order: "order = map (\<lambda>i. type_id (metadata ! i))
      (filter (\<lambda>i. lifetime (metadata ! i) = Singleton) is)"
    and "is": "distinct is" "set is = {..<length metadata}"
    and before: "\<And>k j. k < length is \<Longrightarrow> (is ! k, j) \<in> (depends_on metadata)\<^sup>+ \<Longrightarrow> j \<in> set (take k is)"
    by blast
  have "inj_on (\<lambda>i. type_id (metadata ! i)) {..<length metadata}"
    using valid_distinct_ids[OF valid] by (auto simp: inj_on_def distinct_conv_nth)
  then have "distinct order"
    using "is" by (auto simp: order distinct_map intro: inj_on_subset)
  moreover have "set order = {type_id s | s. s \<in> set metadata \<and> lifetime s = Singleton}"
    using "is"(2) by (fastforce simp: order in_set_conv_nth)
  moreover have "\<exists>as bs cs. order = as @ type_id (metadata ! j) # bs @ type_id (metadata ! i) # cs"
    if dep: "(i, j) \<in> (depends_on metadata)\<^sup>+" and single: "lifetime (metadata ! i) = Singleton"
      "lifetime (metadata ! j) = Singleton" for i j
  proof -
    have "i < length metadata" using dep by (auto dest: tranclD simp: depends_on_def)
    then obtain k where k: "k < length is" "is ! k = i" using "is"(2) by (metis in_set_conv_nth lessThan_iff)
    with before dep have "j \<in> set (take k is)" by blast
    from filter_take_split[OF k(1) this, of "\<lambda>i. lifetime (metadata ! i) = Singleton"] k(2) single
    obtain as bs cs where "filter (\<lambda>i. lifetime (metadata ! i) = Singleton) is = as @ j # bs @ i # cs"
      by auto
    then show ?thesis unfolding order by auto
  qed
  ultimately show ?thesis by blast
qed

definition example_metadata :: "ServiceMetadata list" where
  "example_metadata =
     [\<lparr>type_id = 1, type_name = ''Api'', trait_type_id = None, trait_name = None, lifetime = Singleton, dependencies = [12, 12]\<rparr>,
      \<lparr>type_id = 2, type_name = ''Repo'', trait_type_id = Some 12, trait_name = Some ''Repository'', lifetime = Transient, dependencies = [3]\<rparr>,
      \<lparr>type_id = 3, type_name = ''Pool'', trait_type_id = None, trait_name = None, lifetime = Singleton, dependencies = []\<rparr>]"

lemma example_analyzed: "analyze_service_graph example_metadata = Ok [3, 1]"
  by code_simp

lemma example_depends: "(0, 2) \<in> (depends_on example_metadata)\<^sup>+"
proof -
  have "(0, 1) \<in> depends_on example_metadata" "(1, 2) \<in> depends_on example_metadata"
    by (simp_all add: depends_on_def example_metadata_def resolvable_def List.map_filter_simps upt_rec)
  then show ?thesis by (meson trancl.simps)
qed

theorem analyze_startup_order_witness:
  "analyze_service_graph example_metadata = Ok [3, 1] \<and>
   set [3, 1] = {type_id s | s. s \<in> set example_metadata \<and> lifetime s = Singleton} \<and>
   (\<exists>as bs cs. [3, 1] = as @ type_id (example_metadata ! 2) # bs @ type_id (example_metadata ! 0) # cs)"
proof -
  have "lifetime (example_metadata ! 0) = Singleton" "lifetime (example_metadata ! 2) = Singleton"
    by (simp_all add: example_metadata_def)
  with analyze_startup_order[OF example_analyzed] example_depends example_analyzed
  show ?thesis by blast
qed

lemma analyze_valid:
  assumes "valid_service_graph metadata"
  shows "\<exists>order. analyze_service_graph metadata = Ok order"
proof -
  from assms obtain reg g where reg: "register_pairs [] metadata (resolvable metadata) = Ok reg"
    and g: "graph_edges reg metadata metadata = Ok g" and acyclic: "acyclic (depends_on metadata)"
    using graph_built[of metadata] unfolding valid_service_graph_def by blast
  have "find_dependency_cycle g = None"
    using found_cycle[of g] is_cycle_not_acyclic[of g] built_graph[OF reg g] acyclic
    by (cases "find_dependency_cycle g") auto
  with reg g show ?thesis by (simp add: analyze_unfold)
qed

text \<open>
  C3. The analysis succeeds exactly on the valid graphs: no id provided twice, every
  dependency provided with a compatible lifetime, no cycle.
\<close>

theorem analyze_ok_iff:
  "(\<exists>order. analyze_service_graph metadata = Ok order) \<longleftrightarrow> valid_service_graph metadata"
  using analyze_Ok_order analyze_valid by blast

text \<open>What each reported error says about the metadata.\<close>

fun explains :: "ServiceMetadata list \<Rightarrow> InjectionError \<Rightarrow> bool" where
  "explains metadata (AmbiguousRegistration t names) \<longleftrightarrow>
     (\<exists>as i bs j. resolvable metadata = as @ (t, i) # bs \<and> (t, j) \<in> set as \<and>
        names = conflicting_names (type_name (metadata ! j)) (type_name (metadata ! i)))"
| "explains metadata (MissingDependency name d) \<longleftrightarrow>
     (\<exists>s\<in>set metadata. name = type_name s \<and> d \<in> set (dependencies s) \<and>
        d \<notin> fst ` set (resolvable metadata))"
| "explains metadata (LifetimeMismatch name l name' l') \<longleftrightarrow>
     (\<exists>s\<in>set metadata. \<exists>d\<in>set (dependencies s). \<exists>j. map_of (resolvable metadata) d = Some j \<and>
        name = type_name s \<and> lifetime s = Singleton \<and> l = lifetime_debug Singleton \<and>
        name' = type_name (metadata ! j) \<and> lifetime (metadata ! j) = Scoped \<and> l' = lifetime_debug Scoped)"
| "explains metadata (CircularDependency names) \<longleftrightarrow>
     (\<exists>c. c \<noteq> [] \<and> distinct c \<and> successively (\<lambda>i j. (i, j) \<in> depends_on metadata) c \<and>
        (last c, hd c) \<in> depends_on metadata \<and>
        names = map (\<lambda>i. type_name (metadata ! i)) (c @ [hd c]))"
| "explains metadata _ \<longleftrightarrow> False"

lemma explains_missing:
  assumes "register_pairs [] metadata (resolvable metadata) = Ok reg"
    and "graph_edges reg metadata metadata = Err e"
  shows "explains metadata e"
proof -
  have lookup: "hm_get reg = map_of (resolvable metadata)"
    using register_pairs_Ok[OF assms(1)] by simp
  obtain s where s: "s \<in> set metadata" "service_edges reg metadata s (dependencies s) [] = Err e"
    using graph_edges_Err[OF assms(2)] by blast
  from service_edges_Err[OF s(2)] s(1) show ?thesis
    by (fastforce simp: lookup map_of_eq_None_iff)
qed

text \<open>
  C9. Every error of the analysis is about the metadata it was given: an ambiguity
  names two services that provide the id, a missing dependency is provided by no service,
  a lifetime mismatch is a singleton that injects a scoped service, and a circular
  dependency lists the services of a simple dependency cycle, closed by its first one.
\<close>

theorem analyze_error_explained:
  assumes "analyze_service_graph metadata = Err e"
  shows "explains metadata e"
proof -
  have "metadata \<noteq> []" using assms by (auto simp: analyze_unfold)
  with assms consider
      "register_pairs [] metadata (resolvable metadata) = Err e"
    | reg where "register_pairs [] metadata (resolvable metadata) = Ok reg"
        "graph_edges reg metadata metadata = Err e"
    | reg g c where "register_pairs [] metadata (resolvable metadata) = Ok reg"
        "graph_edges reg metadata metadata = Ok g" "find_dependency_cycle g = Some c"
        "e = CircularDependency (close_cycle (map (\<lambda>i. type_name (metadata ! i)) c))"
    by (auto simp: analyze_unfold and_then_eq_Inl split: option.splits)
  then show ?thesis
  proof cases
    case 1
    from register_pairs_Err[OF this] show ?thesis by (elim exE) (simp, blast)
  next
    case 2
    then show ?thesis by (rule explains_missing)
  next
    case 3
    then have "is_cycle g c" "edges g = depends_on metadata"
      using built_graph found_cycle by blast+
    then show ?thesis
      using 3(4) by (cases c) (auto simp: is_cycle_def close_cycle_def intro!: exI[of _ c])
  qed
qed

definition cyclic_metadata :: "ServiceMetadata list" where
  "cyclic_metadata =
     [\<lparr>type_id = 1, type_name = ''A'', trait_type_id = None, trait_name = None, lifetime = Singleton, dependencies = [2]\<rparr>,
      \<lparr>type_id = 2, type_name = ''B'', trait_type_id = None, trait_name = None, lifetime = Transient, dependencies = [3]\<rparr>,
      \<lparr>type_id = 3, type_name = ''C'', trait_type_id = None, trait_name = None, lifetime = Singleton, dependencies = [2]\<rparr>]"

lemma cyclic_analyzed:
  "analyze_service_graph cyclic_metadata = Err (CircularDependency [''B'', ''C'', ''B''])"
  by code_simp

theorem analyze_error_explained_witness:
  "analyze_service_graph cyclic_metadata = Err (CircularDependency [''B'', ''C'', ''B'']) \<and>
   explains cyclic_metadata (CircularDependency [''B'', ''C'', ''B''])"
  using cyclic_analyzed analyze_error_explained[OF cyclic_analyzed] by blast

text \<open>
  C10. The cycle search is exact on every well-formed graph: it finds nothing exactly
  when the graph is acyclic, and what it returns is a simple cycle of the graph.
\<close>

theorem find_dependency_cycle_exact:
  assumes "wf_graph g"
  shows "(find_dependency_cycle g = None \<longleftrightarrow> acyclic (edges g)) \<and>
    (\<forall>c. find_dependency_cycle g = Some c \<longrightarrow> is_cycle g c)"
  using assms no_cycle_acyclic found_cycle is_cycle_not_acyclic by (metis option.exhaust)

theorem find_dependency_cycle_exact_witness:
  "wf_graph [[1], [2, 3], [0], []] \<and> find_dependency_cycle [[1], [2, 3], [0], []] = Some [0, 1, 2] \<and>
   is_cycle [[1], [2, 3], [0], []] [0, 1, 2]"
proof -
  have "wf_graph [[1], [2, 3], [0], []]" by (auto simp: wf_graph_def less_Suc_eq)
  moreover have "find_dependency_cycle [[1], [2, 3], [0], []] = Some [0, 1, 2]" by code_simp
  ultimately show ?thesis using find_dependency_cycle_exact by blast
qed

section \<open>Route metadata\<close>

lemma validate_routes_loop_Ok_iff:
  "validate_routes_loop registrations routes = Ok () \<longleftrightarrow>
     distinct (map requested_type_id routes) \<and>
     (\<forall>r\<in>set routes. hm_get registrations (requested_type_id r) = None)"
proof (induction registrations routes rule: validate_routes_loop.induct)
  case (2 registrations route rest)
  show ?case
  proof (cases "hm_get registrations (requested_type_id route)")
    case None
    with 2 show ?thesis by (auto simp: hashmap_simps rev_image_eqI)
  qed (simp add: Let_def)
qed simp

lemma validate_service_route_metadata_Ok_iff:
  "validate_service_route_metadata routes = Ok () \<longleftrightarrow> distinct (map requested_type_id routes)"
  by (simp add: validate_service_route_metadata_def validate_routes_loop_Ok_iff)

end
