(* ===== verification/Registration_Plan.thy ===== *)
theory Registration_Plan
  imports Service_Graph
begin

text \<open>
  The registration plan of an application container:
  \<^verbatim>\<open>lily_injection/src/storage/registration_plan.rs\<close>. The plan is built from the two
  link-time slices (the service metadata and the resolution routes) and the disposer slice,
  which are arguments here. A disposer function is named by a number. The container resolves
  every request through \<open>routes\<close> and \<open>registrations\<close> of the plan, so the properties say
  what a lookup in a discovered plan finds.
\<close>

record ServiceDisposerMetadata =
  disposer_type_id :: TypeId
  disposer_fn :: nat

definition get_service_disposer :: "ServiceDisposerMetadata list \<Rightarrow> TypeId \<Rightarrow> nat option" where
  "get_service_disposer disposers tid =
     map_option disposer_fn (find (\<lambda>metadata. disposer_type_id metadata = tid) disposers)"

record PlannedService =
  planned_metadata :: ServiceMetadata
  dispose_fn :: "nat option"

record RegistrationPlan =
  registrations :: "(TypeId, PlannedService) hashmap"
  plan_routes :: "(TypeId, ServiceRouteMetadata) hashmap"
  singleton_initialization_order :: "TypeId list"

definition validate_route_contract ::
  "ServiceRouteMetadata \<Rightarrow> PlannedService \<Rightarrow> (InjectionError, unit) result" where
  "validate_route_contract route implementation =
     (if route_kind route = Concrete \<and> requested_type_id route \<noteq> implementation_type_id route then
        Err (InvalidRegistrationPlan
          (''concrete route '' @ [CHR 0x27] @ requested_type_name route @ [CHR 0x27] @ '' does not point to itself''))
      else if route_kind route = Interface \<and>
              trait_type_id (planned_metadata implementation) \<noteq> Some (requested_type_id route) then
        Err (InvalidRegistrationPlan
          (''interface route '' @ [CHR 0x27] @ requested_type_name route @ [CHR 0x27] @
           '' is not declared by implementation '' @ [CHR 0x27] @
           type_name (planned_metadata implementation) @ [CHR 0x27]))
      else Ok ())"

text \<open>The loop that fills \<open>registrations\<close>.\<close>

fun index_services ::
  "ServiceDisposerMetadata list \<Rightarrow> (TypeId, PlannedService) hashmap \<Rightarrow> ServiceMetadata list
     \<Rightarrow> (InjectionError, (TypeId, PlannedService) hashmap) result" where
  "index_services disposers regs [] = Ok regs"
| "index_services disposers regs (service # rest) =
     (case hm_get regs (type_id service) of
        Some existing \<Rightarrow>
          Err (AmbiguousRegistration (type_id service)
            (conflicting_names (type_name (planned_metadata existing)) (type_name service)))
      | None \<Rightarrow>
          index_services disposers
            (hm_insert (type_id service)
               \<lparr>planned_metadata = service,
                dispose_fn = get_service_disposer disposers (type_id service)\<rparr> regs)
            rest)"

text \<open>The loop that fills \<open>routes\<close>.\<close>

fun index_routes ::
  "(TypeId, PlannedService) hashmap \<Rightarrow> (TypeId, ServiceRouteMetadata) hashmap
     \<Rightarrow> ServiceRouteMetadata list \<Rightarrow> (InjectionError, (TypeId, ServiceRouteMetadata) hashmap) result"
where
  "index_routes regs routes [] = Ok routes"
| "index_routes regs routes (route # rest) =
     (case hm_get regs (implementation_type_id route) of
        None \<Rightarrow>
          Err (InvalidRegistrationPlan
            (''route '' @ [CHR 0x27] @ requested_type_name route @ [CHR 0x27] @
             '' points to unregistered implementation '' @ [CHR 0x27] @
             implementation_type_name route @ [CHR 0x27]))
      | Some implementation \<Rightarrow>
          and_then (validate_route_contract route implementation) (\<lambda>_.
            index_routes regs (hm_insert (requested_type_id route) route routes) rest))"

text \<open>One pass of the loop over \<open>registrations.values()\<close>.\<close>

definition invalid_service :: "ServiceMetadata \<Rightarrow> string \<Rightarrow> InjectionError" where
  "invalid_service service message = InvalidRegistrationPlan
     (''service '' @ [CHR 0x27] @ type_name service @ [CHR 0x27] @ message)"

definition check_service ::
  "(TypeId, ServiceRouteMetadata) hashmap \<Rightarrow> ServiceMetadata \<Rightarrow> (InjectionError, unit) result" where
  "check_service routes service =
     (case hm_get routes (type_id service) of
        None \<Rightarrow> Err (invalid_service service '' did not publish its concrete resolution route'')
      | Some route \<Rightarrow>
          if route_kind route \<noteq> Concrete \<or> implementation_type_id route \<noteq> type_id service
          then Err (invalid_service service '' has an invalid concrete resolution route'')
          else
            (case trait_type_id service of
               None \<Rightarrow> Ok ()
             | Some interface_type_id \<Rightarrow>
                 (case hm_get routes interface_type_id of
                    None \<Rightarrow> Err (invalid_service service '' declares an interface without a projection route'')
                  | Some route \<Rightarrow>
                      if route_kind route \<noteq> Interface \<or> implementation_type_id route \<noteq> type_id service
                      then Err (invalid_service service '' has an inconsistent interface route'')
                      else Ok ())))"

text \<open>
  The values are visited in the order of the association list. Rust leaves that order open;
  it decides which service a failing plan reports first, not whether the plan fails.
\<close>

fun check_services ::
  "(TypeId, ServiceRouteMetadata) hashmap \<Rightarrow> PlannedService list \<Rightarrow> (InjectionError, unit) result" where
  "check_services routes [] = Ok ()"
| "check_services routes (service # rest) =
     and_then (check_service routes (planned_metadata service)) (\<lambda>_. check_services routes rest)"

definition discover ::
  "ServiceMetadata list \<Rightarrow> ServiceRouteMetadata list \<Rightarrow> ServiceDisposerMetadata list
     \<Rightarrow> (InjectionError, RegistrationPlan) result" where
  "discover metadata route_metadata disposers =
     and_then (validate_service_route_metadata route_metadata) (\<lambda>_.
     and_then (analyze_service_graph metadata) (\<lambda>order.
     and_then (index_services disposers [] metadata) (\<lambda>regs.
     and_then (index_routes regs [] route_metadata) (\<lambda>routes.
     and_then (check_services routes (hm_values regs)) (\<lambda>_.
       Ok \<lparr>registrations = regs, plan_routes = routes, singleton_initialization_order = order\<rparr>)))))"

section \<open>What the loops build\<close>

definition planned :: "ServiceDisposerMetadata list \<Rightarrow> ServiceMetadata \<Rightarrow> PlannedService" where
  "planned disposers service =
     \<lparr>planned_metadata = service, dispose_fn = get_service_disposer disposers (type_id service)\<rparr>"

lemma index_services_distinct:
  assumes "distinct (map type_id services)"
    and "\<forall>s\<in>set services. hm_get regs (type_id s) = None" and "hm_invar regs"
  shows "\<exists>regs'. index_services disposers regs services = Ok regs' \<and> hm_invar regs' \<and>
    set regs' = set regs \<union> (\<lambda>s. (type_id s, planned disposers s)) ` set services"
  using assms
proof (induction disposers regs services rule: index_services.induct)
  case (2 disposers regs service rest)
  let ?regs = "hm_insert (type_id service) (planned disposers service) regs"
  have none: "hm_get regs (type_id service) = None" using "2.prems" by simp
  have "\<forall>s\<in>set rest. hm_get ?regs (type_id s) = None"
    using "2.prems" by (auto simp: hashmap_simps image_iff)
  with "2.IH"[OF none] "2.prems" none assoc.entries_insert_fresh[OF "2.prems"(3) none, of "planned disposers service"]
  show ?case by (simp add: planned_def hashmap_simps)
qed simp

lemma index_routes_Ok:
  "index_routes regs routes rs = Ok routes' \<Longrightarrow>
   (\<forall>r\<in>set rs. \<exists>p. hm_get regs (implementation_type_id r) = Some p \<and> validate_route_contract r p = Ok ()) \<and>
   (distinct (map requested_type_id rs) \<and> (\<forall>r\<in>set rs. hm_get routes (requested_type_id r) = None) \<and> hm_invar routes
      \<longrightarrow> hm_invar routes' \<and> set routes' = set routes \<union> (\<lambda>r. (requested_type_id r, r)) ` set rs)"
proof (induction regs routes rs arbitrary: routes' rule: index_routes.induct)
  case (2 regs routes route rest)
  then obtain p where p: "hm_get regs (implementation_type_id route) = Some p"
    "validate_route_contract route p = Ok ()"
    and rest: "index_routes regs (hm_insert (requested_type_id route) route routes) rest = Ok routes'"
    by (auto split: option.splits)
  note IH = "2.IH"[OF p(1) rest]
  show ?case
  proof (intro conjI impI)
    show "\<forall>r\<in>set (route # rest). \<exists>p. hm_get regs (implementation_type_id r) = Some p \<and>
        validate_route_contract r p = Ok ()"
      using IH p by auto
  next
    assume fresh: "distinct (map requested_type_id (route # rest)) \<and>
      (\<forall>r\<in>set (route # rest). hm_get routes (requested_type_id r) = None) \<and> hm_invar routes"
    then have "\<forall>r\<in>set rest. hm_get (hm_insert (requested_type_id route) route routes) (requested_type_id r) = None"
      by (auto simp: hashmap_simps image_iff)
    with IH fresh have "hm_invar routes' \<and>
      set routes' = set (hm_insert (requested_type_id route) route routes) \<union> (\<lambda>r. (requested_type_id r, r)) ` set rest"
      by (simp add: hashmap_simps)
    with fresh assoc.entries_insert_fresh[of routes "requested_type_id route" route]
    show "hm_invar routes'" "set routes' = set routes \<union> (\<lambda>r. (requested_type_id r, r)) ` set (route # rest)"
      by auto
  qed
qed simp

lemma index_routes_complete:
  "\<forall>r\<in>set rs. \<exists>p. hm_get regs (implementation_type_id r) = Some p \<and> validate_route_contract r p = Ok () \<Longrightarrow>
   \<exists>routes'. index_routes regs routes rs = Ok routes'"
  by (induction regs routes rs rule: index_routes.induct) auto

lemma check_services_Ok_iff:
  "check_services routes ps = Ok () \<longleftrightarrow> (\<forall>p\<in>set ps. check_service routes (planned_metadata p) = Ok ())"
  by (induction ps) auto

lemma validate_route_contract_Ok_iff:
  "validate_route_contract r p = Ok () \<longleftrightarrow>
     (route_kind r = Concrete \<longrightarrow> requested_type_id r = implementation_type_id r) \<and>
     (route_kind r = Interface \<longrightarrow> trait_type_id (planned_metadata p) = Some (requested_type_id r))"
  by (auto simp: validate_route_contract_def)

lemma check_service_Ok_iff:
  "check_service routes s = Ok () \<longleftrightarrow>
     (\<exists>r. hm_get routes (type_id s) = Some r \<and> route_kind r = Concrete \<and> implementation_type_id r = type_id s) \<and>
     (\<forall>t. trait_type_id s = Some t \<longrightarrow>
        (\<exists>r. hm_get routes t = Some r \<and> route_kind r = Interface \<and> implementation_type_id r = type_id s))"
  by (auto simp: check_service_def split: option.splits)

section \<open>What a discovered plan promises\<close>

definition consistent_routes :: "ServiceMetadata list \<Rightarrow> ServiceRouteMetadata list \<Rightarrow> bool" where
  "consistent_routes metadata rs \<longleftrightarrow> distinct (map requested_type_id rs) \<and>
     (\<forall>r\<in>set rs. \<exists>s\<in>set metadata. type_id s = implementation_type_id r \<and>
        (route_kind r = Concrete \<longrightarrow> requested_type_id r = implementation_type_id r) \<and>
        (route_kind r = Interface \<longrightarrow> trait_type_id s = Some (requested_type_id r))) \<and>
     (\<forall>s\<in>set metadata.
        (\<exists>r\<in>set rs. requested_type_id r = type_id s \<and> route_kind r = Concrete \<and>
           implementation_type_id r = type_id s) \<and>
        (\<forall>t. trait_type_id s = Some t \<longrightarrow>
           (\<exists>r\<in>set rs. requested_type_id r = t \<and> route_kind r = Interface \<and>
              implementation_type_id r = type_id s)))"

definition plan_index ::
  "ServiceMetadata list \<Rightarrow> ServiceRouteMetadata list \<Rightarrow> ServiceDisposerMetadata list \<Rightarrow> RegistrationPlan \<Rightarrow> bool" where
  "plan_index metadata rs disposers plan \<longleftrightarrow>
     (\<forall>t p. hm_get (registrations plan) t = Some p \<longleftrightarrow>
        (\<exists>s\<in>set metadata. type_id s = t \<and> p = planned disposers s)) \<and>
     (\<forall>t r. hm_get (plan_routes plan) t = Some r \<longleftrightarrow> r \<in> set rs \<and> requested_type_id r = t)"

lemma services_indexed:
  assumes "valid_service_graph metadata"
  obtains regs where "index_services disposers [] metadata = Ok regs"
    and "\<And>t p. hm_get regs t = Some p \<longleftrightarrow> (\<exists>s\<in>set metadata. type_id s = t \<and> p = planned disposers s)"
    and "planned_metadata ` set (hm_values regs) = set metadata"
proof -
  obtain regs where regs: "index_services disposers [] metadata = Ok regs" "hm_invar regs"
    "set regs = (\<lambda>s. (type_id s, planned disposers s)) ` set metadata"
    using index_services_distinct[OF valid_distinct_ids[OF assms], of "[]" disposers] by auto
  have "hm_get regs t = Some p \<longleftrightarrow> (\<exists>s\<in>set metadata. type_id s = t \<and> p = planned disposers s)" for t p
    using assoc.get_entries[OF regs(2), of t p] regs(3) by auto
  moreover have "planned_metadata ` set (hm_values regs) = set metadata"
    using regs(3) by (simp add: image_image planned_def)
  ultimately show ?thesis using that regs(1) by blast
qed

lemma routes_indexed:
  assumes "index_routes regs [] rs = Ok routes" and "distinct (map requested_type_id rs)"
  shows "hm_get routes t = Some r \<longleftrightarrow> r \<in> set rs \<and> requested_type_id r = t"
  using index_routes_Ok[OF assms(1)] assms(2) assoc.get_entries[of routes t r] by auto

lemma discover_Ok:
  assumes "discover metadata rs disposers = Ok plan"
  shows "valid_service_graph metadata \<and> consistent_routes metadata rs \<and> plan_index metadata rs disposers plan"
proof -
  from assms obtain regs routes order where
    dist: "distinct (map requested_type_id rs)" and valid: "valid_service_graph metadata" and
    regs: "index_services disposers [] metadata = Ok regs" and
    routes: "index_routes regs [] rs = Ok routes" and
    checked: "check_services routes (hm_values regs) = Ok ()" and
    plan: "plan = \<lparr>registrations = regs, plan_routes = routes, singleton_initialization_order = order\<rparr>"
    using analyze_Ok_order by (auto simp: discover_def validate_service_route_metadata_Ok_iff)
  obtain lookup: "\<And>t p. hm_get regs t = Some p \<longleftrightarrow> (\<exists>s\<in>set metadata. type_id s = t \<and> p = planned disposers s)"
    and vals: "planned_metadata ` set (hm_values regs) = set metadata"
    using services_indexed[OF valid, of disposers] regs by (metis sum.inject(2))
  note route = routes_indexed[OF routes dist]
  have "\<forall>s\<in>set metadata. check_service routes s = Ok ()"
    using checked unfolding check_services_Ok_iff vals[symmetric] by blast
  moreover have "\<forall>r\<in>set rs. \<exists>s\<in>set metadata. type_id s = implementation_type_id r \<and>
      validate_route_contract r (planned disposers s) = Ok ()"
    using index_routes_Ok[OF routes] lookup by metis
  ultimately have "consistent_routes metadata rs"
    using dist route
    by (simp add: consistent_routes_def check_service_Ok_iff validate_route_contract_Ok_iff planned_def) blast
  with valid lookup route plan show ?thesis by (simp add: plan_index_def)
qed

lemma discover_complete:
  assumes valid: "valid_service_graph metadata" and cons: "consistent_routes metadata rs"
  shows "\<exists>plan. discover metadata rs disposers = Ok plan"
proof -
  have dist: "distinct (map requested_type_id rs)" using cons by (simp add: consistent_routes_def)
  obtain regs where regs: "index_services disposers [] metadata = Ok regs"
    and lookup: "\<And>t p. hm_get regs t = Some p \<longleftrightarrow> (\<exists>s\<in>set metadata. type_id s = t \<and> p = planned disposers s)"
    and vals: "planned_metadata ` set (hm_values regs) = set metadata"
    using services_indexed[OF valid] by metis
  have "\<forall>r\<in>set rs. \<exists>p. hm_get regs (implementation_type_id r) = Some p \<and> validate_route_contract r p = Ok ()"
    using cons by (fastforce simp: lookup consistent_routes_def validate_route_contract_Ok_iff planned_def)
  then obtain routes where routes: "index_routes regs [] rs = Ok routes"
    using index_routes_complete by blast
  have "check_service routes (planned_metadata p) = Ok ()" if "p \<in> set (hm_values regs)" for p
  proof -
    have "planned_metadata p \<in> set metadata" using vals that by blast
    with cons show ?thesis
      by (simp add: check_service_Ok_iff routes_indexed[OF routes dist] consistent_routes_def) blast
  qed
  then have "check_services routes (hm_values regs) = Ok ()" by (simp add: check_services_Ok_iff)
  moreover obtain order where "analyze_service_graph metadata = Ok order"
    using valid analyze_valid by blast
  ultimately show ?thesis
    using dist regs routes by (simp add: discover_def validate_service_route_metadata_Ok_iff)
qed

text \<open>
  C8. Container construction accepts exactly the declarations that form a valid
  service graph with consistent routes: no requested id routed twice, every route leading
  to a registered service that declares it, and every service reachable through its
  concrete route and, when it declares an interface, through the interface route.
\<close>

theorem discover_ok_iff:
  "(\<exists>plan. discover metadata rs disposers = Ok plan) \<longleftrightarrow>
     valid_service_graph metadata \<and> consistent_routes metadata rs"
  using discover_Ok discover_complete by blast

text \<open>
  C7. In a discovered plan every dependency of every service is resolvable at run
  time: its id has a route, the route leads to a planned service that provides the id, and
  a singleton is never handed a scoped service.
\<close>

theorem discover_resolves_dependencies:
  assumes "discover metadata rs disposers = Ok plan"
    and "s \<in> set metadata" and "d \<in> set (dependencies s)"
  shows "\<exists>r p. hm_get (plan_routes plan) d = Some r \<and>
    hm_get (registrations plan) (implementation_type_id r) = Some p \<and>
    (type_id (planned_metadata p) = d \<or> trait_type_id (planned_metadata p) = Some d) \<and>
    \<not> (lifetime s = Singleton \<and> lifetime (planned_metadata p) = Scoped)"
proof -
  note ok = discover_Ok[OF assms(1)]
  then obtain j where j: "map_of (resolvable metadata) d = Some j"
    and life: "\<not> (lifetime s = Singleton \<and> lifetime (metadata ! j) = Scoped)"
    using assms(2,3) unfolding valid_service_graph_def dependencies_valid_def by blast
  define s' where "s' = metadata ! j"
  have s': "s' \<in> set metadata" "type_id s' = d \<or> trait_type_id s' = Some d"
    using resolvable_index[OF j] resolvable_id[OF j] by (auto simp: s'_def)
  then obtain r where r: "r \<in> set rs" "requested_type_id r = d" "implementation_type_id r = type_id s'"
    using ok unfolding consistent_routes_def by metis
  with s' ok have "hm_get (plan_routes plan) d = Some r"
    "hm_get (registrations plan) (implementation_type_id r) = Some (planned disposers s')"
    by (auto simp: plan_index_def)
  with s' life show ?thesis by (auto simp: planned_def s'_def)
qed

definition example_routes :: "ServiceRouteMetadata list" where
  "example_routes =
     [\<lparr>requested_type_id = 1, requested_type_name = ''Api'', implementation_type_id = 1,
       implementation_type_name = ''Api'', route_kind = Concrete\<rparr>,
      \<lparr>requested_type_id = 2, requested_type_name = ''Repo'', implementation_type_id = 2,
       implementation_type_name = ''Repo'', route_kind = Concrete\<rparr>,
      \<lparr>requested_type_id = 12, requested_type_name = ''dyn Repository'', implementation_type_id = 2,
       implementation_type_name = ''Repo'', route_kind = Interface\<rparr>,
      \<lparr>requested_type_id = 3, requested_type_name = ''Pool'', implementation_type_id = 3,
       implementation_type_name = ''Pool'', route_kind = Concrete\<rparr>]"

definition example_plan :: RegistrationPlan where
  "example_plan = (case discover example_metadata example_routes [] of Inr plan \<Rightarrow> plan)"

lemma example_discovered: "discover example_metadata example_routes [] = Ok example_plan"
  by code_simp

theorem discover_resolves_dependencies_witness:
  "discover example_metadata example_routes [] = Ok example_plan \<and>
   (\<exists>r p. hm_get (plan_routes example_plan) 12 = Some r \<and>
     hm_get (registrations example_plan) (implementation_type_id r) = Some p \<and>
     (type_id (planned_metadata p) = 12 \<or> trait_type_id (planned_metadata p) = Some 12) \<and>
     \<not> (lifetime (example_metadata ! 0) = Singleton \<and> lifetime (planned_metadata p) = Scoped))"
proof -
  have "example_metadata ! 0 \<in> set example_metadata" "12 \<in> set (dependencies (example_metadata ! 0))"
    by (simp_all add: example_metadata_def)
  from discover_resolves_dependencies[OF example_discovered this] example_discovered
  show ?thesis by blast
qed

end
