(* ===== verification/Cookie.thy ===== *)
theory Cookie
  imports Lily_Prelude
begin

text \<open>
  The cookie primitives of \<^verbatim>\<open>lily_web_core/src/cookie.rs\<close>: response cookies and their
  builder, removal cookies, the bounded rendering of \<open>Set-Cookie\<close>, the request jar, key rings
  and the signed and private views.

  The \<open>cookie\<close> crate is a parameter, as the calls the code makes: \<open>split_parse\<close> (the pairs of
  a \<open>Cookie\<close> field, \<open>None\<close> where a pair does not parse), \<open>display\<close> (the pieces its \<open>Display\<close>
  writes, and whether it then fails by itself), \<open>seal\<close> (what a signed or private jar holds
  after an \<open>add\<close>), \<open>open_sealed\<close> (what such a jar verifies), \<open>make_removal\<close> and \<open>derive_from\<close>.
  \<open>url::Host::parse\<close> is the predicate \<open>host_ok\<close>. The \<open>Debug\<close> texts are not modelled.
\<close>

section \<open>Limits\<close>

definition MAX_COOKIE_NAME_BYTES :: nat where "MAX_COOKIE_NAME_BYTES = 256"
definition MAX_COOKIE_VALUE_BYTES :: nat where "MAX_COOKIE_VALUE_BYTES = 4096"
definition MAX_COOKIE_PATH_BYTES :: nat where "MAX_COOKIE_PATH_BYTES = 1024"
definition MAX_COOKIE_DOMAIN_BYTES :: nat where "MAX_COOKIE_DOMAIN_BYTES = 253"
definition MAX_SET_COOKIE_BYTES :: nat where "MAX_SET_COOKIE_BYTES = 4096"
definition MAX_REQUEST_COOKIE_PAIRS :: nat where "MAX_REQUEST_COOKIE_PAIRS = 128"
definition MAX_REQUEST_COOKIE_RETAINED_BYTES :: nat where
  "MAX_REQUEST_COOKIE_RETAINED_BYTES = 64 * 1024"
definition MIN_COOKIE_KEY_BYTES :: nat where "MIN_COOKIE_KEY_BYTES = 32"
definition MAX_COOKIE_PREVIOUS_KEYS :: nat where "MAX_COOKIE_PREVIOUS_KEYS = 3"

lemmas cookie_limits =
  MAX_COOKIE_NAME_BYTES_def MAX_COOKIE_VALUE_BYTES_def MAX_COOKIE_PATH_BYTES_def
  MAX_COOKIE_DOMAIN_BYTES_def MAX_SET_COOKIE_BYTES_def MAX_REQUEST_COOKIE_PAIRS_def
  MAX_REQUEST_COOKIE_RETAINED_BYTES_def MIN_COOKIE_KEY_BYTES_def MAX_COOKIE_PREVIOUS_KEYS_def

section \<open>Data\<close>

datatype CookieSameSite = Strict | Lax | SameSiteNone

datatype ResponseCookieError =
    InvalidName
  | NameTooLong nat
  | InvalidValue
  | ValueTooLong nat
  | InvalidPath
  | PathTooLong nat
  | InvalidDomain
  | DomainTooLong nat
  | MaxAgeOutOfRange
  | SerializedTooLarge nat
  | SerializationFailed

record 'x ResponseCookie =
  rc_name :: string
  rc_value :: string
  rc_secure :: bool
  rc_http_only :: bool
  rc_same_site :: "CookieSameSite option"
  rc_path :: "string option"
  rc_domain :: "string option"
  rc_max_age_seconds :: "int option"
  rc_expires :: "'x option"
  rc_partitioned :: bool

record CookieRemoval =
  rm_name :: string
  rm_path :: "string option"
  rm_domain :: "string option"
  rm_partitioned :: bool

datatype RequestCookieError =
    RequestInvalidName
  | RequestNameTooLong nat
  | Malformed
  | DuplicateCookie
  | TooManyPairs nat
  | RequestValueTooLong nat
  | RetainedBytesExceeded nat

record StoredRequestCookie =
  stored_name :: string
  stored_value :: string

record RequestCookieJar =
  cookies :: "StoredRequestCookie list"
  retained_bytes :: nat

datatype CookieKeyRingError = SecretTooShort nat | TooManyPreviousKeys nat | DuplicateKey

record 'k CookieKeyRing =
  primary :: 'k
  previous :: "'k list"

record SecureCookieValue =
  secure_value :: string
  needs_rotation :: bool

datatype SecureCookieError = Request RequestCookieError | InvalidPayload

datatype SecureCookieKind = Signed | Private

text \<open>A \<open>::cookie::Cookie\<close> as this code fills it in.\<close>

record 'x crate_cookie =
  cc_name :: string
  cc_value :: string
  cc_secure :: bool
  cc_http_only :: bool
  cc_same_site :: "CookieSameSite option"
  cc_path :: "string option"
  cc_domain :: "string option"
  cc_max_age :: "int option"
  cc_expires :: "'x option"
  cc_partitioned :: bool

section \<open>Validation\<close>

definition is_token_byte :: "char \<Rightarrow> bool" where
  "is_token_byte b \<longleftrightarrow> is_ascii_alphanumeric b \<or>
     b \<in> set (''!#$%&'' @ [CHR 0x27] @ ''*+-.^_'' @ [CHR 0x60] @ ''|~'')"

definition is_valid_cookie_value :: "string \<Rightarrow> bool" where
  "is_valid_cookie_value v \<longleftrightarrow> list_all (\<lambda>b.
     byte b = 0x21 \<or> 0x23 \<le> byte b \<and> byte b \<le> 0x2b \<or> 0x2d \<le> byte b \<and> byte b \<le> 0x3a \<or>
     0x3c \<le> byte b \<and> byte b \<le> 0x5b \<or> 0x5d \<le> byte b \<and> byte b \<le> 0x7e) v"

definition validate_name :: "string \<Rightarrow> (ResponseCookieError, unit) result" where
  "validate_name name =
     (if length name > MAX_COOKIE_NAME_BYTES then Err (NameTooLong MAX_COOKIE_NAME_BYTES)
      else if name = [] \<or> \<not> list_all is_token_byte name then Err InvalidName
      else Ok ())"

definition validate_value :: "string \<Rightarrow> (ResponseCookieError, unit) result" where
  "validate_value v =
     (if length v > MAX_COOKIE_VALUE_BYTES then Err (ValueTooLong MAX_COOKIE_VALUE_BYTES)
      else if \<not> is_valid_cookie_value v then Err InvalidValue
      else Ok ())"

definition validate_path :: "string \<Rightarrow> (ResponseCookieError, unit) result" where
  "validate_path path =
     (if length path > MAX_COOKIE_PATH_BYTES then Err (PathTooLong MAX_COOKIE_PATH_BYTES)
      else if \<not> starts_with (CHR ''/'') path \<or>
              list_ex (\<lambda>b. byte b < 0x20 \<or> byte b = 0x7f \<or> b = CHR '';'') path
      then Err InvalidPath
      else Ok ())"

definition is_ascii_whitespace :: "char \<Rightarrow> bool" where
  "is_ascii_whitespace b \<longleftrightarrow> byte b \<in> {0x20, 0x09, 0x0a, 0x0c, 0x0d}"

definition validate_domain :: "(string \<Rightarrow> bool) \<Rightarrow> string \<Rightarrow> (ResponseCookieError, unit) result" where
  "validate_domain host_ok domain =
     (if length domain > MAX_COOKIE_DOMAIN_BYTES then Err (DomainTooLong MAX_COOKIE_DOMAIN_BYTES)
      else
        let normalized = (case strip_prefix (CHR ''.'') domain of Some rest \<Rightarrow> rest | None \<Rightarrow> domain)
        in if normalized = [] \<or> \<not> list_all (\<lambda>b. byte b < 128) domain \<or>
              list_ex (\<lambda>b. is_ascii_whitespace b \<or> is_ascii_control b \<or>
                           b \<in> set ('';/'' @ [CHR 0x5c] @ '':[]'')) domain \<or>
              \<not> host_ok normalized
           then Err InvalidDomain
           else Ok ())"

definition validate_request_name :: "string \<Rightarrow> (RequestCookieError, unit) result" where
  "validate_request_name name =
     (case validate_name name of
        Inr _ \<Rightarrow> Ok ()
      | Inl (NameTooLong limit) \<Rightarrow> Err (RequestNameTooLong limit)
      | Inl _ \<Rightarrow> Err RequestInvalidName)"

definition validate_request_pair :: "string \<Rightarrow> string \<Rightarrow> (RequestCookieError, unit) result" where
  "validate_request_pair name v =
     (case validate_name name of
        Inl _ \<Rightarrow> Err Malformed
      | Inr _ \<Rightarrow>
          if length v > MAX_COOKIE_VALUE_BYTES then Err (RequestValueTooLong MAX_COOKIE_VALUE_BYTES)
          else if \<not> is_valid_cookie_value v then Err Malformed
          else Ok ())"

section \<open>Building a response cookie\<close>

definition new_cookie :: "string \<Rightarrow> string \<Rightarrow> (ResponseCookieError, 'x ResponseCookie) result" where
  "new_cookie name v =
     and_then (validate_name name) (\<lambda>_.
     and_then (validate_value v) (\<lambda>_.
     Ok \<lparr>rc_name = name, rc_value = v, rc_secure = False, rc_http_only = False,
         rc_same_site = None, rc_path = None, rc_domain = None, rc_max_age_seconds = None,
         rc_expires = None, rc_partitioned = False\<rparr>))"

definition secure :: "bool \<Rightarrow> 'x ResponseCookie \<Rightarrow> 'x ResponseCookie" where
  "secure enabled c =
     c\<lparr>rc_secure := enabled \<or> rc_partitioned c \<or> rc_same_site c = Some SameSiteNone\<rparr>"

definition http_only :: "bool \<Rightarrow> 'x ResponseCookie \<Rightarrow> 'x ResponseCookie" where
  "http_only enabled c = c\<lparr>rc_http_only := enabled\<rparr>"

definition same_site :: "CookieSameSite \<Rightarrow> 'x ResponseCookie \<Rightarrow> 'x ResponseCookie" where
  "same_site policy c =
     (let c = c\<lparr>rc_same_site := Some policy\<rparr>
      in if policy = SameSiteNone then c\<lparr>rc_secure := True\<rparr> else c)"

definition path :: "string \<Rightarrow> 'x ResponseCookie \<Rightarrow> (ResponseCookieError, 'x ResponseCookie) result" where
  "path p c = and_then (validate_path p) (\<lambda>_. Ok (c\<lparr>rc_path := Some p\<rparr>))"

definition domain ::
  "(string \<Rightarrow> bool) \<Rightarrow> string \<Rightarrow> 'x ResponseCookie \<Rightarrow> (ResponseCookieError, 'x ResponseCookie) result" where
  "domain host_ok d c = and_then (validate_domain host_ok d) (\<lambda>_. Ok (c\<lparr>rc_domain := Some d\<rparr>))"

text \<open>\<open>i64::try_from\<close> of the whole seconds of the duration.\<close>

definition max_age :: "u64 \<Rightarrow> 'x ResponseCookie \<Rightarrow> (ResponseCookieError, 'x ResponseCookie) result" where
  "max_age seconds c =
     (if unat seconds < 2 ^ 63 then Ok (c\<lparr>rc_max_age_seconds := Some (uint seconds)\<rparr>)
      else Err MaxAgeOutOfRange)"

definition expires :: "'x \<Rightarrow> 'x ResponseCookie \<Rightarrow> 'x ResponseCookie" where
  "expires at c = c\<lparr>rc_expires := Some at\<rparr>"

definition partitioned :: "bool \<Rightarrow> 'x ResponseCookie \<Rightarrow> 'x ResponseCookie" where
  "partitioned enabled c =
     (let c = c\<lparr>rc_partitioned := enabled\<rparr> in if enabled then c\<lparr>rc_secure := True\<rparr> else c)"

definition configured_max_age :: "'x ResponseCookie \<Rightarrow> u64 option" where
  "configured_max_age c = map_option word_of_int (rc_max_age_seconds c)"

section \<open>Rendering\<close>

record BoundedString =
  bs_value :: string
  bs_limit :: nat
  exceeded :: bool

definition bounded_new :: "nat \<Rightarrow> BoundedString" where
  "bounded_new limit = \<lparr>bs_value = [], bs_limit = limit, exceeded = False\<rparr>"

text \<open>The second component is \<open>True\<close> for \<open>Ok\<close>.\<close>

definition write_str :: "string \<Rightarrow> BoundedString \<Rightarrow> BoundedString \<times> bool" where
  "write_str v out =
     (let next_len = length (bs_value out) + length v
      in if next_len \<ge> 2 ^ 64 then (out\<lparr>exceeded := True\<rparr>, False)
         else if next_len > bs_limit out then (out\<lparr>exceeded := True\<rparr>, False)
         else (out\<lparr>bs_value := bs_value out @ v\<rparr>, True))"

text \<open>\<open>write!\<close>: the pieces in order, up to the first refusal of the writer.\<close>

fun write_pieces :: "string list \<Rightarrow> BoundedString \<Rightarrow> BoundedString \<times> bool" where
  "write_pieces [] out = (out, True)"
| "write_pieces (v # rest) out =
     (case write_str v out of
        (out', True) \<Rightarrow> write_pieces rest out'
      | (out', False) \<Rightarrow> (out', False))"

definition render_bounded ::
  "('x crate_cookie \<Rightarrow> string list \<times> bool) \<Rightarrow> 'x crate_cookie \<Rightarrow> (ResponseCookieError, string) result" where
  "render_bounded display cookie =
     (let (pieces, fails) = display cookie;
          (output, written) = write_pieces pieces (bounded_new MAX_SET_COOKIE_BYTES)
      in if \<not> written \<or> fails then
           (if exceeded output then Err (SerializedTooLarge MAX_SET_COOKIE_BYTES)
            else Err SerializationFailed)
         else Ok (bs_value output))"

definition to_cookie :: "'x ResponseCookie \<Rightarrow> 'x crate_cookie" where
  "to_cookie c =
     \<lparr>cc_name = rc_name c, cc_value = rc_value c, cc_secure = rc_secure c,
      cc_http_only = rc_http_only c, cc_same_site = rc_same_site c, cc_path = rc_path c,
      cc_domain = rc_domain c, cc_max_age = rc_max_age_seconds c, cc_expires = rc_expires c,
      cc_partitioned = rc_partitioned c\<rparr>"

definition to_header_value ::
  "('x crate_cookie \<Rightarrow> string list \<times> bool) \<Rightarrow> 'x ResponseCookie \<Rightarrow> (ResponseCookieError, string) result" where
  "to_header_value display c = render_bounded display (to_cookie c)"

definition to_secure_header_value ::
  "('x crate_cookie \<Rightarrow> string list \<times> bool) \<Rightarrow>
   (SecureCookieKind \<Rightarrow> 'k \<Rightarrow> 'x crate_cookie \<Rightarrow> 'x crate_cookie option) \<Rightarrow>
   'k CookieKeyRing \<Rightarrow> SecureCookieKind \<Rightarrow> 'x ResponseCookie \<Rightarrow> (ResponseCookieError, string) result" where
  "to_secure_header_value display seal ring kind c =
     (case seal kind (primary ring) (to_cookie c) of
        None \<Rightarrow> Err SerializationFailed
      | Some cookie \<Rightarrow> render_bounded display cookie)"

definition to_signed_header_value ::
  "('x crate_cookie \<Rightarrow> string list \<times> bool) \<Rightarrow>
   (SecureCookieKind \<Rightarrow> 'k \<Rightarrow> 'x crate_cookie \<Rightarrow> 'x crate_cookie option) \<Rightarrow>
   'k CookieKeyRing \<Rightarrow> 'x ResponseCookie \<Rightarrow> (ResponseCookieError, string) result" where
  "to_signed_header_value display seal ring c = to_secure_header_value display seal ring Signed c"

definition to_private_header_value ::
  "('x crate_cookie \<Rightarrow> string list \<times> bool) \<Rightarrow>
   (SecureCookieKind \<Rightarrow> 'k \<Rightarrow> 'x crate_cookie \<Rightarrow> 'x crate_cookie option) \<Rightarrow>
   'k CookieKeyRing \<Rightarrow> 'x ResponseCookie \<Rightarrow> (ResponseCookieError, string) result" where
  "to_private_header_value display seal ring c = to_secure_header_value display seal ring Private c"

section \<open>Removal cookies\<close>

definition new_removal :: "string \<Rightarrow> (ResponseCookieError, CookieRemoval) result" where
  "new_removal name = and_then (validate_name name) (\<lambda>_.
     Ok \<lparr>rm_name = name, rm_path = None, rm_domain = None, rm_partitioned = False\<rparr>)"

definition removal_path :: "string \<Rightarrow> CookieRemoval \<Rightarrow> (ResponseCookieError, CookieRemoval) result" where
  "removal_path p r = and_then (validate_path p) (\<lambda>_. Ok (r\<lparr>rm_path := Some p\<rparr>))"

definition removal_domain ::
  "(string \<Rightarrow> bool) \<Rightarrow> string \<Rightarrow> CookieRemoval \<Rightarrow> (ResponseCookieError, CookieRemoval) result" where
  "removal_domain host_ok d r = and_then (validate_domain host_ok d) (\<lambda>_. Ok (r\<lparr>rm_domain := Some d\<rparr>))"

definition removal_partitioned :: "bool \<Rightarrow> CookieRemoval \<Rightarrow> CookieRemoval" where
  "removal_partitioned enabled r = r\<lparr>rm_partitioned := enabled\<rparr>"

definition removal_header_value ::
  "('x crate_cookie \<Rightarrow> string list \<times> bool) \<Rightarrow> ('x crate_cookie \<Rightarrow> 'x crate_cookie) \<Rightarrow>
   CookieRemoval \<Rightarrow> (ResponseCookieError, string) result" where
  "removal_header_value display make_removal r =
     render_bounded display (make_removal
       \<lparr>cc_name = rm_name r, cc_value = [], cc_secure = False, cc_http_only = False,
        cc_same_site = None, cc_path = rm_path r, cc_domain = rm_domain r, cc_max_age = None,
        cc_expires = None, cc_partitioned = rm_partitioned r\<rparr>)"

section \<open>The request jar\<close>

definition checked_add_usize :: "nat \<Rightarrow> nat \<Rightarrow> nat option" where
  "checked_add_usize a b = (if a + b < 2 ^ 64 then Some (a + b) else None)"

definition store_pair ::
  "(string \<times> string) option \<Rightarrow> RequestCookieJar \<Rightarrow> (RequestCookieError, RequestCookieJar) result" where
  "store_pair parsed jar =
     (if length (cookies jar) = MAX_REQUEST_COOKIE_PAIRS
      then Err (TooManyPairs MAX_REQUEST_COOKIE_PAIRS)
      else
        (case parsed of
           None \<Rightarrow> Err Malformed
         | Some (name, v) \<Rightarrow>
             and_then (validate_request_pair name v) (\<lambda>_.
             case checked_add_usize (length name) (length v) of
               None \<Rightarrow> Err (RetainedBytesExceeded MAX_REQUEST_COOKIE_RETAINED_BYTES)
             | Some pair_bytes \<Rightarrow>
                 (case checked_add_usize (retained_bytes jar) pair_bytes of
                    None \<Rightarrow> Err (RetainedBytesExceeded MAX_REQUEST_COOKIE_RETAINED_BYTES)
                  | Some retained \<Rightarrow>
                      if retained > MAX_REQUEST_COOKIE_RETAINED_BYTES
                      then Err (RetainedBytesExceeded MAX_REQUEST_COOKIE_RETAINED_BYTES)
                      else Ok \<lparr>cookies = cookies jar @ [\<lparr>stored_name = name, stored_value = v\<rparr>],
                              retained_bytes = retained\<rparr>))))"

fun store_pairs ::
  "(string \<times> string) option list \<Rightarrow> RequestCookieJar \<Rightarrow> (RequestCookieError, RequestCookieJar) result" where
  "store_pairs [] jar = Ok jar"
| "store_pairs (parsed # rest) jar = and_then (store_pair parsed jar) (\<lambda>jar. store_pairs rest jar)"

fun parse_fields ::
  "(string \<Rightarrow> (string \<times> string) option list) \<Rightarrow> string list \<Rightarrow> RequestCookieJar
     \<Rightarrow> (RequestCookieError, RequestCookieJar) result" where
  "parse_fields split_parse [] jar = Ok jar"
| "parse_fields split_parse (field # rest) jar =
     (if is_blank field \<or> list_ex is_blank (split_on (CHR '';'') field) then Err Malformed
      else and_then (store_pairs (split_parse field) jar) (\<lambda>jar. parse_fields split_parse rest jar))"

definition parse_jar ::
  "(string \<Rightarrow> (string \<times> string) option list) \<Rightarrow> string list \<Rightarrow> (RequestCookieError, RequestCookieJar) result" where
  "parse_jar split_parse field_values = parse_fields split_parse field_values \<lparr>cookies = [], retained_bytes = 0\<rparr>"

fun get_loop ::
  "string \<Rightarrow> string option \<Rightarrow> StoredRequestCookie list \<Rightarrow> (RequestCookieError, string option) result" where
  "get_loop name matched [] = Ok matched"
| "get_loop name matched (c # rest) =
     (if stored_name c = name then
        (if matched \<noteq> None then Err DuplicateCookie else get_loop name (Some (stored_value c)) rest)
      else get_loop name matched rest)"

definition jar_get :: "RequestCookieJar \<Rightarrow> string \<Rightarrow> (RequestCookieError, string option) result" where
  "jar_get jar name = and_then (validate_request_name name) (\<lambda>_. get_loop name None (cookies jar))"

definition jar_len :: "RequestCookieJar \<Rightarrow> nat" where
  "jar_len jar = length (cookies jar)"

definition jar_is_empty :: "RequestCookieJar \<Rightarrow> bool" where
  "jar_is_empty jar \<longleftrightarrow> cookies jar = []"

section \<open>Key rings and secure cookies\<close>

definition derive_cookie_key :: "(string \<Rightarrow> 'k) \<Rightarrow> string \<Rightarrow> (CookieKeyRingError, 'k) result" where
  "derive_cookie_key derive_from secret =
     (if length secret < MIN_COOKIE_KEY_BYTES then Err (SecretTooShort MIN_COOKIE_KEY_BYTES)
      else Ok (derive_from secret))"

definition new_key_ring :: "(string \<Rightarrow> 'k) \<Rightarrow> string \<Rightarrow> (CookieKeyRingError, 'k CookieKeyRing) result" where
  "new_key_ring derive_from secret =
     and_then (derive_cookie_key derive_from secret) (\<lambda>key. Ok \<lparr>primary = key, previous = []\<rparr>)"

definition with_previous ::
  "(string \<Rightarrow> 'k) \<Rightarrow> string \<Rightarrow> 'k CookieKeyRing \<Rightarrow> (CookieKeyRingError, 'k CookieKeyRing) result" where
  "with_previous derive_from secret ring =
     (if length (previous ring) = MAX_COOKIE_PREVIOUS_KEYS
      then Err (TooManyPreviousKeys MAX_COOKIE_PREVIOUS_KEYS)
      else and_then (derive_cookie_key derive_from secret) (\<lambda>key.
        if key = primary ring \<or> list_ex (\<lambda>k. k = key) (previous ring) then Err DuplicateKey
        else Ok (ring\<lparr>previous := previous ring @ [key]\<rparr>)))"

definition ring_keys :: "'k CookieKeyRing \<Rightarrow> ('k \<times> bool) list" where
  "ring_keys ring = (primary ring, False) # map (\<lambda>key. (key, True)) (previous ring)"

fun try_keys ::
  "(SecureCookieKind \<Rightarrow> 'k \<Rightarrow> string \<Rightarrow> string \<Rightarrow> string option) \<Rightarrow> SecureCookieKind \<Rightarrow> string \<Rightarrow> string
     \<Rightarrow> ('k \<times> bool) list \<Rightarrow> (SecureCookieError, SecureCookieValue option) result" where
  "try_keys open_sealed kind name wire [] = Err InvalidPayload"
| "try_keys open_sealed kind name wire ((key, rotation) # rest) =
     (case open_sealed kind key name wire of
        Some v \<Rightarrow>
          (case validate_value v of
             Inl _ \<Rightarrow> Err InvalidPayload
           | Inr _ \<Rightarrow> Ok (Some \<lparr>secure_value = v, needs_rotation = rotation\<rparr>))
      | None \<Rightarrow> try_keys open_sealed kind name wire rest)"

definition read_secure_cookie ::
  "(SecureCookieKind \<Rightarrow> 'k \<Rightarrow> string \<Rightarrow> string \<Rightarrow> string option) \<Rightarrow> RequestCookieJar \<Rightarrow> 'k CookieKeyRing
     \<Rightarrow> string \<Rightarrow> SecureCookieKind \<Rightarrow> (SecureCookieError, SecureCookieValue option) result" where
  "read_secure_cookie open_sealed jar ring name kind =
     (case jar_get jar name of
        Inl e \<Rightarrow> Err (Request e)
      | Inr None \<Rightarrow> Ok None
      | Inr (Some wire) \<Rightarrow> try_keys open_sealed kind name wire (ring_keys ring))"

section \<open>What a built cookie guarantees\<close>

text \<open>The cookies the builder can produce.\<close>

inductive built :: "(string \<Rightarrow> bool) \<Rightarrow> 'x ResponseCookie \<Rightarrow> bool" for host_ok where
  built_new: "new_cookie name v = Ok c \<Longrightarrow> built host_ok c"
| built_secure: "built host_ok c \<Longrightarrow> built host_ok (secure enabled c)"
| built_http_only: "built host_ok c \<Longrightarrow> built host_ok (http_only enabled c)"
| built_same_site: "built host_ok c \<Longrightarrow> built host_ok (same_site policy c)"
| built_path: "built host_ok c \<Longrightarrow> path p c = Ok c' \<Longrightarrow> built host_ok c'"
| built_domain: "built host_ok c \<Longrightarrow> domain host_ok d c = Ok c' \<Longrightarrow> built host_ok c'"
| built_max_age: "built host_ok c \<Longrightarrow> max_age seconds c = Ok c' \<Longrightarrow> built host_ok c'"
| built_expires: "built host_ok c \<Longrightarrow> built host_ok (expires at c)"
| built_partitioned: "built host_ok c \<Longrightarrow> built host_ok (partitioned enabled c)"

text \<open>A string that cannot end its attribute or its header line.\<close>

definition attribute_safe :: "string \<Rightarrow> bool" where
  "attribute_safe s \<longleftrightarrow> list_all (\<lambda>b. \<not> is_ascii_control b \<and> b \<noteq> CHR '';'') s"

definition cookie_invar :: "'x ResponseCookie \<Rightarrow> bool" where
  "cookie_invar c \<longleftrightarrow>
     validate_name (rc_name c) = Ok () \<and> validate_value (rc_value c) = Ok () \<and>
     pred_option (\<lambda>p. validate_path p = Ok ()) (rc_path c) \<and>
     pred_option attribute_safe (rc_domain c) \<and>
     pred_option (\<lambda>s. 0 \<le> s \<and> s < 2 ^ 63) (rc_max_age_seconds c) \<and>
     (rc_partitioned c \<or> rc_same_site c = Some SameSiteNone \<longrightarrow> rc_secure c)"

lemma token_byte_safe: "is_token_byte b \<Longrightarrow> \<not> is_ascii_control b \<and> b \<noteq> CHR '';''"
proof -
  assume token: "is_token_byte b"
  have "\<not> is_token_byte (CHR '';'')"
    by (simp add: is_token_byte_def is_ascii_alphanumeric_def is_ascii_alphabetic_def)
  moreover have "0x21 \<le> byte b \<and> byte b \<le> 0x7e"
    using token unfolding is_token_byte_def is_ascii_alphanumeric_def is_ascii_alphabetic_def
    by (elim disjE) (simp_all, elim disjE, simp_all)
  ultimately show ?thesis using token by (auto simp: is_ascii_control_def)
qed

lemma name_safe: "validate_name s = Ok () \<Longrightarrow> attribute_safe s"
  by (auto simp: validate_name_def attribute_safe_def list_all_iff token_byte_safe split: if_splits)

lemma value_safe: "validate_value s = Ok () \<Longrightarrow> attribute_safe s"
proof -
  assume "validate_value s = Ok ()"
  then have "is_valid_cookie_value s" by (simp add: validate_value_def split: if_splits)
  then show ?thesis
    unfolding is_valid_cookie_value_def attribute_safe_def is_ascii_control_def
    by (elim list.pred_mono_strong) auto
qed

lemma path_safe: "validate_path s = Ok () \<Longrightarrow> attribute_safe s"
  by (auto simp: validate_path_def attribute_safe_def list_all_iff list_ex_iff is_ascii_control_def
      split: if_splits)

lemma domain_safe: "validate_domain host_ok s = Ok () \<Longrightarrow> attribute_safe s"
proof -
  define bad where "bad b \<longleftrightarrow> is_ascii_whitespace b \<or> is_ascii_control b \<or>
      b \<in> set ('';/'' @ [CHR 0x5c] @ '':[]'')" for b
  assume "validate_domain host_ok s = Ok ()"
  then have "\<not> list_ex bad s"
    unfolding validate_domain_def Let_def bad_def[abs_def, symmetric] by (auto split: if_splits)
  moreover have "bad b" if "is_ascii_control b \<or> b = CHR '';''" for b
    using that by (elim disjE) (simp_all add: bad_def)
  ultimately show ?thesis by (auto simp: attribute_safe_def list_ex_iff list_all_iff)
qed

lemma uint_less_of_unat: "unat w < 2 ^ n \<Longrightarrow> uint w < 2 ^ n"
  by (metis of_nat_less_iff of_nat_numeral of_nat_power uint_nat)

lemma built_invar: "built host_ok c \<Longrightarrow> cookie_invar c"
proof (induction rule: built.induct)
  case (built_max_age c seconds c')
  then have "c' = c\<lparr>rc_max_age_seconds := Some (uint seconds)\<rparr>" "uint seconds < 2 ^ 63"
    using uint_less_of_unat[of seconds 63] by (auto simp: max_age_def split: if_splits)
  with built_max_age.IH show ?case by (simp add: cookie_invar_def)
next
  case (built_domain c d c')
  then have "c' = c\<lparr>rc_domain := Some d\<rparr>" "attribute_safe d"
    using domain_safe[of host_ok d] by (auto simp: domain_def)
  with built_domain.IH show ?case by (simp add: cookie_invar_def)
qed (auto simp: cookie_invar_def secure_def http_only_def same_site_def path_def expires_def
    partitioned_def new_cookie_def Let_def)

text \<open>
  C12. Whatever order the builder methods are called in, a response cookie that is
  partitioned or \<open>SameSite=None\<close> is secure, and none of its strings contains a control byte
  or a semicolon: a caller can neither downgrade such a cookie nor inject an attribute or a
  header line through a name, value, path or domain.
\<close>

theorem built_cookie_safe:
  assumes "built host_ok c"
  shows "(rc_partitioned c \<or> rc_same_site c = Some SameSiteNone \<longrightarrow> rc_secure c) \<and>
    attribute_safe (rc_name c) \<and> attribute_safe (rc_value c) \<and>
    pred_option attribute_safe (rc_path c) \<and> pred_option attribute_safe (rc_domain c)"
  using built_invar[OF assms] name_safe value_safe path_safe
  by (auto simp: cookie_invar_def option.pred_set)

section \<open>Bounded rendering\<close>

lemma write_pieces_result:
  assumes "length (bs_value out) \<le> bs_limit out" and "bs_limit out < 2 ^ 64"
  shows "if length (bs_value out) + length (concat ps) \<le> bs_limit out
     then write_pieces ps out = (out\<lparr>bs_value := bs_value out @ concat ps\<rparr>, True)
     else \<exists>out'. write_pieces ps out = (out', False) \<and> exceeded out'"
  using assms
proof (induction ps arbitrary: out)
  case (Cons v ps)
  show ?case
  proof (cases "length (bs_value out) + length v \<le> bs_limit out")
    case True
    define out' where "out' = out\<lparr>bs_value := bs_value out @ v\<rparr>"
    have "write_pieces (v # ps) out = write_pieces ps out'"
      using True Cons.prems by (simp add: write_str_def out'_def)
    with Cons.IH[of out'] Cons.prems True show ?thesis by (auto simp: out'_def)
  next
    case False
    with Cons.prems show ?thesis by (simp add: write_str_def Let_def)
  qed
qed simp

text \<open>
  C13. Rendering never emits more than 4096 bytes, and truncates nothing: the header value
  is everything the cookie displays when that fits, and an error otherwise.
\<close>

theorem render_bounded_exact:
  "render_bounded display cookie =
     (case display cookie of (pieces, fails) \<Rightarrow>
        if length (concat pieces) > MAX_SET_COOKIE_BYTES then Err (SerializedTooLarge MAX_SET_COOKIE_BYTES)
        else if fails then Err SerializationFailed
        else Ok (concat pieces))"
  using write_pieces_result[of "bounded_new MAX_SET_COOKIE_BYTES" "fst (display cookie)"]
  by (cases "display cookie")
    (auto simp: render_bounded_def bounded_new_def cookie_limits split: prod.splits if_splits)

section \<open>The jar holds what the request declared\<close>

definition pair_bytes :: "StoredRequestCookie \<Rightarrow> nat" where
  "pair_bytes c = length (stored_name c) + length (stored_value c)"

definition jar_invar :: "RequestCookieJar \<Rightarrow> bool" where
  "jar_invar jar \<longleftrightarrow> length (cookies jar) \<le> MAX_REQUEST_COOKIE_PAIRS \<and>
     retained_bytes jar = sum_list (map pair_bytes (cookies jar)) \<and>
     retained_bytes jar \<le> MAX_REQUEST_COOKIE_RETAINED_BYTES \<and>
     (\<forall>c\<in>set (cookies jar). validate_name (stored_name c) = Ok () \<and> validate_value (stored_value c) = Ok ())"

abbreviation wire_pair :: "StoredRequestCookie \<Rightarrow> (string \<times> string) option" where
  "wire_pair c \<equiv> Some (stored_name c, stored_value c)"

lemma validate_request_pair_Ok:
  "validate_request_pair name v = Ok () \<longleftrightarrow> validate_name name = Ok () \<and> validate_value v = Ok ()"
  by (auto simp: validate_request_pair_def validate_value_def split: sum.splits)

lemma store_pair_Ok:
  assumes "store_pair p jar = Ok jar'" and "jar_invar jar"
  shows "jar_invar jar' \<and> (\<exists>c. p = wire_pair c \<and> cookies jar' = cookies jar @ [c])"
proof -
  obtain name v where p: "p = Some (name, v)" and ne: "length (cookies jar) \<noteq> MAX_REQUEST_COOKIE_PAIRS"
    and valid: "validate_request_pair name v = Ok ()"
    and jar': "jar' = \<lparr>cookies = cookies jar @ [\<lparr>stored_name = name, stored_value = v\<rparr>],
      retained_bytes = retained_bytes jar + (length name + length v)\<rparr>"
    and le: "retained_bytes jar + (length name + length v) \<le> MAX_REQUEST_COOKIE_RETAINED_BYTES"
    using assms(1)
    by (auto simp: store_pair_def checked_add_usize_def split: if_splits option.splits)
  from valid ne le assms(2) have "jar_invar jar'"
    by (auto simp: jar_invar_def jar' pair_bytes_def validate_request_pair_Ok)
  with p jar' show ?thesis by (intro conjI exI[of _ "\<lparr>stored_name = name, stored_value = v\<rparr>"]) simp_all
qed

lemma store_pairs_Ok:
  "store_pairs ps jar = Ok jar' \<Longrightarrow> jar_invar jar \<Longrightarrow>
   jar_invar jar' \<and> map wire_pair (cookies jar') = map wire_pair (cookies jar) @ ps"
proof (induction ps arbitrary: jar)
  case (Cons p ps)
  then obtain jar1 where jar1: "store_pair p jar = Ok jar1" "store_pairs ps jar1 = Ok jar'" by auto
  from store_pair_Ok[OF jar1(1) Cons.prems(2)] obtain c where
    c: "jar_invar jar1" "p = wire_pair c" "cookies jar1 = cookies jar @ [c]" by auto
  with Cons.IH[OF jar1(2)] show ?case by simp
qed simp

lemma parse_fields_Ok:
  "parse_fields split_parse fs jar = Ok jar' \<Longrightarrow> jar_invar jar \<Longrightarrow>
   jar_invar jar' \<and> map wire_pair (cookies jar') = map wire_pair (cookies jar) @ concat (map split_parse fs)"
proof (induction fs arbitrary: jar)
  case (Cons f fs)
  then obtain jar1 where jar1: "store_pairs (split_parse f) jar = Ok jar1"
    "parse_fields split_parse fs jar1 = Ok jar'" by (auto split: if_splits)
  from store_pairs_Ok[OF jar1(1) Cons.prems(2)] Cons.IH[OF jar1(2)] show ?case by simp
qed simp

text \<open>
  C14. A parsed jar holds every pair of every \<open>Cookie\<close> field, in declaration order, and
  nothing else; it never exceeds 128 pairs or 64 KiB, its byte counter is exact, and every
  retained name and value is well formed.
\<close>

theorem parse_jar_sound:
  assumes "parse_jar split_parse field_values = Ok jar"
  shows "map wire_pair (cookies jar) = concat (map split_parse field_values) \<and>
    jar_len jar \<le> 128 \<and> retained_bytes jar = sum_list (map pair_bytes (cookies jar)) \<and>
    retained_bytes jar \<le> 65536 \<and>
    list_all (\<lambda>c. validate_name (stored_name c) = Ok () \<and> validate_value (stored_value c) = Ok ()) (cookies jar)"
  using parse_fields_Ok[OF assms[unfolded parse_jar_def]]
  by (auto simp: jar_invar_def cookie_limits jar_len_def list_all_iff)

lemma get_loop_exact:
  "get_loop name m cs =
     (case (case m of None \<Rightarrow> [] | Some v \<Rightarrow> [v]) @ map stored_value (filter (\<lambda>c. stored_name c = name) cs) of
        [] \<Rightarrow> Ok None | [v] \<Rightarrow> Ok (Some v) | _ \<Rightarrow> Err DuplicateCookie)"
  by (induction name m cs rule: get_loop.induct) (auto split: option.splits list.splits)

text \<open>
  Looking a cookie up never picks one of several: after the name check the answer is
  the value of the only cookie of that name, nothing when there is none, and an error when
  the request repeats the name.
\<close>

theorem jar_get_exact:
  "jar_get jar name =
     and_then (validate_request_name name) (\<lambda>_.
       case map stored_value (filter (\<lambda>c. stored_name c = name) (cookies jar)) of
         [] \<Rightarrow> Ok None
       | [v] \<Rightarrow> Ok (Some v)
       | _ \<Rightarrow> Err DuplicateCookie)"
  by (simp add: jar_get_def get_loop_exact)

section \<open>Key rotation\<close>

definition ring_invar :: "'k CookieKeyRing \<Rightarrow> bool" where
  "ring_invar ring \<longleftrightarrow> distinct (primary ring # previous ring) \<and> length (previous ring) \<le> MAX_COOKIE_PREVIOUS_KEYS"

fun key_ring :: "(string \<Rightarrow> 'k) \<Rightarrow> string \<Rightarrow> string list \<Rightarrow> (CookieKeyRingError, 'k CookieKeyRing) result" where
  "key_ring derive_from secret olds =
     foldl (\<lambda>r old. and_then r (with_previous derive_from old)) (new_key_ring derive_from secret) olds"

lemma with_previous_invar:
  "with_previous derive_from old ring = Ok ring' \<Longrightarrow> ring_invar ring \<Longrightarrow> ring_invar ring'"
  by (auto simp: with_previous_def ring_invar_def list_ex_iff split: if_splits)

lemma key_ring_invar: "key_ring derive_from secret olds = Ok ring \<Longrightarrow> ring_invar ring"
proof (induction olds arbitrary: ring rule: rev_induct)
  case Nil
  then show ?case by (auto simp: new_key_ring_def ring_invar_def)
next
  case (snoc old olds)
  then show ?case by (auto intro: with_previous_invar)
qed

lemma try_keys_skip:
  "\<forall>(k, r)\<in>set ks. open_sealed kind k name wire = None \<Longrightarrow>
   try_keys open_sealed kind name wire (ks @ rest) = try_keys open_sealed kind name wire rest"
  by (induction ks) auto

lemma try_keys_none:
  "\<forall>(k, r)\<in>set ks. open_sealed kind k name wire = None \<Longrightarrow>
   try_keys open_sealed kind name wire ks = Err InvalidPayload"
  using try_keys_skip[of ks open_sealed kind name wire "[]"] by simp

lemma ring_keys_split:
  assumes "ring_invar ring" and "k \<in> insert (primary ring) (set (previous ring))"
  obtains as bs where "ring_keys ring = as @ (k, k \<noteq> primary ring) # bs" and "\<forall>(k', r)\<in>set as. k' \<noteq> k"
proof (cases "k = primary ring")
  case True
  then show ?thesis using that[of "[]"] by (simp add: ring_keys_def)
next
  case False
  with assms obtain xs ys where "previous ring = xs @ k # ys" "k \<notin> set xs"
    by (auto dest: split_list_first)
  with False that[of "(primary ring, False) # map (\<lambda>k. (k, True)) xs"] show ?thesis
    by (auto simp: ring_keys_def)
qed

text \<open>
  C15. Key rotation. Take a crypto layer that opens what the same key sealed and refuses
  what another key sealed. A cookie sealed with any key of the ring reads back with its
  value, and is flagged for rotation exactly when the key is not the primary one; a cookie
  sealed with a key outside the ring is rejected.
\<close>

theorem secure_cookie_rotation:
  assumes opens: "\<And>k c c'. seal kind k c = Some c' \<Longrightarrow>
      open_sealed kind k (cc_name c) (cc_value c') = Some (cc_value c)"
    and refuses: "\<And>k k' c c'. seal kind k c = Some c' \<Longrightarrow> k' \<noteq> k \<Longrightarrow>
      open_sealed kind k' (cc_name c) (cc_value c') = None"
    and ring: "key_ring derive_from secret olds = Ok ring"
    and cookie: "built host_ok c" and sealed: "seal kind k (to_cookie c) = Some c'"
    and sent: "jar_get jar (rc_name c) = Ok (Some (cc_value c'))"
  shows "read_secure_cookie open_sealed jar ring (rc_name c) kind =
    (if k \<in> insert (primary ring) (set (previous ring))
     then Ok (Some \<lparr>secure_value = rc_value c, needs_rotation = (k \<noteq> primary ring)\<rparr>)
     else Err InvalidPayload)"
proof -
  have valid: "validate_value (rc_value c) = Ok ()"
    using built_invar[OF cookie] by (simp add: cookie_invar_def)
  have own: "open_sealed kind k (rc_name c) (cc_value c') = Some (rc_value c)"
    and other: "\<And>k'. k' \<noteq> k \<Longrightarrow> open_sealed kind k' (rc_name c) (cc_value c') = None"
    using opens[OF sealed] refuses[OF sealed] by (simp_all add: to_cookie_def)
  show ?thesis
  proof (cases "k \<in> insert (primary ring) (set (previous ring))")
    case True
    obtain as bs where "ring_keys ring = as @ (k, k \<noteq> primary ring) # bs" "\<forall>(k', r)\<in>set as. k' \<noteq> k"
      using ring_keys_split[OF key_ring_invar[OF ring] True] .
    with True sent own valid other show ?thesis
      by (auto simp: read_secure_cookie_def try_keys_skip split_beta)
  next
    case False
    with other have "\<forall>(k', r)\<in>set (ring_keys ring). open_sealed kind k' (rc_name c) (cc_value c') = None"
      by (auto simp: ring_keys_def intro!: other)
    with False sent show ?thesis by (simp add: read_secure_cookie_def try_keys_none)
  qed
qed

section \<open>Concrete cookies\<close>

lemmas token_simps = is_token_byte_def is_ascii_alphanumeric_def is_ascii_alphabetic_def

definition sid_cookie :: "nat ResponseCookie" where
  "sid_cookie = \<lparr>rc_name = ''sid'', rc_value = ''v1'', rc_secure = False, rc_http_only = False,
     rc_same_site = None, rc_path = None, rc_domain = None, rc_max_age_seconds = None,
     rc_expires = None, rc_partitioned = False\<rparr>"

lemma sid_cookie_new: "new_cookie ''sid'' ''v1'' = Ok sid_cookie"
  by (simp add: new_cookie_def sid_cookie_def validate_name_def validate_value_def token_simps
      is_valid_cookie_value_def cookie_limits)

definition pinned_cookie :: "nat ResponseCookie" where
  "pinned_cookie = secure False (partitioned True (same_site SameSiteNone sid_cookie))"

lemma pinned_cookie_built: "built (\<lambda>h. True) pinned_cookie"
  unfolding pinned_cookie_def
  by (intro built_secure built_partitioned built_same_site built_new[OF sid_cookie_new])

theorem built_cookie_safe_witness:
  "built (\<lambda>h. True) pinned_cookie \<and> rc_partitioned pinned_cookie \<and> rc_secure pinned_cookie \<and>
   attribute_safe (rc_name pinned_cookie)"
proof -
  have "rc_partitioned pinned_cookie"
    by (simp add: pinned_cookie_def secure_def partitioned_def same_site_def sid_cookie_def)
  with built_cookie_safe[OF pinned_cookie_built] pinned_cookie_built show ?thesis by blast
qed

text \<open>A splitter for fields of the shape \<open>name=value; name=value\<close>.\<close>

definition demo_split :: "string \<Rightarrow> (string \<times> string) option list" where
  "demo_split f = map (\<lambda>p. case split_on (CHR ''='') (dropWhile (\<lambda>c. c = CHR '' '') p) of
     [n, v] \<Rightarrow> Some (n, v) | _ \<Rightarrow> None) (split_on (CHR '';'') f)"

definition demo_jar :: RequestCookieJar where
  "demo_jar = \<lparr>cookies = [\<lparr>stored_name = ''a'', stored_value = ''1''\<rparr>,
     \<lparr>stored_name = ''sid'', stored_value = ''Bv1''\<rparr>], retained_bytes = 8\<rparr>"

lemma demo_jar_parsed: "parse_jar demo_split [''a=1; sid=Bv1''] = Ok demo_jar"
  by (simp add: parse_jar_def demo_split_def demo_jar_def store_pair_def validate_request_pair_def
      validate_name_def token_simps is_valid_cookie_value_def cookie_limits checked_add_usize_def)

theorem parse_jar_sound_witness:
  "parse_jar demo_split [''a=1; sid=Bv1''] = Ok demo_jar \<and>
   map wire_pair (cookies demo_jar) = concat (map demo_split [''a=1; sid=Bv1'']) \<and>
   retained_bytes demo_jar = sum_list (map pair_bytes (cookies demo_jar))"
  using parse_jar_sound[OF demo_jar_parsed] demo_jar_parsed by blast

text \<open>A toy crypto layer: the key is prefixed to the value.\<close>

definition demo_seal :: "SecureCookieKind \<Rightarrow> char \<Rightarrow> nat crate_cookie \<Rightarrow> nat crate_cookie option" where
  "demo_seal kind k c = Some (c\<lparr>cc_value := k # cc_value c\<rparr>)"

definition demo_open :: "SecureCookieKind \<Rightarrow> char \<Rightarrow> string \<Rightarrow> string \<Rightarrow> string option" where
  "demo_open kind k name wire = (case wire of [] \<Rightarrow> None | x # v \<Rightarrow> if x = k then Some v else None)"

definition demo_ring :: "char CookieKeyRing" where
  "demo_ring = \<lparr>primary = CHR ''A'', previous = [CHR ''B'']\<rparr>"

lemma demo_ring_built:
  "key_ring hd (replicate 32 (CHR ''A'')) [replicate 32 (CHR ''B'')] = Ok demo_ring"
  by (simp add: new_key_ring_def with_previous_def derive_cookie_key_def demo_ring_def cookie_limits)

theorem secure_cookie_rotation_witness:
  "jar_get demo_jar (rc_name sid_cookie) = Ok (Some ''Bv1'') \<and>
   read_secure_cookie demo_open demo_jar demo_ring (rc_name sid_cookie) Signed =
     Ok (Some \<lparr>secure_value = ''v1'', needs_rotation = True\<rparr>)"
proof -
  have get: "jar_get demo_jar (rc_name sid_cookie) = Ok (Some ''Bv1'')"
    by (simp add: jar_get_def validate_request_name_def validate_name_def token_simps cookie_limits
        demo_jar_def sid_cookie_def)
  have "read_secure_cookie demo_open demo_jar demo_ring (rc_name sid_cookie) Signed =
    (if CHR ''B'' \<in> insert (primary demo_ring) (set (previous demo_ring))
     then Ok (Some \<lparr>secure_value = rc_value sid_cookie, needs_rotation = (CHR ''B'' \<noteq> primary demo_ring)\<rparr>)
     else Err InvalidPayload)"
  proof (rule secure_cookie_rotation[where seal = demo_seal])
    show "key_ring hd (replicate 32 (CHR ''A'')) [replicate 32 (CHR ''B'')] = Ok demo_ring"
      by (rule demo_ring_built)
    show "built (\<lambda>h. True) sid_cookie" by (rule built_new[OF sid_cookie_new])
    show "demo_seal Signed (CHR ''B'') (to_cookie sid_cookie) =
        Some ((to_cookie sid_cookie)\<lparr>cc_value := ''Bv1''\<rparr>)"
      by (simp add: demo_seal_def to_cookie_def sid_cookie_def)
  qed (use get demo_ring_built in \<open>auto simp: demo_seal_def demo_open_def\<close>)
  with get show ?thesis by (simp add: demo_ring_def sid_cookie_def)
qed

end
