(* ===== verification/Url_Encoded.thy ===== *)
theory Url_Encoded
  imports Lily_Prelude
begin

text \<open>
  URL-encoded data: the query decoder \<^verbatim>\<open>lily_web_core/src/request/query.rs\<close> and the form
  decoder \<^verbatim>\<open>lily_web_core/src/request/form.rs\<close>, both insertion-ordered multimaps with an index
  from names to positions. A string is the list of its bytes; \<open>String::from_utf8\<close> is modelled
  with the well-formed byte sequences of UTF-8. The codecs of the \<open>percent_encoding\<close> and
  \<open>url\<close> crates, which the form decoder calls, are parameters.
\<close>

section \<open>UTF-8\<close>

definition is_continuation :: "char \<Rightarrow> bool" where
  "is_continuation c \<longleftrightarrow> 0x80 \<le> byte c \<and> byte c \<le> 0xbf"

text \<open>
  The length of the well-formed sequence a string starts with, if it does: the first byte gives
  the number of continuation bytes and narrows the range of the first of them.
\<close>

definition utf8_trailing :: "char \<Rightarrow> nat" where
  "utf8_trailing a =
     (if 0xc2 \<le> byte a \<and> byte a \<le> 0xdf then 1
      else if 0xe0 \<le> byte a \<and> byte a \<le> 0xef then 2
      else if 0xf0 \<le> byte a \<and> byte a \<le> 0xf4 then 3
      else 0)"

definition utf8_second_ok :: "char \<Rightarrow> char \<Rightarrow> bool" where
  "utf8_second_ok a b \<longleftrightarrow>
     (byte a = 0xe0 \<longrightarrow> 0xa0 \<le> byte b) \<and> (byte a = 0xed \<longrightarrow> byte b \<le> 0x9f)
     \<and> (byte a = 0xf0 \<longrightarrow> 0x90 \<le> byte b) \<and> (byte a = 0xf4 \<longrightarrow> byte b \<le> 0x8f)"

fun utf8_width :: "string \<Rightarrow> nat option" where
  "utf8_width [] = None"
| "utf8_width (a # s) =
     (if byte a < 0x80 then Some 1
      else let n = utf8_trailing a
        in if 0 < n \<and> n \<le> length s \<and> list_all is_continuation (take n s) \<and> utf8_second_ok a (hd s)
           then Some (Suc n) else None)"

lemma utf8_width_bounds:
  assumes "utf8_width s = Some n"
  shows "0 < n" "n \<le> length s" "s \<noteq> []"
  using assms by (cases s; auto simp: Let_def split: if_splits)+

text \<open>\<open>Utf8Error::valid_up_to\<close>: the length of the longest well-formed prefix.\<close>

function utf8_valid_up_to :: "string \<Rightarrow> nat" where
  "utf8_valid_up_to s =
     (case utf8_width s of None \<Rightarrow> 0 | Some n \<Rightarrow> n + utf8_valid_up_to (drop n s))"
  by pat_completeness auto
termination
  by (relation "measure length") (use utf8_width_bounds in \<open>auto intro!: diff_less\<close>)

declare utf8_valid_up_to.simps [simp del]

definition from_utf8 :: "string \<Rightarrow> (nat, string) result" where
  "from_utf8 s = (if utf8_valid_up_to s = length s then Ok s else Err (utf8_valid_up_to s))"

section \<open>The query decoder\<close>

datatype QueryComponent = QueryKey | QueryValue

datatype QueryParseErrorKind = QueryInvalidPercentEncoding | QueryInvalidUtf8

record QueryParseError =
  query_pair_index :: nat
  query_component :: QueryComponent
  query_byte_offset :: nat
  query_kind :: QueryParseErrorKind

text \<open>Both multimaps keep the positions of every name next to the pairs.\<close>

type_synonym name_index = "(string, nat list) hashmap"

definition index_push :: "string \<Rightarrow> nat \<Rightarrow> name_index \<Rightarrow> name_index" where
  "index_push name position indices =
     hm_insert name ((case hm_get indices name of None \<Rightarrow> [] | Some ps \<Rightarrow> ps) @ [position]) indices"

record QueryParams =
  query_pairs :: "(string \<times> string) list"
  query_indices :: name_index

definition query_default :: QueryParams where
  "query_default = \<lparr>query_pairs = [], query_indices = []\<rparr>"

definition query_push :: "string \<Rightarrow> string \<Rightarrow> QueryParams \<Rightarrow> QueryParams" where
  "query_push key value self =
     \<lparr>query_pairs = query_pairs self @ [(key, value)],
      query_indices = index_push key (length (query_pairs self)) (query_indices self)\<rparr>"

definition hex_value :: "char \<Rightarrow> nat option" where
  "hex_value b =
     (if in_ascii_range (CHR ''0'') (CHR ''9'') b then Some (byte b - byte (CHR ''0''))
      else if in_ascii_range (CHR ''a'') (CHR ''f'') b then Some (byte b - byte (CHR ''a'') + 10)
      else if in_ascii_range (CHR ''A'') (CHR ''F'') b then Some (byte b - byte (CHR ''A'') + 10)
      else None)"

text \<open>
  The loop of \<open>decode_component\<close> from a position on: the decoded bytes, or the position of the
  first malformed escape. The two digits do not overlap, so \<open>(high << 4) | low\<close> is their sum.
\<close>

fun decode_bytes :: "nat \<Rightarrow> string \<Rightarrow> (nat, string) result" where
  "decode_bytes position [] = Ok []"
| "decode_bytes position (b # rest) =
     (if b = CHR ''+'' then and_then (decode_bytes (position + 1) rest) (\<lambda>d. Ok (CHR '' '' # d))
      else if b = CHR ''%'' then
        (case rest of
           h # l # rest' \<Rightarrow>
             (case (hex_value h, hex_value l) of
                (Some high, Some low) \<Rightarrow>
                  and_then (decode_bytes (position + 3) rest') (\<lambda>d. Ok (char_of (high * 16 + low) # d))
              | _ \<Rightarrow> Err position)
         | _ \<Rightarrow> Err position)
      else and_then (decode_bytes (position + 1) rest) (\<lambda>d. Ok (b # d)))"

definition decode_component :: "string \<Rightarrow> nat \<Rightarrow> QueryComponent \<Rightarrow> (QueryParseError, string) result" where
  "decode_component encoded pair_index component =
     (case decode_bytes 0 encoded of
        Inl position \<Rightarrow> Err \<lparr>query_pair_index = pair_index, query_component = component,
          query_byte_offset = position, query_kind = QueryInvalidPercentEncoding\<rparr>
      | Inr decoded \<Rightarrow>
          (case from_utf8 decoded of
             Inl valid_up_to \<Rightarrow> Err \<lparr>query_pair_index = pair_index, query_component = component,
               query_byte_offset = valid_up_to, query_kind = QueryInvalidUtf8\<rparr>
           | Inr s \<Rightarrow> Ok s))"

definition split_once :: "char \<Rightarrow> string \<Rightarrow> (string \<times> string) option" where
  "split_once c s =
     (if c \<in> set s then Some (takeWhile (\<lambda>x. x \<noteq> c) s, tl (dropWhile (\<lambda>x. x \<noteq> c) s)) else None)"

fun parse_pairs :: "nat \<Rightarrow> string list \<Rightarrow> QueryParams \<Rightarrow> (QueryParseError, QueryParams) result" where
  "parse_pairs pair_index [] acc = Ok acc"
| "parse_pairs pair_index (pair # rest) acc =
     (if pair = [] then parse_pairs (Suc pair_index) rest acc
      else let (encoded_key, encoded_value) =
             (case split_once (CHR ''='') pair of Some kv \<Rightarrow> kv | None \<Rightarrow> (pair, []))
        in and_then (decode_component encoded_key pair_index QueryKey) (\<lambda>key.
           and_then (decode_component encoded_value pair_index QueryValue) (\<lambda>v.
           parse_pairs (Suc pair_index) rest (query_push key v acc))))"

definition query_parse :: "string \<Rightarrow> (QueryParseError, QueryParams) result" where
  "query_parse encoded =
     (if encoded = [] then Ok query_default
      else parse_pairs 0 (split_on (CHR ''&'') encoded) query_default)"

text \<open>\<open>slice::get\<close>, \<open>first\<close> and the iterator of repeated values.\<close>

definition slice_get :: "'a list \<Rightarrow> nat \<Rightarrow> 'a option" where
  "slice_get xs i = (if i < length xs then Some (xs ! i) else None)"

definition first_value :: "(string \<times> string) list \<Rightarrow> name_index \<Rightarrow> string \<Rightarrow> string option" where
  "first_value ps indices name =
     Option.bind (hm_get indices name) (\<lambda>is.
     Option.bind (slice_get is 0) (\<lambda>i. map_option snd (slice_get ps i)))"

fun values_from :: "(string \<times> string) list \<Rightarrow> nat list \<Rightarrow> string list" where
  "values_from ps [] = []"
| "values_from ps (i # is) =
     (case slice_get ps i of None \<Rightarrow> [] | Some (_, v) \<Rightarrow> v # values_from ps is)"

definition query_get :: "string \<Rightarrow> QueryParams \<Rightarrow> string option" where
  "query_get name self = first_value (query_pairs self) (query_indices self) name"

definition query_get_all :: "string \<Rightarrow> QueryParams \<Rightarrow> string list" where
  "query_get_all name self = values_from (query_pairs self)
     (case hm_get (query_indices self) name of None \<Rightarrow> [] | Some is \<Rightarrow> is)"

definition query_len :: "QueryParams \<Rightarrow> nat" where
  "query_len self = length (query_pairs self)"

definition query_key_count :: "QueryParams \<Rightarrow> nat" where
  "query_key_count self = length (query_indices self)"

section \<open>The form decoder\<close>

datatype FormComponent = FormName | FormValue

datatype FormError =
    WrongContentType
  | DuplicateContentType
  | FormInvalidPercentEncoding nat FormComponent nat
  | FormInvalidUtf8 nat FormComponent nat

fun form_diagnostic_code :: "FormError \<Rightarrow> string" where
  "form_diagnostic_code WrongContentType = ''FORM_WRONG_CONTENT_TYPE''"
| "form_diagnostic_code DuplicateContentType = ''FORM_DUPLICATE_CONTENT_TYPE''"
| "form_diagnostic_code (FormInvalidPercentEncoding _ _ _) = ''FORM_INVALID_PERCENT_ENCODING''"
| "form_diagnostic_code (FormInvalidUtf8 _ _ _) = ''FORM_INVALID_UTF8''"

record FormData =
  form_pairs :: "(string \<times> string) list"
  form_indices :: name_index

definition form_new :: FormData where
  "form_new = \<lparr>form_pairs = [], form_indices = []\<rparr>"

definition form_push :: "string \<Rightarrow> string \<Rightarrow> FormData \<Rightarrow> FormData" where
  "form_push name value self =
     \<lparr>form_pairs = form_pairs self @ [(name, value)],
      form_indices = index_push name (length (form_pairs self)) (form_indices self)\<rparr>"

definition form_from_pairs :: "(string \<times> string) list \<Rightarrow> FormData" where
  "form_from_pairs ps = foldl (\<lambda>f (name, v). form_push name v f) form_new ps"

definition form_get :: "string \<Rightarrow> FormData \<Rightarrow> string option" where
  "form_get name self = first_value (form_pairs self) (form_indices self) name"

definition form_get_all :: "string \<Rightarrow> FormData \<Rightarrow> string list" where
  "form_get_all name self = values_from (form_pairs self)
     (case hm_get (form_indices self) name of None \<Rightarrow> [] | Some is \<Rightarrow> is)"

definition form_name_count :: "FormData \<Rightarrow> nat" where
  "form_name_count self = length (form_indices self)"

fun rebuild_from :: "nat \<Rightarrow> (string \<times> string) list \<Rightarrow> name_index \<Rightarrow> name_index" where
  "rebuild_from i [] indices = indices"
| "rebuild_from i ((name, _) # ps) indices = rebuild_from (Suc i) ps (index_push name i indices)"

definition rebuild_indices :: "FormData \<Rightarrow> FormData" where
  "rebuild_indices self = self\<lparr>form_indices := rebuild_from 0 (form_pairs self) []\<rparr>"

definition form_remove_all :: "string \<Rightarrow> FormData \<Rightarrow> FormData \<times> nat" where
  "form_remove_all name self =
     (let kept = filter (\<lambda>p. fst p \<noteq> name) (form_pairs self);
          removed = length (form_pairs self) - length kept;
          self = self\<lparr>form_pairs := kept\<rparr>
      in (if removed \<noteq> 0 then rebuild_indices self else self, removed))"

definition form_clear :: "FormData \<Rightarrow> FormData" where
  "form_clear self = \<lparr>form_pairs = [], form_indices = []\<rparr>"

definition to_url_encoded :: "((string \<times> string) list \<Rightarrow> string) \<Rightarrow> FormData \<Rightarrow> string" where
  "to_url_encoded serialize self = serialize (form_pairs self)"

definition is_ascii_hexdigit :: "char \<Rightarrow> bool" where
  "is_ascii_hexdigit b \<longleftrightarrow> in_ascii_range (CHR ''0'') (CHR ''9'') b
     \<or> in_ascii_range (CHR ''A'') (CHR ''F'') b \<or> in_ascii_range (CHR ''a'') (CHR ''f'') b"

text \<open>The loop of \<open>validate_component\<close>: the position of the first malformed escape.\<close>

fun check_escapes :: "nat \<Rightarrow> string \<Rightarrow> nat option" where
  "check_escapes cursor [] = None"
| "check_escapes cursor (b # rest) =
     (if b \<noteq> CHR ''%'' then check_escapes (cursor + 1) rest
      else case rest of
        h # l # rest' \<Rightarrow>
          if is_ascii_hexdigit h \<and> is_ascii_hexdigit l then check_escapes (cursor + 3) rest'
          else Some cursor
      | _ \<Rightarrow> Some cursor)"

definition validate_component ::
    "(string \<Rightarrow> string) \<Rightarrow> string \<Rightarrow> nat \<Rightarrow> FormComponent \<Rightarrow> (FormError, unit) result" where
  "validate_component percent_decode encoded pair_index component =
     (case check_escapes 0 encoded of
        Some cursor \<Rightarrow> Err (FormInvalidPercentEncoding pair_index component cursor)
      | None \<Rightarrow>
          (case from_utf8 (percent_decode encoded) of
             Inl valid_up_to \<Rightarrow> Err (FormInvalidUtf8 pair_index component valid_up_to)
           | Inr _ \<Rightarrow> Ok ()))"

fun validate_pairs :: "(string \<Rightarrow> string) \<Rightarrow> nat \<Rightarrow> string list \<Rightarrow> (FormError, unit) result" where
  "validate_pairs percent_decode pair_index [] = Ok ()"
| "validate_pairs percent_decode pair_index (pair # rest) =
     (if pair = [] then validate_pairs percent_decode (Suc pair_index) rest
      else let (name, v) = (case split_once (CHR ''='') pair of Some nv \<Rightarrow> nv | None \<Rightarrow> (pair, []))
        in and_then (validate_component percent_decode name pair_index FormName) (\<lambda>_.
           and_then (validate_component percent_decode v pair_index FormValue) (\<lambda>_.
           validate_pairs percent_decode (Suc pair_index) rest)))"

definition validate_encoded_form :: "(string \<Rightarrow> string) \<Rightarrow> string \<Rightarrow> (FormError, unit) result" where
  "validate_encoded_form percent_decode encoded =
     validate_pairs percent_decode 0 (split_on (CHR ''&'') encoded)"

definition form_parse ::
    "(string \<Rightarrow> string) \<Rightarrow> (string \<Rightarrow> (string \<times> string) list) \<Rightarrow> string \<Rightarrow> (FormError, FormData) result" where
  "form_parse percent_decode form_urlencoded encoded =
     and_then (validate_encoded_form percent_decode encoded)
       (\<lambda>_. Ok (foldl (\<lambda>f (name, v). form_push name v f) form_new (form_urlencoded encoded)))"

text \<open>
  The media type check: \<open>mime\<close> is the parser of the \<open>mime\<close> crate, which gives the essence and
  the parameters of a media type.
\<close>

definition to_ascii_lowercase :: "char \<Rightarrow> char" where
  "to_ascii_lowercase c =
     (if in_ascii_range (CHR ''A'') (CHR ''Z'') c then char_of (byte c + 32) else c)"

definition eq_ignore_ascii_case :: "string \<Rightarrow> string \<Rightarrow> bool" where
  "eq_ignore_ascii_case a b \<longleftrightarrow> map to_ascii_lowercase a = map to_ascii_lowercase b"

fun charset_ok :: "bool \<Rightarrow> (string \<times> string) list \<Rightarrow> bool" where
  "charset_ok charset_seen [] = True"
| "charset_ok charset_seen ((name, v) # params) =
     (if eq_ignore_ascii_case name ''charset''
      then \<not> (charset_seen \<or> \<not> eq_ignore_ascii_case v ''utf-8'') \<and> charset_ok True params
      else charset_ok charset_seen params)"

definition is_form_content_type ::
    "(string \<Rightarrow> (string \<times> (string \<times> string) list) option) \<Rightarrow> string \<Rightarrow> bool" where
  "is_form_content_type mime v =
     (case mime v of
        None \<Rightarrow> False
      | Some (essence, params) \<Rightarrow>
          eq_ignore_ascii_case essence ''application/x-www-form-urlencoded'' \<and> charset_ok False params)"

section \<open>Ordered multimaps\<close>

text \<open>
  What a client of either multimap relies on: the pairs are the pushes in order, and both
  lookups are determined by the pairs.
\<close>

locale ordered_multimap =
  fixes empty :: 'm
    and push :: "string \<Rightarrow> string \<Rightarrow> 'm \<Rightarrow> 'm"
    and pairs :: "'m \<Rightarrow> (string \<times> string) list"
    and get :: "string \<Rightarrow> 'm \<Rightarrow> string option"
    and get_all :: "string \<Rightarrow> 'm \<Rightarrow> string list"
    and names :: "'m \<Rightarrow> nat"
    and invar :: "'m \<Rightarrow> bool"
  assumes invar_empty: "invar empty"
    and invar_push: "invar m \<Longrightarrow> invar (push k v m)"
    and pairs_empty: "pairs empty = []"
    and pairs_push: "pairs (push k v m) = pairs m @ [(k, v)]"
    and get_all_pairs: "invar m \<Longrightarrow> get_all k m = map snd (filter (\<lambda>p. fst p = k) (pairs m))"
    and get_pairs: "invar m \<Longrightarrow> get k m = map_option snd (find (\<lambda>p. fst p = k) (pairs m))"
    and names_pairs: "invar m \<Longrightarrow> names m = card (fst ` set (pairs m))"
begin

abbreviation push_all :: "(string \<times> string) list \<Rightarrow> 'm \<Rightarrow> 'm" where
  "push_all ps m \<equiv> foldl (\<lambda>m (k, v). push k v m) m ps"

lemma pairs_push_all: "pairs (push_all ps m) = pairs m @ ps"
  by (induction ps arbitrary: m) (auto simp: pairs_push)

lemma invar_push_all: "invar m \<Longrightarrow> invar (push_all ps m)"
  by (induction ps arbitrary: m) (auto simp: invar_push)

lemma get_first: "invar m \<Longrightarrow> get k m = (case get_all k m of [] \<Rightarrow> None | v # _ \<Rightarrow> Some v)"
proof -
  have "map_option snd (find (\<lambda>p. fst p = k) ps)
      = (case map snd (filter (\<lambda>p. fst p = k) ps) of [] \<Rightarrow> None | v # _ \<Rightarrow> Some v)"
    for ps :: "(string \<times> string) list"
    by (induction ps) auto
  then show "invar m \<Longrightarrow> ?thesis"
    by (simp add: get_pairs get_all_pairs)
qed

end

text \<open>The index of a list of pairs: the positions of each name, in order.\<close>

definition positions :: "string \<Rightarrow> (string \<times> string) list \<Rightarrow> nat list" where
  "positions name ps = filter (\<lambda>i. fst (ps ! i) = name) [0..<length ps]"

definition index_ok :: "(string \<times> string) list \<Rightarrow> name_index \<Rightarrow> bool" where
  "index_ok ps indices \<longleftrightarrow> hm_invar indices
     \<and> (\<forall>name. hm_get indices name = (if positions name ps = [] then None else Some (positions name ps)))"

lemma positions_snoc:
  "positions name (ps @ [(k, v)]) = positions name ps @ (if k = name then [length ps] else [])"
proof -
  have "filter (\<lambda>i. fst ((ps @ [(k, v)]) ! i) = name) [0..<length ps] = positions name ps"
    unfolding positions_def by (rule filter_cong) (auto simp: nth_append)
  then show ?thesis
    by (simp add: positions_def [of name "ps @ [(k, v)]"])
qed

lemma index_ok_Nil [simp]: "index_ok [] []"
  by (simp add: index_ok_def positions_def)

lemma index_ok_push:
  assumes "index_ok ps indices"
  shows "index_ok (ps @ [(k, v)]) (index_push k (length ps) indices)"
  using assms by (auto simp: index_ok_def index_push_def positions_snoc hashmap_simps distinct_update)

lemma positions_bound: "i \<in> set (positions name ps) \<Longrightarrow> i < length ps \<and> fst (ps ! i) = name"
  by (simp add: positions_def)

lemma values_from_valid: "\<forall>i\<in>set is. i < length ps \<Longrightarrow> values_from ps is = map (\<lambda>i. snd (ps ! i)) is"
  by (induction "is") (auto simp: slice_get_def split: prod.splits)

lemma map_positions: "map (\<lambda>i. ps ! i) (positions name ps) = filter (\<lambda>p. fst p = name) ps"
proof (induction ps rule: rev_induct)
  case (snoc p ps)
  have "map (\<lambda>i. (ps @ [p]) ! i) (positions name ps) = map (\<lambda>i. ps ! i) (positions name ps)"
    by (auto simp: nth_append dest: positions_bound)
  then show ?case
    using snoc positions_snoc [of name ps "fst p" "snd p"] by (simp add: nth_append)
qed (simp add: positions_def)

lemma indexed_values:
  assumes "index_ok ps indices"
  shows "values_from ps (case hm_get indices name of None \<Rightarrow> [] | Some is \<Rightarrow> is)
    = map snd (filter (\<lambda>p. fst p = name) ps)"
proof -
  have "(case hm_get indices name of None \<Rightarrow> [] | Some is \<Rightarrow> is) = positions name ps"
    using assms by (simp add: index_ok_def)
  then show ?thesis
    using values_from_valid [of "positions name ps" ps] positions_bound [of _ name ps]
    by (simp add: map_positions [symmetric] comp_def)
qed

lemma indexed_first:
  assumes "index_ok ps indices"
  shows "first_value ps indices name = map_option snd (find (\<lambda>p. fst p = name) ps)"
proof -
  have find: "find (\<lambda>p. fst p = name) ps = (case filter (\<lambda>p. fst p = name) ps of [] \<Rightarrow> None | p # _ \<Rightarrow> Some p)"
    by (induction ps) auto
  show ?thesis
  proof (cases "positions name ps")
    case Nil
    then show ?thesis
      using assms by (simp add: first_value_def index_ok_def find map_positions [symmetric])
  next
    case (Cons i js)
    then have "i < length ps"
      using positions_bound [of i name ps] by simp
    then show ?thesis
      using assms Cons
      by (simp add: first_value_def index_ok_def find map_positions [symmetric] slice_get_def)
  qed
qed

lemma indexed_names:
  assumes "index_ok ps indices"
  shows "length indices = card (fst ` set ps)"
proof -
  have "positions name ps = [] \<longleftrightarrow> filter (\<lambda>p. fst p = name) ps = []" for name
    using map_positions [of ps name] by (metis map_is_Nil_conv)
  then have "positions name ps = [] \<longleftrightarrow> name \<notin> fst ` set ps" for name
    by (auto simp: filter_empty_conv image_iff)
  then have "dom (map_of indices) = fst ` set ps"
    using assms by (auto simp: index_ok_def dom_def)
  moreover have "card (fst ` set indices) = length indices"
    using assms distinct_card [of "map fst indices"] by (simp add: index_ok_def)
  ultimately show ?thesis
    by (simp add: dom_map_of_conv_image_fst)
qed

interpretation query: ordered_multimap query_default query_push query_pairs query_get query_get_all
    query_key_count "\<lambda>q. index_ok (query_pairs q) (query_indices q)"
  by unfold_locales (simp_all add: query_default_def query_push_def index_ok_push query_get_def
      query_get_all_def query_key_count_def indexed_values indexed_first indexed_names)

interpretation form: ordered_multimap form_new form_push form_pairs form_get form_get_all
    form_name_count "\<lambda>f. index_ok (form_pairs f) (form_indices f)"
  by unfold_locales (simp_all add: form_new_def form_push_def index_ok_push form_get_def
      form_get_all_def form_name_count_def indexed_values indexed_first indexed_names)

lemma index_ok_rebuild:
  "index_ok ps indices \<Longrightarrow> index_ok (ps @ qs) (rebuild_from (length ps) qs indices)"
proof (induction qs arbitrary: ps indices)
  case (Cons q qs)
  then show ?case
    using index_ok_push [of ps indices "fst q" "snd q"] Cons.IH [of "ps @ [q]"]
    by (cases q) simp
qed simp

section \<open>What the query decoder returns\<close>

text \<open>The encoded pairs of a query, in wire order.\<close>

definition wire_pair :: "string \<Rightarrow> string \<times> string" where
  "wire_pair pair = (case split_once (CHR ''='') pair of Some kv \<Rightarrow> kv | None \<Rightarrow> (pair, []))"

definition wire_pairs :: "string \<Rightarrow> (string \<times> string) list" where
  "wire_pairs s = map wire_pair (filter (\<lambda>pair. pair \<noteq> []) (split_on (CHR ''&'') s))"

definition decodes_to :: "string \<Rightarrow> string \<Rightarrow> bool" where
  "decodes_to encoded s \<longleftrightarrow> decode_bytes 0 encoded = Ok s \<and> utf8_valid_up_to s = length s"

lemma decode_component_Ok: "decode_component e i c = Ok s \<longleftrightarrow> decodes_to e s"
  by (auto simp: decode_component_def decodes_to_def from_utf8_def split: sum.splits if_splits)

lemma parse_pairs_Ok:
  "parse_pairs i ps acc = Ok q \<longleftrightarrow>
     (\<exists>kvs. list_all2 (\<lambda>(ek, ev) (k, v). decodes_to ek k \<and> decodes_to ev v)
        (map wire_pair (filter (\<lambda>pair. pair \<noteq> []) ps)) kvs
      \<and> q = query.push_all kvs acc)"
proof (induction i ps acc rule: parse_pairs.induct)
  case (2 i pair rest acc)
  show ?case
  proof (cases "pair = []")
    case True
    then show ?thesis
      using "2.IH"(1) by simp
  next
    case False
    obtain ek ev where wire: "wire_pair pair = (ek, ev)"
      by fastforce
    have "parse_pairs i (pair # rest) acc = Ok q \<longleftrightarrow>
        (\<exists>k v. decodes_to ek k \<and> decodes_to ev v \<and> parse_pairs (Suc i) rest (query_push k v acc) = Ok q)"
      using False wire by (simp add: wire_pair_def decode_component_Ok)
    also have "\<dots> \<longleftrightarrow> (\<exists>k v. decodes_to ek k \<and> decodes_to ev v \<and>
        (\<exists>kvs. list_all2 (\<lambda>(ek, ev) (k, v). decodes_to ek k \<and> decodes_to ev v)
            (map wire_pair (filter (\<lambda>pair. pair \<noteq> []) rest)) kvs
          \<and> q = query.push_all kvs (query_push k v acc)))"
      using "2.IH"(2) [OF False, of "(ek, ev)" ek ev] wire [unfolded wire_pair_def] by simp
    also have "\<dots> \<longleftrightarrow> (\<exists>kvs. list_all2 (\<lambda>(ek, ev) (k, v). decodes_to ek k \<and> decodes_to ev v)
        (map wire_pair (filter (\<lambda>pair. pair \<noteq> []) (pair # rest))) kvs \<and> q = query.push_all kvs acc)"
      using False wire by (fastforce simp: list_all2_Cons1)
    finally show ?thesis .
  qed
qed auto

lemma query_parse_Ok:
  "query_parse s = Ok q \<longleftrightarrow>
     (\<exists>kvs. list_all2 (\<lambda>(ek, ev) (k, v). decodes_to ek k \<and> decodes_to ev v) (wire_pairs s) kvs
      \<and> q = query.push_all kvs query_default)"
  by (auto simp: query_parse_def parse_pairs_Ok wire_pairs_def)

text \<open>
  C32. The query multimap is the wire: after a successful parse the pairs are the decoded
  non-empty segments of the query in wire order, \<open>get_all\<close> returns exactly the values of a name
  in that order, \<open>get\<close> the first of them, and \<open>key_count\<close> the number of distinct names.
\<close>

theorem query_lookups:
  assumes "query_parse s = Ok q"
  shows "list_all2 (\<lambda>(ek, ev) (k, v). decodes_to ek k \<and> decodes_to ev v) (wire_pairs s) (query_pairs q)
    \<and> query_get_all name q = map snd (filter (\<lambda>p. fst p = name) (query_pairs q))
    \<and> query_get name q = (case query_get_all name q of [] \<Rightarrow> None | v # _ \<Rightarrow> Some v)
    \<and> query_key_count q = card (fst ` set (query_pairs q))"
proof -
  obtain kvs where kvs: "list_all2 (\<lambda>(ek, ev) (k, v). decodes_to ek k \<and> decodes_to ev v) (wire_pairs s) kvs"
    and q: "q = query.push_all kvs query_default"
    using assms query_parse_Ok by blast
  have invar: "index_ok (query_pairs q) (query_indices q)"
    unfolding q by (rule query.invar_push_all [OF query.invar_empty])
  show ?thesis
    using kvs query.get_all_pairs [OF invar] query.get_first [OF invar] query.names_pairs [OF invar]
    by (simp add: q query.pairs_push_all query.pairs_empty)
qed

theorem query_lookups_witness:
  "\<exists>q. query_parse ''a=1&&b=%41+c&a=2'' = Ok q \<and> query_get_all ''a'' q = [''1'', ''2''] \<and> query_get ''b'' q = Some ''A c''"
proof -
  have "query_parse ''a=1&&b=%41+c&a=2''
      = Ok \<lparr>query_pairs = [(''a'', ''1''), (''b'', ''A c''), (''a'', ''2'')],
          query_indices = [(''a'', [0, 2]), (''b'', [1])]\<rparr>"
    by code_simp
  then obtain q where q: "query_parse ''a=1&&b=%41+c&a=2'' = Ok q"
    and "query_pairs q = [(''a'', ''1''), (''b'', ''A c''), (''a'', ''2'')]"
    by simp
  then show ?thesis
    using query_lookups [OF q, of "''a''"] query_lookups [OF q, of "''b''"] by simp
qed

section \<open>Forms refine lists of pairs\<close>

datatype form_op = Push string string | RemoveAll string | Clear

fun form_step :: "form_op \<Rightarrow> FormData \<Rightarrow> FormData" where
  "form_step (Push name v) f = form_push name v f"
| "form_step (RemoveAll name) f = fst (form_remove_all name f)"
| "form_step Clear f = form_clear f"

text \<open>The abstract form: a list of pairs.\<close>

fun list_step :: "form_op \<Rightarrow> (string \<times> string) list \<Rightarrow> (string \<times> string) list" where
  "list_step (Push name v) ps = ps @ [(name, v)]"
| "list_step (RemoveAll name) ps = filter (\<lambda>p. fst p \<noteq> name) ps"
| "list_step Clear ps = []"

lemma form_remove_all_ok:
  assumes "index_ok (form_pairs f) (form_indices f)"
  shows "index_ok (form_pairs (fst (form_remove_all name f))) (form_indices (fst (form_remove_all name f)))"
    "form_pairs (fst (form_remove_all name f)) = filter (\<lambda>p. fst p \<noteq> name) (form_pairs f)"
    "snd (form_remove_all name f) = length (filter (\<lambda>p. fst p = name) (form_pairs f))"
proof -
  let ?kept = "filter (\<lambda>p. fst p \<noteq> name) (form_pairs f)"
  have len: "length (filter (\<lambda>p. fst p = name) (form_pairs f)) + length ?kept = length (form_pairs f)"
    using sum_length_filter_compl [of "\<lambda>p. fst p = name" "form_pairs f"] by simp
  then have removed: "length (form_pairs f) - length ?kept = length (filter (\<lambda>p. fst p = name) (form_pairs f))"
    by simp
  then show "snd (form_remove_all name f) = length (filter (\<lambda>p. fst p = name) (form_pairs f))"
    by (simp add: form_remove_all_def Let_def)
  show "form_pairs (fst (form_remove_all name f)) = ?kept"
    by (simp add: form_remove_all_def rebuild_indices_def Let_def)
  have "?kept = form_pairs f" if "length (filter (\<lambda>p. fst p = name) (form_pairs f)) = 0"
    using that by (metis (mono_tags, lifting) filter_True filter_empty_conv length_0_conv)
  then show "index_ok (form_pairs (fst (form_remove_all name f))) (form_indices (fst (form_remove_all name f)))"
    using assms index_ok_rebuild [of "[]" "[]" ?kept] removed
    by (auto simp: form_remove_all_def rebuild_indices_def Let_def)
qed

lemma form_step_ok:
  assumes "index_ok (form_pairs f) (form_indices f)"
  shows "index_ok (form_pairs (form_step op f)) (form_indices (form_step op f))
    \<and> form_pairs (form_step op f) = list_step op (form_pairs f)"
  using assms form.invar_push [of f] form_remove_all_ok
  by (cases op) (simp_all add: form.pairs_push form_clear_def)

lemma form_steps_ok:
  assumes "index_ok (form_pairs g) (form_indices g)"
  shows "index_ok (form_pairs (foldl (\<lambda>f op. form_step op f) g ops)) (form_indices (foldl (\<lambda>f op. form_step op f) g ops))
    \<and> form_pairs (foldl (\<lambda>f op. form_step op f) g ops) = foldl (\<lambda>ps op. list_step op ps) (form_pairs g) ops"
  using assms
proof (induction ops arbitrary: g)
  case (Cons op ops)
  note step = form_step_ok [OF Cons.prems, of op]
  show ?case
    unfolding foldl.simps by (rule Cons.IH [OF conjunct1 [OF step], unfolded conjunct2 [OF step]])
qed simp

text \<open>
  C33. A form, whose lookups go through an index that removals rebuild, refines a plain list of
  pairs: after any sequence of pushes, removals and clears its fields are those of the list, and
  every lookup answers what the list answers; a removal reports the number of fields it removed.
\<close>

theorem form_refines_list:
  assumes "f = foldl (\<lambda>f op. form_step op f) form_new ops"
  shows "form_pairs f = foldl (\<lambda>ps op. list_step op ps) [] ops
    \<and> form_get_all name f = map snd (filter (\<lambda>p. fst p = name) (form_pairs f))
    \<and> form_get name f = (case form_get_all name f of [] \<Rightarrow> None | v # _ \<Rightarrow> Some v)
    \<and> form_name_count f = card (fst ` set (form_pairs f))
    \<and> snd (form_remove_all name f) = length (form_get_all name f)"
proof -
  have invar: "index_ok (form_pairs f) (form_indices f)"
    and pairs: "form_pairs f = foldl (\<lambda>ps op. list_step op ps) [] ops"
    using form_steps_ok [OF form.invar_empty, of ops] unfolding assms form.pairs_empty by blast+
  show ?thesis
    using pairs form.get_all_pairs [OF invar] form.get_first [OF invar] form.names_pairs [OF invar]
      form_remove_all_ok(3) [OF invar] by simp
qed

theorem form_refines_list_witness:
  "form_get_all ''a'' (form_step (RemoveAll ''b'') (form_push ''a'' ''2'' (form_push ''b'' ''x'' (form_push ''a'' ''1'' form_new))))
    = [''1'', ''2'']"
  using form_refines_list [OF refl, of "[Push ''a'' ''1'', Push ''b'' ''x'', Push ''a'' ''2'', RemoveAll ''b'']" "''a''"]
  by (simp del: form_step.simps(2))

section \<open>Encoding and decoding\<close>

text \<open>A reference encoder: unreserved bytes stand for themselves, all others are escaped.\<close>

definition is_unreserved :: "char \<Rightarrow> bool" where
  "is_unreserved c \<longleftrightarrow> is_ascii_alphanumeric c \<or> c \<in> {CHR ''-'', CHR ''.'', CHR ''_'', CHR ''~''}"

definition hex_char :: "nat \<Rightarrow> char" where
  "hex_char d = ''0123456789ABCDEF'' ! d"

definition encode_byte :: "char \<Rightarrow> string" where
  "encode_byte c = (if is_unreserved c then [c]
     else [CHR ''%'', hex_char (byte c div 16), hex_char (byte c mod 16)])"

definition encode_string :: "string \<Rightarrow> string" where
  "encode_string s = concat (map encode_byte s)"

definition encode_query :: "(string \<times> string) list \<Rightarrow> string" where
  "encode_query ps = join_with (CHR ''&'') (map (\<lambda>(k, v). encode_string k @ CHR ''='' # encode_string v) ps)"

lemma hex_char_value: "d < 16 \<Longrightarrow> hex_value (hex_char d) = Some d"
proof -
  have "list_all (\<lambda>d. hex_value (hex_char d) = Some d) [0..<16]"
    by code_simp
  then show "d < 16 \<Longrightarrow> ?thesis"
    by (simp add: list_all_iff)
qed

lemma hex_char_unreserved: "d < 16 \<Longrightarrow> is_unreserved (hex_char d)"
proof -
  have "list_all (\<lambda>d. is_unreserved (hex_char d)) [0..<16]"
    by code_simp
  then show "d < 16 \<Longrightarrow> ?thesis"
    by (simp add: list_all_iff)
qed

lemma not_unreserved: "\<not> is_unreserved (CHR ''%'')" "\<not> is_unreserved (CHR ''+'')"
  "\<not> is_unreserved (CHR ''&'')" "\<not> is_unreserved (CHR ''='')"
  by code_simp+

lemma byte_nibbles: "byte c div 16 < 16" "byte c mod 16 < 16"
  by (rule less_mult_imp_div_less) simp_all

lemma encode_byte_set:
  "x \<in> set (encode_byte c) \<Longrightarrow> is_unreserved x \<or> x = CHR ''%''"
  using hex_char_unreserved [of "byte c div 16"] hex_char_unreserved [of "byte c mod 16"] byte_nibbles [of c]
  by (auto simp: encode_byte_def split: if_splits)

lemma decode_encode_byte:
  "decode_bytes i (encode_byte c @ t) = and_then (decode_bytes (i + length (encode_byte c)) t) (\<lambda>d. Ok (c # d))"
proof (cases "is_unreserved c")
  case True
  then have "c \<noteq> CHR ''+''" "c \<noteq> CHR ''%''"
    using not_unreserved by auto
  then show ?thesis
    using True by (simp add: encode_byte_def)
next
  case False
  have "hex_value (hex_char (byte c div 16)) = Some (byte c div 16)"
    "hex_value (hex_char (byte c mod 16)) = Some (byte c mod 16)"
    using hex_char_value byte_nibbles [of c] by blast+
  moreover have "char_of (byte c div 16 * 16 + byte c mod 16) = c"
    by (simp only: div_mult_mod_eq char_of_char)
  ultimately show ?thesis
    using False by (simp add: encode_byte_def numeral_3_eq_3)
qed

lemma decode_encode: "decode_bytes i (encode_string s) = Ok s"
  by (induction s arbitrary: i) (simp_all add: encode_string_def decode_encode_byte)

lemma encode_string_set: "x \<in> set (encode_string s) \<Longrightarrow> x \<noteq> CHR ''&'' \<and> x \<noteq> CHR ''=''"
  using encode_byte_set not_unreserved unfolding encode_string_def by fastforce

lemma wire_pair_encoded:
  "wire_pair (encode_string k @ CHR ''='' # encode_string v) = (encode_string k, encode_string v)"
proof -
  have "\<forall>x\<in>set (encode_string k). x \<noteq> CHR ''=''"
    using encode_string_set by blast
  then show ?thesis
    by (simp add: wire_pair_def split_once_def takeWhile_append2 dropWhile_append2)
qed

lemma wire_pairs_encoded:
  "wire_pairs (encode_query ps) = map (\<lambda>(k, v). (encode_string k, encode_string v)) ps"
proof (cases "ps = []")
  case False
  let ?segs = "map (\<lambda>(k, v). encode_string k @ CHR ''='' # encode_string v) ps"
  have "\<forall>s\<in>set ?segs. CHR ''&'' \<notin> set s"
    using encode_string_set by fastforce
  then have "split_on (CHR ''&'') (encode_query ps) = ?segs"
    unfolding encode_query_def using False by (intro split_join) auto
  moreover have "filter (\<lambda>pair. pair \<noteq> []) ?segs = ?segs"
    by (auto simp: filter_id_conv)
  ultimately show ?thesis
    by (auto simp: wire_pairs_def wire_pair_encoded)
qed (simp add: wire_pairs_def encode_query_def)

text \<open>
  C34. Decoding inverts percent encoding: every list of pairs of UTF-8 strings, with any bytes,
  repeated and empty names included, that is encoded with unreserved bytes and escapes parses
  back to exactly that list.
\<close>

theorem query_round_trip:
  assumes "\<forall>(k, v)\<in>set ps. utf8_valid_up_to k = length k \<and> utf8_valid_up_to v = length v"
  shows "\<exists>q. query_parse (encode_query ps) = Ok q \<and> query_pairs q = ps"
proof -
  have "list_all2 (\<lambda>(ek, ev) (k, v). decodes_to ek k \<and> decodes_to ev v) (wire_pairs (encode_query ps)) ps"
    using assms by (auto simp: wire_pairs_encoded list_all2_map1 list_all2_same decodes_to_def decode_encode)
  then show ?thesis
    using query_parse_Ok [of "encode_query ps"] query.pairs_push_all [of query_default ps]
    by (auto simp: query.pairs_empty)
qed

theorem query_round_trip_witness:
  "\<exists>q. query_parse (encode_query [(''a&b'', ''1=2''), ([], ''+''), (''a&b'', '' '')]) = Ok q
    \<and> query_pairs q = [(''a&b'', ''1=2''), ([], ''+''), (''a&b'', '' '')]"
proof -
  have "utf8_valid_up_to ''a&b'' = 3" "utf8_valid_up_to ''1=2'' = 3" "utf8_valid_up_to [] = 0"
    "utf8_valid_up_to ''+'' = 1" "utf8_valid_up_to '' '' = 1"
    by code_simp+
  then show ?thesis
    using query_round_trip [of "[(''a&b'', ''1=2''), ([], ''+''), (''a&b'', '' '')]"] by simp
qed

section \<open>The two decoders agree\<close>

text \<open>
  The documented behaviour of the crates: \<open>percent_decode\<close> replaces every escape and leaves all
  other bytes, malformed escapes included; \<open>form_urlencoded::parse\<close> splits at \<open>&\<close>, skips empty
  segments, splits each at the first \<open>=\<close>, replaces \<open>+\<close> by a space and percent-decodes, and
  returns names and values unchanged where they are UTF-8.
\<close>

fun lenient_decode :: "string \<Rightarrow> string" where
  "lenient_decode [] = []"
| "lenient_decode (b # rest) =
     (case (b = CHR ''%'', rest) of
        (True, h # l # rest') \<Rightarrow>
          (case (hex_value h, hex_value l) of
             (Some high, Some low) \<Rightarrow> char_of (high * 16 + low) # lenient_decode rest'
           | _ \<Rightarrow> b # lenient_decode rest)
      | _ \<Rightarrow> b # lenient_decode rest)"

definition plus_to_space :: "string \<Rightarrow> string" where
  "plus_to_space = map (\<lambda>c. if c = CHR ''+'' then CHR '' '' else c)"

definition percent_decode_ok :: "(string \<Rightarrow> string) \<Rightarrow> bool" where
  "percent_decode_ok percent_decode \<longleftrightarrow> (\<forall>s. percent_decode s = lenient_decode s)"

definition form_urlencoded_ok :: "(string \<Rightarrow> (string \<times> string) list) \<Rightarrow> bool" where
  "form_urlencoded_ok form_urlencoded \<longleftrightarrow>
     (\<forall>s. let ps = map (\<lambda>(n, v). (lenient_decode (plus_to_space n), lenient_decode (plus_to_space v))) (wire_pairs s)
      in (\<forall>(n, v)\<in>set ps. utf8_valid_up_to n = length n \<and> utf8_valid_up_to v = length v)
         \<longrightarrow> form_urlencoded s = ps)"

lemma hexdigit_value: "is_ascii_hexdigit c \<longleftrightarrow> hex_value c \<noteq> None"
  by (auto simp: is_ascii_hexdigit_def hex_value_def)

text \<open>The strict decoder fails where the form's validation fails, and nowhere else.\<close>

lemma check_escapes_decode:
  "check_escapes i s = (case decode_bytes i s of Inl position \<Rightarrow> Some position | Inr _ \<Rightarrow> None)"
proof (induction i s rule: decode_bytes.induct)
  case (2 i b rest)
  show ?case
  proof (cases "b = CHR ''%''")
    case True
    show ?thesis
    proof (cases "\<exists>h l rest'. rest = h # l # rest' \<and> hex_value h \<noteq> None \<and> hex_value l \<noteq> None")
      case True
      then obtain h l rest' x y where "rest = h # l # rest'" "hex_value h = Some x" "hex_value l = Some y"
        by blast
      then show ?thesis
        using "2.IH"(2) \<open>b = CHR ''%''\<close>
        by (cases "decode_bytes (i + 3) rest'") (simp_all add: hexdigit_value)
    next
      case False
      then show ?thesis
        using \<open>b = CHR ''%''\<close> by (auto simp: hexdigit_value split: list.splits option.splits)
    qed
  next
    case False
    then show ?thesis
      using "2.IH"(1,3) by (cases "decode_bytes (i + 1) rest") (auto split: sum.splits)
  qed
qed simp

lemma lenient_escape:
  "hex_value h = Some x \<Longrightarrow> hex_value l = Some y
    \<Longrightarrow> lenient_decode (CHR ''%'' # h # l # rest) = char_of (x * 16 + y) # lenient_decode rest"
  "b \<noteq> CHR ''%'' \<Longrightarrow> lenient_decode (b # rest) = b # lenient_decode rest"
  by simp_all

lemma hex_value_plus: "hex_value h = Some x \<Longrightarrow> h \<noteq> CHR ''+''"
  by (auto simp: hex_value_def)

text \<open>Where it succeeds, it differs from the lenient decoder in the spaces only.\<close>

definition ascii_alike :: "char \<Rightarrow> char \<Rightarrow> bool" where
  "ascii_alike x y \<longleftrightarrow> x = y \<or> byte x < 0x80 \<and> byte y < 0x80"

lemma decode_bytes_step:
  assumes "decode_bytes i (b # rest) = Ok d"
  obtains (plus) d' where "b = CHR ''+''" "decode_bytes (i + 1) rest = Ok d'" "d = CHR '' '' # d'"
  | (escape) h l rest' x y d' where "b = CHR ''%''" "rest = h # l # rest'" "hex_value h = Some x"
      "hex_value l = Some y" "decode_bytes (i + 3) rest' = Ok d'" "d = char_of (x * 16 + y) # d'"
  | (plain) d' where "b \<noteq> CHR ''+''" "b \<noteq> CHR ''%''" "decode_bytes (i + 1) rest = Ok d'" "d = b # d'"
  using assms unfolding decode_bytes.simps(2)
  by (auto simp del: decode_bytes.simps(2) split: if_splits list.splits option.splits)

lemma decode_bytes_plus: "decode_bytes i s = Ok d \<Longrightarrow> d = lenient_decode (plus_to_space s)"
proof (induction "length s" arbitrary: i s d rule: less_induct)
  case less
  show ?case
  proof (cases s)
    case Nil
    then show ?thesis
      using less.prems by (simp add: plus_to_space_def)
  next
    case (Cons b rest)
    from less.prems [unfolded Cons] show ?thesis
    proof (cases rule: decode_bytes_step)
      case (plus d')
      then show ?thesis
        using less.hyps [of rest "i + 1" d'] Cons by (simp add: plus_to_space_def lenient_escape(2))
    next
      case (escape h l rest' x y d')
      then have "h \<noteq> CHR ''+''" "l \<noteq> CHR ''+''"
        using hex_value_plus by blast+
      then have "plus_to_space s = CHR ''%'' # h # l # plus_to_space rest'"
        using Cons escape by (simp add: plus_to_space_def)
      then show ?thesis
        using less.hyps [of rest' "i + 3" d'] Cons escape by (simp only: lenient_escape(1)) simp
    next
      case (plain d')
      then show ?thesis
        using less.hyps [of rest "i + 1" d'] Cons by (simp add: plus_to_space_def lenient_escape(2))
    qed
  qed
qed

lemma decode_bytes_alike: "decode_bytes i s = Ok d \<Longrightarrow> list_all2 ascii_alike d (lenient_decode s)"
proof (induction "length s" arbitrary: i s d rule: less_induct)
  case less
  show ?case
  proof (cases s)
    case Nil
    then show ?thesis
      using less.prems by simp
  next
    case (Cons b rest)
    from less.prems [unfolded Cons] show ?thesis
    proof (cases rule: decode_bytes_step)
      case (plus d')
      then show ?thesis
        using less.hyps [of rest "i + 1" d'] Cons by (simp add: lenient_escape(2) ascii_alike_def)
    next
      case (escape h l rest' x y d')
      then show ?thesis
        using less.hyps [of rest' "i + 3" d'] Cons lenient_escape(1) [of h x l y rest']
        by (simp add: ascii_alike_def)
    next
      case (plain d')
      then show ?thesis
        using less.hyps [of rest "i + 1" d'] Cons by (simp add: lenient_escape(2) ascii_alike_def)
    qed
  qed
qed

lemma continuation_alike:
  "ascii_alike x y \<Longrightarrow> is_continuation x \<longleftrightarrow> is_continuation y"
  "ascii_alike x y \<Longrightarrow> is_continuation x \<Longrightarrow> x = y"
  by (auto simp: ascii_alike_def is_continuation_def)

lemma continuations_alike:
  "list_all2 ascii_alike xs ys \<Longrightarrow> list_all is_continuation xs \<longleftrightarrow> list_all is_continuation ys"
  by (induction rule: list_all2_induct) (simp_all add: continuation_alike)

lemma utf8_width_alike:
  assumes "list_all2 ascii_alike xs ys"
  shows "utf8_width xs = utf8_width ys"
proof (cases xs)
  case Nil
  then show ?thesis
    using assms by simp
next
  case (Cons x xs1)
  then obtain y ys1 where y: "ys = y # ys1" "ascii_alike x y" "list_all2 ascii_alike xs1 ys1"
    using assms by (auto simp: list_all2_Cons1)
  show ?thesis
  proof (cases "byte x < 0x80 \<or> byte y < 0x80")
    case True
    then have "byte x < 0x80" "byte y < 0x80"
      using y(2) by (auto simp: ascii_alike_def)
    then show ?thesis
      using Cons y by simp
  next
    case False
    then have xy: "x = y"
      using y(2) by (auto simp: ascii_alike_def)
    have "length xs1 = length ys1"
      using y(3) by (rule list_all2_lengthD)
    moreover have "list_all is_continuation (take n xs1) \<longleftrightarrow> list_all is_continuation (take n ys1)" for n
      using continuations_alike [OF list_all2_takeI [OF y(3)]] .
    moreover have "hd xs1 = hd ys1" if "0 < n" "n \<le> length xs1" "list_all is_continuation (take n xs1)" for n
      using that y(3) continuation_alike(2)
      by (cases xs1; cases ys1; cases n) auto
    ultimately have "0 < n \<and> n \<le> length xs1 \<and> list_all is_continuation (take n xs1) \<and> utf8_second_ok x (hd xs1)
        \<longleftrightarrow> 0 < n \<and> n \<le> length ys1 \<and> list_all is_continuation (take n ys1) \<and> utf8_second_ok y (hd ys1)" for n
      using xy by metis
    then show ?thesis
      using Cons y(1) xy by (simp add: Let_def)
  qed
qed

lemma utf8_valid_alike:
  "list_all2 ascii_alike xs ys \<Longrightarrow> utf8_valid_up_to xs = utf8_valid_up_to ys"
proof (induction xs arbitrary: ys rule: utf8_valid_up_to.induct)
  case (1 xs)
  have width: "utf8_width xs = utf8_width ys"
    by (rule utf8_width_alike [OF "1.prems"])
  show ?case
  proof (cases "utf8_width xs")
    case None
    then show ?thesis
      using width by (simp add: utf8_valid_up_to.simps)
  next
    case (Some n)
    have "utf8_valid_up_to (drop n xs) = utf8_valid_up_to (drop n ys)"
      using "1.IH" [OF Some] list_all2_dropI [OF "1.prems"] by blast
    moreover have "utf8_width ys = Some n"
      using width Some by simp
    ultimately show ?thesis
      using Some utf8_valid_up_to.simps [of xs] utf8_valid_up_to.simps [of ys] by simp
  qed
qed

text \<open>How a query error reads as a form error.\<close>

fun form_component_of :: "QueryComponent \<Rightarrow> FormComponent" where
  "form_component_of QueryKey = FormName"
| "form_component_of QueryValue = FormValue"

definition form_error_of :: "QueryParseError \<Rightarrow> FormError" where
  "form_error_of e =
     (case query_kind e of
        QueryInvalidPercentEncoding \<Rightarrow> FormInvalidPercentEncoding (query_pair_index e)
          (form_component_of (query_component e)) (query_byte_offset e)
      | QueryInvalidUtf8 \<Rightarrow> FormInvalidUtf8 (query_pair_index e)
          (form_component_of (query_component e)) (query_byte_offset e))"

lemma validate_component_decode:
  assumes "percent_decode_ok pd"
  shows "validate_component pd s i (form_component_of c)
    = (case decode_component s i c of Inl e \<Rightarrow> Err (form_error_of e) | Inr _ \<Rightarrow> Ok ())"
proof (cases "decode_bytes 0 s")
  case (Inl position)
  then show ?thesis
    by (simp add: validate_component_def decode_component_def check_escapes_decode form_error_of_def)
next
  case (Inr d)
  have pd: "pd s = lenient_decode s"
    using assms by (simp add: percent_decode_ok_def)
  note alike = decode_bytes_alike [OF Inr]
  have "utf8_valid_up_to d = utf8_valid_up_to (pd s)" "length d = length (pd s)"
    using utf8_valid_alike [OF alike] list_all2_lengthD [OF alike] by (simp_all add: pd)
  then show ?thesis
    using Inr by (simp add: validate_component_def decode_component_def check_escapes_decode from_utf8_def
        form_error_of_def)
qed

lemma validate_pairs_parse:
  assumes "percent_decode_ok pd"
  shows "validate_pairs pd i ps
    = (case parse_pairs i ps acc of Inl e \<Rightarrow> Err (form_error_of e) | Inr _ \<Rightarrow> Ok ())"
proof (induction ps arbitrary: i acc)
  case (Cons pair rest)
  obtain ek ev where wire: "(case split_once (CHR ''='') pair of Some kv \<Rightarrow> kv | None \<Rightarrow> (pair, [])) = (ek, ev)"
    by fastforce
  note comp = validate_component_decode [OF assms, of _ i QueryKey, unfolded form_component_of.simps]
    validate_component_decode [OF assms, of _ i QueryValue, unfolded form_component_of.simps]
  show ?case
  proof (cases "pair = []")
    case True
    then show ?thesis
      using Cons.IH [of "Suc i" acc] by simp
  next
    case False
    have rest: "validate_pairs pd (Suc i) rest
        = (case parse_pairs (Suc i) rest acc' of Inl e \<Rightarrow> Err (form_error_of e) | Inr _ \<Rightarrow> Ok ())" for acc'
      by (rule Cons.IH)
    show ?thesis
      using False wire
      by (cases "decode_component ek i QueryKey"; cases "decode_component ev i QueryValue")
        (simp_all add: comp rest [symmetric])
  qed
qed simp

lemma list_all2_pairs_lenient:
  "list_all2 (\<lambda>(ek, ev) (k, v). decodes_to ek k \<and> decodes_to ev v) ws kvs
    \<Longrightarrow> kvs = map (\<lambda>(n, v). (lenient_decode (plus_to_space n), lenient_decode (plus_to_space v))) ws
      \<and> (\<forall>(n, v)\<in>set kvs. utf8_valid_up_to n = length n \<and> utf8_valid_up_to v = length v)"
  by (induction rule: list_all2_induct) (auto simp: decodes_to_def dest: decode_bytes_plus)

text \<open>
  C35. The two decoders of URL-encoded data agree although they are different code: the form
  decoder, which validates the bytes and then calls the \<open>url\<close> crate, accepts exactly the inputs
  that the query decoder accepts, yields the same pairs in the same order, and reports the same
  error at the same pair, side and byte offset. The hypotheses are the documented behaviour of
  the two crates' codecs.
\<close>

theorem form_and_query_agree:
  assumes "percent_decode_ok percent_decode" "form_urlencoded_ok form_urlencoded"
  shows "case query_parse s of
      Inl e \<Rightarrow> form_parse percent_decode form_urlencoded s = Err (form_error_of e)
    | Inr q \<Rightarrow> (\<exists>f. form_parse percent_decode form_urlencoded s = Ok f \<and> form_pairs f = query_pairs q)"
proof -
  have parse: "query_parse s = parse_pairs 0 (split_on (CHR ''&'') s) query_default"
    by (simp add: query_parse_def)
  then have valid: "validate_encoded_form percent_decode s
      = (case query_parse s of Inl e \<Rightarrow> Err (form_error_of e) | Inr _ \<Rightarrow> Ok ())"
    using validate_pairs_parse [OF assms(1)] by (simp add: validate_encoded_form_def)
  show ?thesis
  proof (cases "query_parse s")
    case (Inl e)
    then show ?thesis
      using valid by (simp add: form_parse_def)
  next
    case (Inr q)
    then obtain kvs where kvs: "list_all2 (\<lambda>(ek, ev) (k, v). decodes_to ek k \<and> decodes_to ev v) (wire_pairs s) kvs"
      and q: "q = query.push_all kvs query_default"
      using query_parse_Ok by blast
    have "form_urlencoded s = kvs"
      using assms(2) list_all2_pairs_lenient [OF kvs] unfolding form_urlencoded_ok_def Let_def by blast
    then show ?thesis
      using Inr valid q form.pairs_push_all [of form_new kvs] query.pairs_push_all [of query_default kvs]
      by (simp add: form_parse_def form.pairs_empty query.pairs_empty)
  qed
qed

definition reference_urlencoded :: "string \<Rightarrow> (string \<times> string) list" where
  "reference_urlencoded s =
     map (\<lambda>(n, v). (lenient_decode (plus_to_space n), lenient_decode (plus_to_space v))) (wire_pairs s)"

theorem form_and_query_agree_witness:
  "(\<exists>f. form_parse lenient_decode reference_urlencoded ''a=1&b=%41+c'' = Ok f
      \<and> form_pairs f = [(''a'', ''1''), (''b'', ''A c'')])
   \<and> form_parse lenient_decode reference_urlencoded ''a=1&b=x%4'' = Err (FormInvalidPercentEncoding 1 FormValue 1)"
proof -
  have "percent_decode_ok lenient_decode" "form_urlencoded_ok reference_urlencoded"
    by (simp_all add: percent_decode_ok_def form_urlencoded_ok_def reference_urlencoded_def Let_def)
  note agree = form_and_query_agree [OF this]
  have "query_parse ''a=1&b=%41+c'' = Ok \<lparr>query_pairs = [(''a'', ''1''), (''b'', ''A c'')],
        query_indices = [(''a'', [0]), (''b'', [1])]\<rparr>"
    "query_parse ''a=1&b=x%4'' = Err \<lparr>query_pair_index = 1, query_component = QueryValue,
        query_byte_offset = 1, query_kind = QueryInvalidPercentEncoding\<rparr>"
    by code_simp+
  then show ?thesis
    using agree [of "''a=1&b=%41+c''"] agree [of "''a=1&b=x%4''"] by (simp add: form_error_of_def)
qed

end
