(* ===== verification/Csrf_Policy.thy ===== *)
theory Csrf_Policy
  imports Cookie Url_Encoded
begin

text \<open>
  The CSRF policy of \<open>lily_middleware/src/csrf.rs\<close>: the profiles, the session bindings, the
  cookie attributes, the validation of a policy and its compilation, together with the parts of a
  request that enforcement reads (\<open>lily_web_core/src/request\<close>).
  Byte strings, secrets and session identifiers are byte lists, a duration is its number of
  nanoseconds, and a configuration error is its stable code.
\<close>

section \<open>Third-party functions and requests\<close>

text \<open>What this code reads of a \<open>url::Url\<close>, and the outcome of the \<open>tower-http\<close> CSRF layer.\<close>

record ParsedUrl =
  url_scheme :: string
  url_username :: string
  url_password :: "string option"
  url_query :: "string option"
  url_fragment :: "string option"
  url_path :: string
  url_origin :: string

datatype ProtectionErrorKind = CrossOriginRequest | CrossOriginRequestFromOldBrowser | OtherProtectionError

record TowerRequest =
  head_method :: string
  head_uri :: string
  head_headers :: "(string \<times> string) list"

text \<open>
  The crates the code calls. \<open>hmac_sha256\<close> gives the MAC under a key, or nothing where the key is
  refused; \<open>uri_path\<close> parses a URI and gives its path; \<open>layer_verdict\<close> is the decision of a CSRF
  layer that trusts the given origins.
\<close>

record csrf_crates =
  b64_encode :: "string \<Rightarrow> string"
  b64_decode :: "string \<Rightarrow> string option"
  hmac_sha256 :: "string \<Rightarrow> (string \<Rightarrow> string) option"
  cookie_split :: "string \<Rightarrow> (string \<times> string) option list"
  form_percent_decode :: "string \<Rightarrow> string"
  form_urlencoded_parse :: "string \<Rightarrow> (string \<times> string) list"
  mime_parse :: "string \<Rightarrow> (string \<times> (string \<times> string) list) option"
  uri_path :: "string \<Rightarrow> string option"
  http_method_ok :: "string \<Rightarrow> bool"
  header_name_ok :: "string \<Rightarrow> bool"
  header_value_ok :: "string \<Rightarrow> bool"
  url_parse :: "string \<Rightarrow> ParsedUrl option"
  trusted_origin_ok :: "string \<Rightarrow> bool"
  layer_verdict :: "string list \<Rightarrow> TowerRequest \<Rightarrow> ProtectionErrorKind option"

text \<open>
  The header lines in wire order, the session identifier published in the request-local state, and
  the bytes that buffering the body under a limit leaves, where buffering succeeds.
\<close>

record HttpRequest =
  req_method :: string
  req_path :: string
  req_headers :: "(string \<times> string) list"
  req_session :: "string option"
  req_buffered :: "nat \<Rightarrow> string option"

definition headers_named :: "HttpRequest \<Rightarrow> string \<Rightarrow> string list" where
  "headers_named req name = map snd (filter (\<lambda>h. eq_ignore_ascii_case (fst h) name) (req_headers req))"

text \<open>An iterator that must not have a second item.\<close>

fun at_most_one :: "'e \<Rightarrow> 'a list \<Rightarrow> ('e, 'a option) result" where
  "at_most_one e [] = Ok None"
| "at_most_one e [x] = Ok (Some x)"
| "at_most_one e (x # y # zs) = Err e"

definition cached_cookie_jar :: "csrf_crates \<Rightarrow> HttpRequest \<Rightarrow> (RequestCookieError, RequestCookieJar) result" where
  "cached_cookie_jar crates req = parse_jar (cookie_split crates) (headers_named req ''cookie'')"

definition request_cookie :: "csrf_crates \<Rightarrow> HttpRequest \<Rightarrow> string \<Rightarrow> (RequestCookieError, string option) result" where
  "request_cookie crates req name =
     and_then (validate_request_name name) (\<lambda>_.
     and_then (cached_cookie_jar crates req) (\<lambda>jar. jar_get jar name))"

definition is_form :: "csrf_crates \<Rightarrow> HttpRequest \<Rightarrow> bool" where
  "is_form crates req =
     (case headers_named req ''content-type'' of
        [] \<Rightarrow> False
      | content_type # _ \<Rightarrow> is_form_content_type (mime_parse crates) content_type)"

section \<open>Limits and errors\<close>

abbreviation MAX_CSRF_TRUSTED_ORIGINS :: nat where "MAX_CSRF_TRUSTED_ORIGINS \<equiv> 64"
abbreviation MAX_CSRF_BYPASSES :: nat where "MAX_CSRF_BYPASSES \<equiv> 32"
abbreviation MAX_CSRF_PREVIOUS_KEYS :: nat where "MAX_CSRF_PREVIOUS_KEYS \<equiv> 4"
abbreviation MAX_CSRF_POLICY_BYTES :: nat where "MAX_CSRF_POLICY_BYTES \<equiv> 32 * 1024"
abbreviation MAX_CSRF_ORIGIN_BYTES :: nat where "MAX_CSRF_ORIGIN_BYTES \<equiv> 2 * 1024"
abbreviation MAX_CSRF_PATH_BYTES :: nat where "MAX_CSRF_PATH_BYTES \<equiv> 2 * 1024"
abbreviation MAX_CSRF_TOKEN_BYTES :: nat where "MAX_CSRF_TOKEN_BYTES \<equiv> 512"
abbreviation MAX_CSRF_BINDING_BYTES :: nat where "MAX_CSRF_BINDING_BYTES \<equiv> 4 * 1024"
abbreviation MAX_CSRF_FORM_BODY_BYTES :: nat where "MAX_CSRF_FORM_BODY_BYTES \<equiv> 64 * 1024"
abbreviation CSRF_NONCE_BYTES :: nat where "CSRF_NONCE_BYTES \<equiv> 32"
abbreviation CSRF_MAC_BYTES :: nat where "CSRF_MAC_BYTES \<equiv> 32"
abbreviation (input) duration_secs :: "nat \<Rightarrow> nat" where "duration_secs n \<equiv> n * 1000000000"
abbreviation MAX_CSRF_TOKEN_TTL :: nat where "MAX_CSRF_TOKEN_TTL \<equiv> duration_secs (7 * 24 * 60 * 60)"
abbreviation MAX_CSRF_STORE_TIMEOUT :: nat where "MAX_CSRF_STORE_TIMEOUT \<equiv> duration_secs 30"

text \<open>\<open>Duration::as_secs\<close> and \<open>Duration::subsec_nanos\<close>.\<close>

definition as_secs :: "nat \<Rightarrow> u64" where "as_secs duration = of_nat (duration div 1000000000)"
definition subsec_nanos :: "nat \<Rightarrow> nat" where "subsec_nanos duration = duration mod 1000000000"

datatype CsrfBindingError = BindingEmpty | BindingTooLong nat | BindingMalformed | BindingAmbiguous

datatype CsrfTokenStoreError =
  Unavailable | StoreOperationTimeout | Capacity | CorruptData | StoreInternal

datatype CsrfRuntimeRejection =
    CrossOrigin | CrossOriginLegacy | CrossOriginHeadersInvalid
  | BindingMissing | BindingInvalid | CookieMissing | CookieInvalid
  | TokenMissing | TokenAmbiguous | TokenMalformed | TokenExpired | TokenMismatch
  | SignatureInvalid | FormInvalid | ClockInvalid | StoreUnavailable | StoreTimeout | StoreInvalid

datatype CsrfOperationError =
    OpTokenModeRequired | OpBindingMissing | OpBindingInvalid | OpClockInvalid
  | OpRandomUnavailable | OpCookieInvalid | OpStoreUnavailable | OpStoreTimeout | OpStoreInvalid

section \<open>Session bindings\<close>

type_synonym csrf_binding = "HttpRequest \<Rightarrow> (CsrfBindingError, string option) result"

definition new_session_id :: "string \<Rightarrow> (CsrfBindingError, string) result" where
  "new_session_id v =
     (if v = [] then Err BindingEmpty
      else if length v > MAX_CSRF_BINDING_BYTES then Err (BindingTooLong MAX_CSRF_BINDING_BYTES)
      else Ok v)"

definition request_local_session_id :: csrf_binding where
  "request_local_session_id req = Ok (req_session req)"

fun map_binding_cookie_error :: "RequestCookieError \<Rightarrow> CsrfBindingError" where
  "map_binding_cookie_error DuplicateCookie = BindingAmbiguous"
| "map_binding_cookie_error (RequestValueTooLong _) = BindingTooLong MAX_CSRF_BINDING_BYTES"
| "map_binding_cookie_error _ = BindingMalformed"

definition cookie_session_id :: "csrf_crates \<Rightarrow> string \<Rightarrow> csrf_binding" where
  "cookie_session_id crates cookie_name req =
     (case request_cookie crates req cookie_name of
        Inl e \<Rightarrow> Err (map_binding_cookie_error e)
      | Inr None \<Rightarrow> Ok None
      | Inr (Some v) \<Rightarrow> and_then (new_session_id v) (\<lambda>session. Ok (Some session)))"

section \<open>Policies\<close>

datatype CsrfMode =
  CrossOriginOnly | SignedDoubleSubmit | DefenseInDepth | Synchronizer | SynchronizerDefenseInDepth

definition uses_cross_origin :: "CsrfMode \<Rightarrow> bool" where
  "uses_cross_origin mode \<longleftrightarrow> mode \<in> {CrossOriginOnly, DefenseInDepth, SynchronizerDefenseInDepth}"

definition uses_token :: "CsrfMode \<Rightarrow> bool" where
  "uses_token mode \<longleftrightarrow> mode \<noteq> CrossOriginOnly"

definition uses_signed_token :: "CsrfMode \<Rightarrow> bool" where
  "uses_signed_token mode \<longleftrightarrow> mode \<in> {SignedDoubleSubmit, DefenseInDepth}"

definition uses_synchronizer_token :: "CsrfMode \<Rightarrow> bool" where
  "uses_synchronizer_token mode \<longleftrightarrow> mode \<in> {Synchronizer, SynchronizerDefenseInDepth}"

record CsrfCookiePolicy =
  cookie_name :: string
  cookie_secure :: bool
  cookie_http_only :: bool
  cookie_same_site :: CookieSameSite
  cookie_path :: string

definition csrf_response_cookie ::
  "CsrfCookiePolicy \<Rightarrow> string \<Rightarrow> nat \<Rightarrow> (ResponseCookieError, unit ResponseCookie) result" where
  "csrf_response_cookie self v ttl =
     and_then (new_cookie (cookie_name self) v) (\<lambda>c.
     and_then (path (cookie_path self)
       (same_site (cookie_same_site self)
         (http_only (cookie_http_only self) (secure (cookie_secure self) c)))) (\<lambda>c.
     max_age (as_secs ttl) c))"

definition csrf_removal :: "CsrfCookiePolicy \<Rightarrow> (ResponseCookieError, CookieRemoval) result" where
  "csrf_removal self = and_then (new_removal (cookie_name self)) (removal_path (cookie_path self))"

definition csrf_cookie_validate :: "CsrfCookiePolicy \<Rightarrow> nat \<Rightarrow> (string, unit) result" where
  "csrf_cookie_validate self ttl =
     (if strip_prefix_str ''__Host-'' (cookie_name self) \<noteq> None
         \<and> (\<not> cookie_secure self \<or> cookie_path self \<noteq> ''/'')
      then Err ''CSRF_HOST_COOKIE_INVALID''
      else if cookie_same_site self = SameSiteNone \<and> \<not> cookie_secure self
      then Err ''CSRF_SAMESITE_NONE_INSECURE''
      else case csrf_response_cookie self ''csrf-probe'' ttl of
             Inl _ \<Rightarrow> Err ''CSRF_COOKIE_INVALID''
           | Inr _ \<Rightarrow> Ok ())"

record CsrfBypass =
  bypass_method :: string
  bypass_path :: string

record SignedDoubleSubmitPolicy =
  sp_primary_key :: string
  sp_previous_keys :: "string list"
  sp_binding :: csrf_binding
  sp_cookie :: CsrfCookiePolicy
  sp_token_header :: string
  sp_form_field :: "string option"
  sp_ttl :: nat

text \<open>
  A token record and the store an application supplies. Each store operation is given the timeout
  that \<open>tokio::time::timeout\<close> puts on it and answers \<open>None\<close> where the timeout elapses.
\<close>

record StoredCsrfToken =
  stored_token :: string
  expires_at_unix_seconds :: u64

record 's CsrfTokenStore =
  st_load_or_insert :: "nat \<Rightarrow> string \<Rightarrow> StoredCsrfToken \<Rightarrow> u64 \<Rightarrow> 's
    \<Rightarrow> 's \<times> (CsrfTokenStoreError, StoredCsrfToken) result option"
  st_load :: "nat \<Rightarrow> string \<Rightarrow> 's \<Rightarrow> 's \<times> (CsrfTokenStoreError, StoredCsrfToken option) result option"
  st_replace :: "nat \<Rightarrow> string \<Rightarrow> StoredCsrfToken \<Rightarrow> 's \<Rightarrow> 's \<times> (CsrfTokenStoreError, unit) result option"
  st_revoke :: "nat \<Rightarrow> string \<Rightarrow> 's \<Rightarrow> 's \<times> (CsrfTokenStoreError, unit) result option"

record 's SynchronizerPolicy =
  yp_key_derivation_secret :: string
  yp_binding :: csrf_binding
  yp_store :: "'s CsrfTokenStore"
  yp_token_header :: string
  yp_form_field :: "string option"
  yp_ttl :: nat
  yp_store_timeout :: nat

record 's CsrfPolicy =
  pol_mode :: CsrfMode
  pol_trusted_origins :: "string list"
  pol_bypasses :: "CsrfBypass list"
  pol_signed :: "SignedDoubleSubmitPolicy option"
  pol_synchronizer :: "'s SynchronizerPolicy option"
  pol_invalid :: "string option"

section \<open>Validation\<close>

definition is_ascii_lowercase :: "char \<Rightarrow> bool" where
  "is_ascii_lowercase c \<longleftrightarrow> in_ascii_range (CHR ''a'') (CHR ''z'') c"

definition valid_bypass_path :: "csrf_crates \<Rightarrow> string \<Rightarrow> bool" where
  "valid_bypass_path crates p \<longleftrightarrow>
     p \<noteq> [] \<and> length p \<le> MAX_CSRF_PATH_BYTES \<and> starts_with (CHR ''/'') p
     \<and> \<not> list_ex (\<lambda>c. c \<in> {CHR ''?'', CHR ''#'', CHR 0x0d, CHR 0x0a}) p
     \<and> uri_path crates p \<noteq> None"

definition valid_form_field_name :: "string \<Rightarrow> bool" where
  "valid_form_field_name name \<longleftrightarrow>
     name \<noteq> [] \<and> length name \<le> 256
     \<and> list_all (\<lambda>b. is_ascii_alphanumeric b \<or> b \<in> {CHR ''_'', CHR ''-'', CHR ''.''}) name"

definition origin_ok :: "csrf_crates \<Rightarrow> string \<Rightarrow> bool" where
  "origin_ok crates origin =
     (case url_parse crates origin of
        None \<Rightarrow> False
      | Some u \<Rightarrow> url_scheme u \<in> {''http'', ''https''} \<and> url_username u = [] \<and> url_password u = None
          \<and> url_query u = None \<and> url_fragment u = None \<and> url_path u = ''/''
          \<and> url_origin u = origin \<and> header_value_ok crates origin)"

fun validate_origins_from :: "csrf_crates \<Rightarrow> string list \<Rightarrow> string list \<Rightarrow> (string, unit) result" where
  "validate_origins_from crates earlier [] = Ok ()"
| "validate_origins_from crates earlier (origin # rest) =
     (if origin \<in> set earlier then Err ''CSRF_ORIGIN_DUPLICATE''
      else if length origin > MAX_CSRF_ORIGIN_BYTES then Err ''CSRF_ORIGIN_LIMIT''
      else if \<not> origin_ok crates origin then Err ''CSRF_ORIGIN_INVALID''
      else validate_origins_from crates (earlier @ [origin]) rest)"

definition validate_origins :: "csrf_crates \<Rightarrow> string list \<Rightarrow> (string, unit) result" where
  "validate_origins crates origins =
     (if length origins > MAX_CSRF_TRUSTED_ORIGINS then Err ''CSRF_ORIGIN_LIMIT''
      else validate_origins_from crates [] origins)"

fun validate_bypasses_from :: "csrf_crates \<Rightarrow> CsrfBypass list \<Rightarrow> CsrfBypass list \<Rightarrow> (string, unit) result" where
  "validate_bypasses_from crates earlier [] = Ok ()"
| "validate_bypasses_from crates earlier (bypass # rest) =
     (if \<not> http_method_ok crates (bypass_method bypass) \<or> list_ex is_ascii_lowercase (bypass_method bypass)
         \<or> \<not> valid_bypass_path crates (bypass_path bypass)
      then Err ''CSRF_BYPASS_INVALID''
      else if bypass \<in> set earlier then Err ''CSRF_BYPASS_DUPLICATE''
      else validate_bypasses_from crates (earlier @ [bypass]) rest)"

definition validate_bypasses :: "csrf_crates \<Rightarrow> CsrfBypass list \<Rightarrow> (string, unit) result" where
  "validate_bypasses crates bypasses =
     (if length bypasses > MAX_CSRF_BYPASSES then Err ''CSRF_BYPASS_LIMIT''
      else validate_bypasses_from crates [] bypasses)"

text \<open>The checks both token profiles share, in the order of the source.\<close>

definition token_fields_validate ::
  "csrf_crates \<Rightarrow> string \<Rightarrow> string option \<Rightarrow> nat \<Rightarrow> (string, unit) result" where
  "token_fields_validate crates token_header form_field ttl =
     (if \<not> header_name_ok crates token_header then Err ''CSRF_TOKEN_HEADER_INVALID''
      else if \<not> pred_option valid_form_field_name form_field then Err ''CSRF_FORM_FIELD_INVALID''
      else if ttl = 0 \<or> ttl > MAX_CSRF_TOKEN_TTL \<or> subsec_nanos ttl \<noteq> 0 then Err ''CSRF_TOKEN_TTL_INVALID''
      else Ok ())"

definition validate_signed :: "csrf_crates \<Rightarrow> 's CsrfPolicy \<Rightarrow> (string, unit) result" where
  "validate_signed crates self =
     (if uses_signed_token (pol_mode self) then
        (case pol_signed self of
           None \<Rightarrow> Err ''CSRF_SIGNED_CONFIG_MISSING''
         | Some sp \<Rightarrow>
             if length (sp_previous_keys sp) > MAX_CSRF_PREVIOUS_KEYS
             then Err ''CSRF_PREVIOUS_KEY_LIMIT''
             else
               and_then (token_fields_validate crates (sp_token_header sp) (sp_form_field sp) (sp_ttl sp))
                 (\<lambda>_. csrf_cookie_validate (sp_cookie sp) (sp_ttl sp)))
      else if \<not> Option.is_none (pol_signed self) then Err ''CSRF_SIGNED_CONFIG_UNEXPECTED''
      else Ok ())"

definition validate_synchronizer :: "csrf_crates \<Rightarrow> 's CsrfPolicy \<Rightarrow> (string, unit) result" where
  "validate_synchronizer crates self =
     (if uses_synchronizer_token (pol_mode self) then
        (case pol_synchronizer self of
           None \<Rightarrow> Err ''CSRF_SYNCHRONIZER_CONFIG_MISSING''
         | Some sync \<Rightarrow>
             and_then (token_fields_validate crates (yp_token_header sync) (yp_form_field sync) (yp_ttl sync))
               (\<lambda>_. if yp_store_timeout sync = 0 \<or> yp_store_timeout sync > MAX_CSRF_STORE_TIMEOUT
                    then Err ''CSRF_STORE_TIMEOUT_INVALID'' else Ok ()))
      else if \<not> Option.is_none (pol_synchronizer self) then Err ''CSRF_SYNCHRONIZER_CONFIG_UNEXPECTED''
      else Ok ())"

definition option_len :: "string option \<Rightarrow> nat" where
  "option_len s = (case s of None \<Rightarrow> 0 | Some t \<Rightarrow> length t)"

definition retained_policy_bytes :: "'s CsrfPolicy \<Rightarrow> nat" where
  "retained_policy_bytes self =
     sum_list (map length (pol_trusted_origins self)
       @ map (\<lambda>b. length (bypass_method b) + length (bypass_path b)) (pol_bypasses self))
     + (case pol_signed self of
          None \<Rightarrow> 0
        | Some sp \<Rightarrow> length (sp_token_header sp) + option_len (sp_form_field sp)
            + length (cookie_name (sp_cookie sp)) + length (cookie_path (sp_cookie sp)))
     + (case pol_synchronizer self of
          None \<Rightarrow> 0
        | Some sync \<Rightarrow> length (yp_token_header sync) + option_len (yp_form_field sync))"

definition csrf_validate :: "csrf_crates \<Rightarrow> 's CsrfPolicy \<Rightarrow> (string, unit) result" where
  "csrf_validate crates self =
     (case pol_invalid self of
        Some code \<Rightarrow> Err code
      | None \<Rightarrow>
          and_then (validate_origins crates (pol_trusted_origins self)) (\<lambda>_.
          and_then (validate_bypasses crates (pol_bypasses self)) (\<lambda>_.
          and_then (validate_signed crates self) (\<lambda>_.
          and_then (validate_synchronizer crates self) (\<lambda>_.
          if uses_token (pol_mode self)
             \<noteq> (\<not> Option.is_none (pol_signed self) \<or> \<not> Option.is_none (pol_synchronizer self))
          then Err ''CSRF_TOKEN_CONFIG_INVALID''
          else if retained_policy_bytes self > MAX_CSRF_POLICY_BYTES
          then Err ''CSRF_POLICY_BYTES_EXCEEDED''
          else Ok ())))))"

section \<open>Compilation\<close>

record CompiledSignedDoubleSubmit =
  sg_keys :: "string list"
  sg_binding :: csrf_binding
  sg_cookie :: CsrfCookiePolicy
  sg_token_header :: string
  sg_form_field :: "string option"
  sg_ttl :: nat

record 's CompiledSynchronizer =
  sy_key_derivation_secret :: string
  sy_binding :: csrf_binding
  sy_store :: "'s CsrfTokenStore"
  sy_token_header :: string
  sy_form_field :: "string option"
  sy_ttl :: nat
  sy_store_timeout :: nat

text \<open>The adapter of the cross-origin layer is the list of the origins it was given.\<close>

record 's CompiledCsrfPolicy =
  comp_mode :: CsrfMode
  comp_bypasses :: "CsrfBypass list"
  comp_cross_origin :: "string list option"
  comp_signed :: "CompiledSignedDoubleSubmit option"
  comp_synchronizer :: "'s CompiledSynchronizer option"

definition adapter_try_new :: "csrf_crates \<Rightarrow> 's CsrfPolicy \<Rightarrow> (string, string list) result" where
  "adapter_try_new crates policy =
     (if list_all (trusted_origin_ok crates) (pol_trusted_origins policy)
      then Ok (pol_trusted_origins policy) else Err ''CSRF_ORIGIN_INVALID'')"

definition compile_signed :: "SignedDoubleSubmitPolicy \<Rightarrow> CompiledSignedDoubleSubmit" where
  "compile_signed sp =
     \<lparr>sg_keys = sp_primary_key sp # sp_previous_keys sp, sg_binding = sp_binding sp,
      sg_cookie = sp_cookie sp, sg_token_header = sp_token_header sp,
      sg_form_field = sp_form_field sp, sg_ttl = sp_ttl sp\<rparr>"

definition compile_synchronizer :: "'s SynchronizerPolicy \<Rightarrow> 's CompiledSynchronizer" where
  "compile_synchronizer sync =
     \<lparr>sy_key_derivation_secret = yp_key_derivation_secret sync, sy_binding = yp_binding sync,
      sy_store = yp_store sync, sy_token_header = yp_token_header sync,
      sy_form_field = yp_form_field sync, sy_ttl = yp_ttl sync,
      sy_store_timeout = yp_store_timeout sync\<rparr>"

definition csrf_try_new :: "csrf_crates \<Rightarrow> 's CsrfPolicy \<Rightarrow> (string, 's CompiledCsrfPolicy) result" where
  "csrf_try_new crates policy =
     and_then (csrf_validate crates policy) (\<lambda>_.
     and_then (if uses_cross_origin (pol_mode policy)
               then and_then (adapter_try_new crates policy) (\<lambda>adapter. Ok (Some adapter))
               else Ok None) (\<lambda>cross_origin.
     Ok \<lparr>comp_mode = pol_mode policy, comp_bypasses = pol_bypasses policy,
         comp_cross_origin = cross_origin,
         comp_signed = map_option compile_signed (pol_signed policy),
         comp_synchronizer = map_option compile_synchronizer (pol_synchronizer policy)\<rparr>))"

definition try_new_route_scoped :: "csrf_crates \<Rightarrow> 's CsrfPolicy \<Rightarrow> (string, 's CompiledCsrfPolicy) result" where
  "try_new_route_scoped crates policy =
     (if pol_bypasses policy \<noteq> [] then Err ''CSRF_ROUTE_BYPASS_UNSUPPORTED''
      else csrf_try_new crates policy)"

section \<open>What a compiled policy carries\<close>

lemma at_most_one_Some: "at_most_one e xs = Ok (Some x) \<longleftrightarrow> xs = [x]"
  by (cases "(e, xs)" rule: at_most_one.cases) auto

lemma compiled_profile:
  assumes "csrf_try_new crates P = Ok policy"
  shows "comp_bypasses policy = pol_bypasses P"
    and "comp_cross_origin policy = (if uses_cross_origin (pol_mode P) then Some (pol_trusted_origins P) else None)"
    and "comp_signed policy = map_option compile_signed (pol_signed P)"
    and "comp_synchronizer policy = map_option compile_synchronizer (pol_synchronizer P)"
  using assms by (auto simp: csrf_try_new_def adapter_try_new_def split: if_splits)

lemma compiled_parts:
  assumes "csrf_try_new crates P = Ok policy"
  shows "(pol_signed P \<noteq> None) = uses_signed_token (pol_mode P)"
    and "(pol_synchronizer P \<noteq> None) = uses_synchronizer_token (pol_mode P)"
    and "pol_signed P = Some sp \<Longrightarrow> csrf_cookie_validate (sp_cookie sp) (sp_ttl sp) = Ok ()"
    and "pol_signed P = Some sp \<Longrightarrow> sp_ttl sp \<le> MAX_CSRF_TOKEN_TTL"
  using assms by (auto simp: csrf_try_new_def csrf_validate_def validate_signed_def
      validate_synchronizer_def token_fields_validate_def Option.is_none_def split: option.splits if_splits)

end
