(* ===== verification/Csrf_Runtime.thy ===== *)
theory Csrf_Runtime
  imports Csrf_Policy
begin

text \<open>
  The enforcement runtime of \<open>lily_middleware/src/csrf.rs\<close>: tokens and their MAC, the signed
  double-submit profile, the synchronizer profile over an application store, the cross-origin
  adapter, and the compiled policy that composes them. Clock readings (\<open>None\<close> is a clock before
  the epoch) and random nonces (\<open>None\<close> is an unavailable source) are arguments. The store is an
  explicit state.
\<close>

section \<open>Tokens\<close>

text \<open>\<open>u64::to_be_bytes\<close> and \<open>str::parse::<u64>\<close>, which accepts one leading plus sign.\<close>

fun be_digits :: "nat \<Rightarrow> nat \<Rightarrow> string" where
  "be_digits 0 n = []"
| "be_digits (Suc k) n = be_digits k (n div 256) @ [char_of (n mod 256)]"

definition u64_be_bytes :: "u64 \<Rightarrow> string" where
  "u64_be_bytes w = be_digits 8 (unat w)"

fun digits_value :: "nat \<Rightarrow> string \<Rightarrow> nat option" where
  "digits_value acc [] = Some acc"
| "digits_value acc (c # cs) =
     (if in_ascii_range (CHR ''0'') (CHR ''9'') c
      then digits_value (acc * 10 + (byte c - byte (CHR ''0''))) cs else None)"

definition parse_u64 :: "string \<Rightarrow> u64 option" where
  "parse_u64 s =
     (let digits = (case s of c # cs \<Rightarrow> if c = CHR ''+'' then cs else s | [] \<Rightarrow> [])
      in if digits = [] then None
         else case digits_value 0 digits of
                None \<Rightarrow> None
              | Some n \<Rightarrow> if n < 2 ^ 64 then Some (of_nat n) else None)"

abbreviation CSRF_TOKEN_VERSION :: string where "CSRF_TOKEN_VERSION \<equiv> ''v1''"

definition CSRF_MAC_DOMAIN :: string where
  "CSRF_MAC_DOMAIN = ''lily.csrf.signed-double-submit.v1'' @ [CHR 0x00]"

definition CSRF_STORE_KEY_DOMAIN :: string where
  "CSRF_STORE_KEY_DOMAIN = ''lily.csrf.synchronizer.store-key.v1'' @ [CHR 0x00]"

record ParsedToken =
  token_expires :: u64
  token_nonce :: string
  token_mac :: string

definition decode_fixed :: "csrf_crates \<Rightarrow> nat \<Rightarrow> string \<Rightarrow> (CsrfRuntimeRejection, string) result" where
  "decode_fixed crates n encoded =
     (case b64_decode crates encoded of
        None \<Rightarrow> Err TokenMalformed
      | Some decoded \<Rightarrow> if length decoded = n then Ok decoded else Err TokenMalformed)"

definition parse_token :: "csrf_crates \<Rightarrow> string \<Rightarrow> (CsrfRuntimeRejection, ParsedToken) result" where
  "parse_token crates token =
     (if length token > MAX_CSRF_TOKEN_BYTES then Err TokenMalformed
      else case split_on (CHR ''.'') token of
        [version, expiry, nonce, mac] \<Rightarrow>
          if version \<noteq> CSRF_TOKEN_VERSION then Err TokenMalformed
          else (case parse_u64 expiry of
             None \<Rightarrow> Err TokenMalformed
           | Some e \<Rightarrow>
               and_then (decode_fixed crates CSRF_NONCE_BYTES nonce) (\<lambda>n.
               and_then (decode_fixed crates CSRF_MAC_BYTES mac) (\<lambda>m.
               Ok \<lparr>token_expires = e, token_nonce = n, token_mac = m\<rparr>)))
      | _ \<Rightarrow> Err TokenMalformed)"

definition encode_token :: "csrf_crates \<Rightarrow> u64 \<Rightarrow> string \<Rightarrow> string \<Rightarrow> string" where
  "encode_token crates e nonce mac =
     CSRF_TOKEN_VERSION @ ''.'' @ show_nat (unat e) @ ''.'' @ b64_encode crates nonce @ ''.''
       @ b64_encode crates mac"

text \<open>The bytes that \<open>update_mac\<close> feeds to the MAC.\<close>

definition update_mac :: "string \<Rightarrow> u64 \<Rightarrow> string \<Rightarrow> string" where
  "update_mac binding e nonce =
     CSRF_MAC_DOMAIN @ u64_be_bytes (of_nat (length binding)) @ binding @ u64_be_bytes e @ nonce"

definition sign :: "csrf_crates \<Rightarrow> string \<Rightarrow> string \<Rightarrow> u64 \<Rightarrow> string \<Rightarrow> string option" where
  "sign crates key binding e nonce =
     map_option (\<lambda>mac. mac (update_mac binding e nonce)) (hmac_sha256 crates key)"

definition derive_store_key :: "csrf_crates \<Rightarrow> string \<Rightarrow> string \<Rightarrow> string option" where
  "derive_store_key crates secret binding =
     map_option (\<lambda>mac. mac (CSRF_STORE_KEY_DOMAIN @ u64_be_bytes (of_nat (length binding)) @ binding))
       (hmac_sha256 crates secret)"

definition valid_synchronizer_token :: "csrf_crates \<Rightarrow> string \<Rightarrow> bool" where
  "valid_synchronizer_token crates token =
     (if token = [] \<or> length token > MAX_CSRF_TOKEN_BYTES then False
      else case b64_decode crates token of
             None \<Rightarrow> False
           | Some decoded \<Rightarrow> length decoded = CSRF_NONCE_BYTES \<and> b64_encode crates decoded = token)"

definition stored_from_parts :: "csrf_crates \<Rightarrow> string \<Rightarrow> u64 \<Rightarrow> (CsrfTokenStoreError, StoredCsrfToken) result" where
  "stored_from_parts crates token e =
     (if e = 0 \<or> \<not> valid_synchronizer_token crates token then Err CorruptData
      else Ok \<lparr>stored_token = token, expires_at_unix_seconds = e\<rparr>)"

section \<open>The token of a request\<close>

definition exact_header :: "HttpRequest \<Rightarrow> string \<Rightarrow> (CsrfRuntimeRejection, string option) result" where
  "exact_header req name = at_most_one TokenAmbiguous (headers_named req name)"

definition extract_form_token ::
  "csrf_crates \<Rightarrow> HttpRequest \<Rightarrow> string \<Rightarrow> (CsrfRuntimeRejection, string option) result" where
  "extract_form_token crates req field_name =
     (if \<not> is_form crates req then Ok None
      else case req_buffered req MAX_CSRF_FORM_BODY_BYTES of
        None \<Rightarrow> Err FormInvalid
      | Some body \<Rightarrow>
          (case form_parse (form_percent_decode crates) (form_urlencoded_parse crates) body of
             Inl _ \<Rightarrow> Err FormInvalid
           | Inr form \<Rightarrow> at_most_one TokenAmbiguous (form_get_all field_name form)))"

definition extract_request_token ::
  "csrf_crates \<Rightarrow> HttpRequest \<Rightarrow> string \<Rightarrow> string option \<Rightarrow> (CsrfRuntimeRejection, string) result" where
  "extract_request_token crates req token_header form_field =
     and_then (exact_header req token_header) (\<lambda>header_token.
     and_then (case form_field of
                 Some field_name \<Rightarrow> extract_form_token crates req field_name
               | None \<Rightarrow> Ok None) (\<lambda>form_token.
     and_then (case (header_token, form_token) of
                 (Some _, Some _) \<Rightarrow> Err TokenAmbiguous
               | (Some token, None) \<Rightarrow> Ok token
               | (None, Some token) \<Rightarrow> Ok token
               | (None, None) \<Rightarrow> Err TokenMissing) (\<lambda>token.
     if length token > MAX_CSRF_TOKEN_BYTES then Err TokenMalformed else Ok token)))"

section \<open>Signed double submit\<close>

text \<open>The \<open>binding\<close> method of both token profiles.\<close>

definition session_binding :: "csrf_binding \<Rightarrow> HttpRequest \<Rightarrow> (CsrfOperationError, string) result" where
  "session_binding binding req =
     (case binding req of
        Inl _ \<Rightarrow> Err OpBindingInvalid
      | Inr None \<Rightarrow> Err OpBindingMissing
      | Inr (Some session) \<Rightarrow> Ok session)"

text \<open>The same lookup as \<open>enforce\<close> maps it.\<close>

definition enforced_binding :: "csrf_binding \<Rightarrow> HttpRequest \<Rightarrow> (CsrfRuntimeRejection, string) result" where
  "enforced_binding binding req =
     (case binding req of
        Inl _ \<Rightarrow> Err BindingInvalid
      | Inr None \<Rightarrow> Err BindingMissing
      | Inr (Some session) \<Rightarrow> Ok session)"

text \<open>The key vector of a compiled profile starts with the primary key, so its head exists.\<close>

definition signed_issue ::
  "csrf_crates \<Rightarrow> CompiledSignedDoubleSubmit \<Rightarrow> HttpRequest \<Rightarrow> u64 \<Rightarrow> string option
    \<Rightarrow> (CsrfOperationError, string \<times> unit ResponseCookie) result" where
  "signed_issue crates self req now random =
     and_then (session_binding (sg_binding self) req) (\<lambda>session.
     case checked_add now (as_secs (sg_ttl self)) of
       None \<Rightarrow> Err OpClockInvalid
     | Some e \<Rightarrow>
         (case random of
            None \<Rightarrow> Err OpRandomUnavailable
          | Some nonce \<Rightarrow>
              (case sign crates (hd (sg_keys self)) session e nonce of
                 None \<Rightarrow> Err OpRandomUnavailable
               | Some mac \<Rightarrow>
                   let token = encode_token crates e nonce mac
                   in case csrf_response_cookie (sg_cookie self) token (sg_ttl self) of
                        Inl _ \<Rightarrow> Err OpCookieInvalid
                      | Inr cookie \<Rightarrow> Ok (token, cookie))))"

definition signed_enforce ::
  "csrf_crates \<Rightarrow> CompiledSignedDoubleSubmit \<Rightarrow> HttpRequest \<Rightarrow> u64 \<Rightarrow> (CsrfRuntimeRejection, unit) result" where
  "signed_enforce crates self req now =
     and_then (enforced_binding (sg_binding self) req) (\<lambda>session.
     and_then (case request_cookie crates req (cookie_name (sg_cookie self)) of
                 Inl _ \<Rightarrow> Err CookieInvalid
               | Inr None \<Rightarrow> Err CookieMissing
               | Inr (Some cookie) \<Rightarrow>
                   if length cookie > MAX_CSRF_TOKEN_BYTES then Err CookieInvalid else Ok cookie) (\<lambda>cookie.
     and_then (extract_request_token crates req (sg_token_header self) (sg_form_field self)) (\<lambda>request_token.
     if cookie \<noteq> request_token then Err TokenMismatch
     else
       and_then (parse_token crates request_token) (\<lambda>parsed.
       if token_expires parsed \<le> now then Err TokenExpired
       else if list_ex (\<lambda>key. sign crates key session (token_expires parsed) (token_nonce parsed)
                                = Some (token_mac parsed)) (sg_keys self)
       then Ok () else Err SignatureInvalid))))"

section \<open>Synchronizer tokens\<close>

fun store_call :: "(CsrfTokenStoreError, 't) result option \<Rightarrow> (CsrfOperationError, 't) result" where
  "store_call None = Err OpStoreTimeout"
| "store_call (Some (Inl StoreOperationTimeout)) = Err OpStoreTimeout"
| "store_call (Some (Inl CorruptData)) = Err OpStoreInvalid"
| "store_call (Some (Inl _)) = Err OpStoreUnavailable"
| "store_call (Some (Inr v)) = Ok v"

fun runtime_store_call :: "(CsrfTokenStoreError, 't) result option \<Rightarrow> (CsrfRuntimeRejection, 't) result" where
  "runtime_store_call None = Err StoreTimeout"
| "runtime_store_call (Some (Inl StoreOperationTimeout)) = Err StoreTimeout"
| "runtime_store_call (Some (Inl CorruptData)) = Err StoreInvalid"
| "runtime_store_call (Some (Inl _)) = Err StoreUnavailable"
| "runtime_store_call (Some (Inr v)) = Ok v"

text \<open>The binding and store key that \<open>issue\<close>, \<open>rotate\<close> and \<open>clear\<close> start with.\<close>

definition sync_store_key ::
  "csrf_crates \<Rightarrow> 's CompiledSynchronizer \<Rightarrow> HttpRequest \<Rightarrow> (CsrfOperationError, string) result" where
  "sync_store_key crates self req =
     and_then (session_binding (sy_binding self) req) (\<lambda>session.
     case derive_store_key crates (sy_key_derivation_secret self) session of
       None \<Rightarrow> Err OpStoreInvalid
     | Some key \<Rightarrow> Ok key)"

definition candidate ::
  "csrf_crates \<Rightarrow> 's CompiledSynchronizer \<Rightarrow> u64 \<Rightarrow> string option \<Rightarrow> (CsrfOperationError, StoredCsrfToken) result" where
  "candidate crates self now random =
     (case checked_add now (as_secs (sy_ttl self)) of
        None \<Rightarrow> Err OpClockInvalid
      | Some e \<Rightarrow>
          (case random of
             None \<Rightarrow> Err OpRandomUnavailable
           | Some nonce \<Rightarrow>
               (case stored_from_parts crates (b64_encode crates nonce) e of
                  Inl _ \<Rightarrow> Err OpStoreInvalid
                | Inr record \<Rightarrow> Ok record)))"

definition sync_issue ::
  "csrf_crates \<Rightarrow> 's CompiledSynchronizer \<Rightarrow> HttpRequest \<Rightarrow> u64 \<Rightarrow> string option \<Rightarrow> 's
    \<Rightarrow> 's \<times> (CsrfOperationError, string) result" where
  "sync_issue crates self req now random s =
     (case and_then (sync_store_key crates self req) (\<lambda>key.
           and_then (candidate crates self now random) (\<lambda>record. Ok (key, record))) of
        Inl e \<Rightarrow> (s, Err e)
      | Inr (key, record) \<Rightarrow>
          let (s', answer) = st_load_or_insert (sy_store self) (sy_store_timeout self) key record now s
          in (s', and_then (store_call answer) (\<lambda>stored.
                if expires_at_unix_seconds stored \<le> now then Err OpStoreInvalid
                else Ok (stored_token stored))))"

definition sync_rotate ::
  "csrf_crates \<Rightarrow> 's CompiledSynchronizer \<Rightarrow> HttpRequest \<Rightarrow> u64 \<Rightarrow> string option \<Rightarrow> 's
    \<Rightarrow> 's \<times> (CsrfOperationError, string) result" where
  "sync_rotate crates self req now random s =
     (case and_then (sync_store_key crates self req) (\<lambda>key.
           and_then (candidate crates self now random) (\<lambda>record. Ok (key, record))) of
        Inl e \<Rightarrow> (s, Err e)
      | Inr (key, record) \<Rightarrow>
          let (s', answer) = st_replace (sy_store self) (sy_store_timeout self) key record s
          in (s', and_then (store_call answer) (\<lambda>_. Ok (stored_token record))))"

definition sync_clear ::
  "csrf_crates \<Rightarrow> 's CompiledSynchronizer \<Rightarrow> HttpRequest \<Rightarrow> 's \<Rightarrow> 's \<times> (CsrfOperationError, unit) result" where
  "sync_clear crates self req s =
     (case sync_store_key crates self req of
        Inl e \<Rightarrow> (s, Err e)
      | Inr key \<Rightarrow>
          let (s', answer) = st_revoke (sy_store self) (sy_store_timeout self) key s
          in (s', store_call answer))"

text \<open>What \<open>enforce\<close> does before it asks the store: the store key and the token of the request.\<close>

definition sync_presented ::
  "csrf_crates \<Rightarrow> 's CompiledSynchronizer \<Rightarrow> HttpRequest \<Rightarrow> (CsrfRuntimeRejection, string \<times> string) result" where
  "sync_presented crates self req =
     and_then (enforced_binding (sy_binding self) req) (\<lambda>session.
     case derive_store_key crates (sy_key_derivation_secret self) session of
       None \<Rightarrow> Err StoreInvalid
     | Some key \<Rightarrow>
         and_then (extract_request_token crates req (sy_token_header self) (sy_form_field self)) (\<lambda>token.
         if \<not> valid_synchronizer_token crates token then Err TokenMalformed else Ok (key, token)))"

definition sync_enforce ::
  "csrf_crates \<Rightarrow> 's CompiledSynchronizer \<Rightarrow> HttpRequest \<Rightarrow> u64 \<Rightarrow> 's \<Rightarrow> 's \<times> (CsrfRuntimeRejection, unit) result" where
  "sync_enforce crates self req now s =
     (case sync_presented crates self req of
        Inl e \<Rightarrow> (s, Err e)
      | Inr (key, request_token) \<Rightarrow>
          let (s', answer) = st_load (sy_store self) (sy_store_timeout self) key s
          in (s', and_then (runtime_store_call answer) (\<lambda>loaded.
                case loaded of
                  None \<Rightarrow> Err TokenMissing
                | Some stored \<Rightarrow>
                    if expires_at_unix_seconds stored \<le> now then Err TokenExpired
                    else if stored_token stored \<noteq> request_token then Err TokenMismatch
                    else Ok ())))"

section \<open>Cross-origin checks\<close>

fun copy_headers ::
  "csrf_crates \<Rightarrow> HttpRequest \<Rightarrow> string list \<Rightarrow> TowerRequest \<Rightarrow> (CsrfRuntimeRejection, TowerRequest) result" where
  "copy_headers crates req [] head = Ok head"
| "copy_headers crates req (name # names) head =
     and_then (at_most_one CrossOriginHeadersInvalid (headers_named req name)) (\<lambda>v.
     case v of
       None \<Rightarrow> copy_headers crates req names head
     | Some v \<Rightarrow>
         if \<not> header_value_ok crates v then Err CrossOriginHeadersInvalid
         else copy_headers crates req names (head\<lparr>head_headers := head_headers head @ [(name, v)]\<rparr>))"

definition tower_request_head :: "csrf_crates \<Rightarrow> HttpRequest \<Rightarrow> (CsrfRuntimeRejection, TowerRequest) result" where
  "tower_request_head crates req =
     (if \<not> http_method_ok crates (req_method req) \<or> uri_path crates (req_path req) = None
      then Err CrossOriginHeadersInvalid
      else copy_headers crates req [''origin'', ''sec-fetch-site'', ''host'']
        \<lparr>head_method = req_method req, head_uri = req_path req, head_headers = []\<rparr>)"

definition adapter_enforce ::
  "csrf_crates \<Rightarrow> string list \<Rightarrow> HttpRequest \<Rightarrow> (CsrfRuntimeRejection, unit) result" where
  "adapter_enforce crates layer req =
     and_then (tower_request_head crates req) (\<lambda>head.
     case layer_verdict crates layer head of
       None \<Rightarrow> Ok ()
     | Some CrossOriginRequestFromOldBrowser \<Rightarrow> Err CrossOriginLegacy
     | Some _ \<Rightarrow> Err CrossOrigin)"

section \<open>The compiled policy\<close>

definition safe_method :: "string \<Rightarrow> bool" where
  "safe_method mth \<longleftrightarrow> mth \<in> {''GET'', ''HEAD'', ''OPTIONS''}"

definition is_bypassed :: "csrf_crates \<Rightarrow> 's CompiledCsrfPolicy \<Rightarrow> HttpRequest \<Rightarrow> bool" where
  "is_bypassed crates self req =
     (if comp_bypasses self = [] then False
      else case uri_path crates (req_path req) of
        None \<Rightarrow> False
      | Some p \<Rightarrow> list_ex (\<lambda>b. bypass_method b = req_method req \<and> bypass_path b = p) (comp_bypasses self))"

definition unix_seconds :: "u64 option \<Rightarrow> (CsrfRuntimeRejection, u64) result" where
  "unix_seconds clock = (case clock of None \<Rightarrow> Err ClockInvalid | Some now \<Rightarrow> Ok now)"

text \<open>The two clock readings are those of the signed and of the synchronizer profile.\<close>

definition csrf_enforce ::
  "csrf_crates \<Rightarrow> 's CompiledCsrfPolicy \<Rightarrow> HttpRequest \<Rightarrow> u64 option \<Rightarrow> u64 option \<Rightarrow> 's
    \<Rightarrow> 's \<times> (CsrfRuntimeRejection, unit) result" where
  "csrf_enforce crates self req clock clock' s =
     (if safe_method (req_method req) \<or> is_bypassed crates self req then (s, Ok ())
      else
        case and_then (case comp_cross_origin self of
                         None \<Rightarrow> Ok ()
                       | Some adapter \<Rightarrow> adapter_enforce crates adapter req) (\<lambda>_.
             case comp_signed self of
               None \<Rightarrow> Ok ()
             | Some sg \<Rightarrow> and_then (unix_seconds clock) (signed_enforce crates sg req)) of
          Inl e \<Rightarrow> (s, Err e)
        | Inr _ \<Rightarrow>
            (case comp_synchronizer self of
               None \<Rightarrow> (s, Ok ())
             | Some sync \<Rightarrow>
                 (case unix_seconds clock' of
                    Inl e \<Rightarrow> (s, Err e)
                  | Inr now \<Rightarrow> sync_enforce crates sync req now s)))"

definition csrf_issue ::
  "csrf_crates \<Rightarrow> 's CompiledCsrfPolicy \<Rightarrow> HttpRequest \<Rightarrow> u64 option \<Rightarrow> string option \<Rightarrow> 's
    \<Rightarrow> 's \<times> (CsrfOperationError, string \<times> unit ResponseCookie option) result" where
  "csrf_issue crates self req clock random s =
     (case unix_seconds clock of
        Inl _ \<Rightarrow> (s, Err OpClockInvalid)
      | Inr now \<Rightarrow>
          (case comp_signed self of
             Some sg \<Rightarrow>
               (s, and_then (signed_issue crates sg req now random) (\<lambda>(token, cookie). Ok (token, Some cookie)))
           | None \<Rightarrow>
               (case comp_synchronizer self of
                  Some sync \<Rightarrow>
                    (let (s', r) = sync_issue crates sync req now random s
                     in (s', and_then r (\<lambda>token. Ok (token, None))))
                | None \<Rightarrow> (s, Err OpTokenModeRequired))))"

definition csrf_rotate ::
  "csrf_crates \<Rightarrow> 's CompiledCsrfPolicy \<Rightarrow> HttpRequest \<Rightarrow> u64 option \<Rightarrow> string option \<Rightarrow> 's
    \<Rightarrow> 's \<times> (CsrfOperationError, string \<times> unit ResponseCookie option) result" where
  "csrf_rotate crates self req clock random s =
     (case unix_seconds clock of
        Inl _ \<Rightarrow> (s, Err OpClockInvalid)
      | Inr now \<Rightarrow>
          (case comp_signed self of
             Some sg \<Rightarrow>
               (s, and_then (signed_issue crates sg req now random) (\<lambda>(token, cookie). Ok (token, Some cookie)))
           | None \<Rightarrow>
               (case comp_synchronizer self of
                  Some sync \<Rightarrow>
                    (let (s', r) = sync_rotate crates sync req now random s
                     in (s', and_then r (\<lambda>token. Ok (token, None))))
                | None \<Rightarrow> (s, Err OpTokenModeRequired))))"

definition csrf_clear ::
  "csrf_crates \<Rightarrow> 's CompiledCsrfPolicy \<Rightarrow> HttpRequest \<Rightarrow> 's
    \<Rightarrow> 's \<times> (CsrfOperationError, CookieRemoval option) result" where
  "csrf_clear crates self req s =
     (case comp_signed self of
        Some sg \<Rightarrow>
          (s, case csrf_removal (sg_cookie sg) of
                Inl _ \<Rightarrow> Err OpCookieInvalid
              | Inr removal \<Rightarrow> Ok (Some removal))
      | None \<Rightarrow>
          (case comp_synchronizer self of
             Some sync \<Rightarrow>
               (let (s', r) = sync_clear crates sync req s
                in (s', and_then r (\<lambda>_. Ok None)))
           | None \<Rightarrow> (s, Err OpTokenModeRequired)))"

end
