(* ===== verification/Csrf_Safety.thy ===== *)
theory Csrf_Safety
  imports Csrf_Runtime
begin

text \<open>
  What the CSRF runtime guarantees: exactly which requests a signed profile accepts, that every
  token it issues is accepted until it expires and across key rotation, and that a synchronizer
  profile accepts only the token its store holds for the session.
\<close>

section \<open>The input of the MAC\<close>

lemma be_digits_length [simp]: "length (be_digits k n) = k"
  by (induction k arbitrary: n) auto

lemma be_digits_inject: "be_digits k m = be_digits k n \<Longrightarrow> m < 256 ^ k \<Longrightarrow> n < 256 ^ k \<Longrightarrow> m = n"
proof (induction k arbitrary: m n)
  case (Suc k)
  have "m mod 256 = n mod 256"
    using Suc.prems(1) by (auto dest: arg_cong [where f = "of_char :: char \<Rightarrow> nat"])
  moreover have "m div 256 = n div 256"
    using Suc.prems by (intro Suc.IH) (auto simp: less_mult_imp_div_less mult.commute)
  ultimately show ?case
    by (metis div_mult_mod_eq)
qed simp

lemma u64_be_bytes_length [simp]: "length (u64_be_bytes w) = 8"
  by (simp add: u64_be_bytes_def)

lemma u64_be_bytes_inject: "u64_be_bytes v = u64_be_bytes w \<longleftrightarrow> v = w"
proof
  assume "u64_be_bytes v = u64_be_bytes w"
  moreover have "unat x < 256 ^ 8" for x :: u64
    using unsigned_less [of x, where 'a = nat] by simp
  ultimately have "unat v = unat w"
    unfolding u64_be_bytes_def by (blast intro: be_digits_inject)
  then show "v = w" by (simp add: word_unat_eq_iff)
qed simp

text \<open>The length prefix makes the framing unambiguous: the MAC input determines its three parts.\<close>

lemma update_mac_inject:
  assumes "update_mac b e n = update_mac b' e' n'" and "length n = length n'"
  shows "b = b' \<and> e = e' \<and> n = n'"
proof -
  have "length b = length b'"
    using arg_cong [OF assms(1), of length] assms(2) by (simp add: update_mac_def)
  then show ?thesis
    using assms by (simp add: update_mac_def u64_be_bytes_inject)
qed

section \<open>Which requests the signed profile accepts\<close>

lemma extract_request_token_length:
  "extract_request_token crates req h f = Ok token \<Longrightarrow> length token \<le> MAX_CSRF_TOKEN_BYTES"
  by (auto simp: extract_request_token_def split: if_splits)

lemma enforced_binding_Ok: "enforced_binding binding req = Ok session \<longleftrightarrow> binding req = Ok (Some session)"
  by (auto simp: enforced_binding_def split: sum.splits option.splits)

lemma session_binding_Ok: "session_binding binding req = Ok session \<longleftrightarrow> binding req = Ok (Some session)"
  by (auto simp: session_binding_def split: sum.splits option.splits)

text \<open>The token of a request is accepted for a session under a list of keys.\<close>

definition token_accepted :: "csrf_crates \<Rightarrow> string list \<Rightarrow> string \<Rightarrow> u64 \<Rightarrow> string \<Rightarrow> bool" where
  "token_accepted crates keys session now token =
     (case parse_token crates token of
        Inl _ \<Rightarrow> False
      | Inr parsed \<Rightarrow> now < token_expires parsed
          \<and> (\<exists>key\<in>set keys. sign crates key session (token_expires parsed) (token_nonce parsed)
               = Some (token_mac parsed)))"

lemma presented_cookie_Ok:
  "(case r of
      Inl _ \<Rightarrow> Err CookieInvalid
    | Inr None \<Rightarrow> Err CookieMissing
    | Inr (Some cookie) \<Rightarrow> if length cookie > limit then Err CookieInvalid else Ok cookie) = Ok token
   \<longleftrightarrow> r = Ok (Some token) \<and> length token \<le> limit"
  by (auto split: sum.splits option.splits if_splits)

lemma token_checks_Ok:
  "(\<exists>parsed. parse_token crates token = Ok parsed \<and>
     (if token_expires parsed \<le> now then Err TokenExpired
     else if list_ex (\<lambda>key. sign crates key session (token_expires parsed) (token_nonce parsed)
                              = Some (token_mac parsed)) keys
     then Ok () else Err SignatureInvalid) = Ok ())
   \<longleftrightarrow> token_accepted crates keys session now token"
  by (auto simp: token_accepted_def list_ex_iff not_le split: sum.splits)

lemma signed_enforce_Ok:
  "signed_enforce crates sg req now = Ok () \<longleftrightarrow>
     (\<exists>session token. sg_binding sg req = Ok (Some session)
       \<and> request_cookie crates req (cookie_name (sg_cookie sg)) = Ok (Some token)
       \<and> extract_request_token crates req (sg_token_header sg) (sg_form_field sg) = Ok token
       \<and> token_accepted crates (sg_keys sg) session now token)"
proof -
  have unequal: "(if cookie \<noteq> token then Err TokenMismatch else r) = Ok () \<longleftrightarrow> cookie = token \<and> r = Ok ()"
    for cookie token and r :: "(CsrfRuntimeRejection, unit) result"
    by simp
  show ?thesis
    unfolding signed_enforce_def and_then_eq_Inr enforced_binding_Ok presented_cookie_Ok unequal token_checks_Ok
    using extract_request_token_length by blast
qed

lemma token_accepted_mac:
  "token_accepted crates keys session now token \<longleftrightarrow>
     (\<exists>parsed key mac. parse_token crates token = Ok parsed \<and> now < token_expires parsed
       \<and> key \<in> set keys \<and> hmac_sha256 crates key = Some mac
       \<and> token_mac parsed = mac (update_mac session (token_expires parsed) (token_nonce parsed)))"
  by (auto simp: token_accepted_def sign_def split: sum.splits) metis

lemma parse_token_nonce:
  "parse_token crates token = Ok parsed \<Longrightarrow> length (token_nonce parsed) = CSRF_NONCE_BYTES"
  by (auto simp: parse_token_def decode_fixed_def split: if_splits list.splits option.splits)

text \<open>What the composed stages of a policy with a signed profile accept.\<close>

lemma csrf_enforce_signed:
  assumes "csrf_try_new crates P = Ok policy" and "pol_signed P = Some sp"
  shows "csrf_enforce crates policy req clock clock' s = (s', Ok ()) \<longleftrightarrow> s' = s \<and>
    (safe_method (req_method req) \<or> is_bypassed crates policy req \<or>
     ((pol_mode P = DefenseInDepth \<longrightarrow> adapter_enforce crates (pol_trusted_origins P) req = Ok ())
      \<and> (\<exists>now. clock = Some now \<and> signed_enforce crates (compile_signed sp) req now = Ok ())))"
proof -
  have signed: "uses_signed_token (pol_mode P)"
    using compiled_parts(1) [OF assms(1)] assms(2) by simp
  then have "pol_synchronizer P = None"
    using compiled_parts(2) [OF assms(1)] by (auto simp: uses_signed_token_def uses_synchronizer_token_def)
  moreover have "uses_cross_origin (pol_mode P) = (pol_mode P = DefenseInDepth)"
    using signed by (auto simp: uses_signed_token_def uses_cross_origin_def)
  ultimately show ?thesis
    using compiled_profile [OF assms(1)] assms(2)
    by (auto simp: csrf_enforce_def unix_seconds_def split: sum.splits option.splits)
qed

text \<open>
  C16. A policy with a signed profile accepts a request if and only if its method is safe, an exact
  bypass exempts it, or it passed the cross-origin stage of the defense-in-depth mode and carries
  one token that equals its CSRF cookie, parses, is not expired, and bears the MAC of the
  requester's session, its expiry and its nonce under a key of the policy. That MAC input belongs
  to no other session, expiry or nonce, and no enforcement changes the token store.
\<close>

theorem signed_enforcement_exact:
  assumes "csrf_try_new crates P = Ok policy" and "pol_signed P = Some sp"
  shows "csrf_enforce crates policy req clock clock' s = (s', Ok ()) \<longleftrightarrow> s' = s \<and>
    (safe_method (req_method req) \<or> is_bypassed crates policy req \<or>
     ((pol_mode P = DefenseInDepth \<longrightarrow> adapter_enforce crates (pol_trusted_origins P) req = Ok ())
      \<and> (\<exists>now session token parsed key mac. clock = Some now \<and> sp_binding sp req = Ok (Some session)
        \<and> request_cookie crates req (cookie_name (sp_cookie sp)) = Ok (Some token)
        \<and> extract_request_token crates req (sp_token_header sp) (sp_form_field sp) = Ok token
        \<and> parse_token crates token = Ok parsed \<and> now < token_expires parsed
        \<and> key \<in> set (sp_primary_key sp # sp_previous_keys sp) \<and> hmac_sha256 crates key = Some mac
        \<and> token_mac parsed = mac (update_mac session (token_expires parsed) (token_nonce parsed))
        \<and> (\<forall>session' e' nonce'. length nonce' = CSRF_NONCE_BYTES
            \<and> update_mac session' e' nonce' = update_mac session (token_expires parsed) (token_nonce parsed)
            \<longrightarrow> session' = session \<and> e' = token_expires parsed \<and> nonce' = token_nonce parsed))))"
proof -
  define framed where "framed session parsed \<longleftrightarrow> (\<forall>session' e' nonce'. length nonce' = CSRF_NONCE_BYTES
      \<and> update_mac session' e' nonce' = update_mac session (token_expires parsed) (token_nonce parsed)
      \<longrightarrow> session' = session \<and> e' = token_expires parsed \<and> nonce' = token_nonce parsed)"
    for session and parsed :: ParsedToken
  have framed: "framed session parsed" if "parse_token crates token = Ok parsed" for token parsed session
    unfolding framed_def using parse_token_nonce [OF that] by (auto dest: update_mac_inject)
  show ?thesis
    unfolding csrf_enforce_signed [OF assms] signed_enforce_Ok token_accepted_mac framed_def [symmetric]
    by (simp add: compile_signed_def framed cong: conj_cong)
qed

section \<open>Issued tokens are accepted\<close>

lemma byte_digit_char: "d < 10 \<Longrightarrow> byte (digit_char d) = 48 + d"
proof -
  assume "d < 10"
  then have "d \<in> {0, 1, 2, 3, 4, 5, 6, 7, 8, 9}" by auto
  then show ?thesis by (auto simp: digit_char_def)
qed

lemma digits_value_snoc:
  "digits_value acc xs = Some m \<Longrightarrow> d < 10 \<Longrightarrow> digits_value acc (xs @ [digit_char d]) = Some (m * 10 + d)"
  by (induction acc xs rule: digits_value.induct) (auto simp: byte_digit_char split: if_splits)

lemma digits_value_show_nat: "digits_value 0 (show_nat n) = Some n"
proof (induction n rule: show_nat.induct)
  case (1 n)
  show ?case
  proof (cases "n < 10")
    case True
    then show ?thesis by (simp add: show_nat.simps [of n] byte_digit_char)
  next
    case False
    then show ?thesis
      using digits_value_snoc [OF 1, of "n mod 10"] by (simp add: show_nat.simps [of n])
  qed
qed

lemma show_nat_digits: "c \<in> set (show_nat n) \<Longrightarrow> in_ascii_range (CHR ''0'') (CHR ''9'') c"
  by (induction n rule: show_nat.induct) (subst (asm) show_nat.simps, auto simp: byte_digit_char split: if_splits)

lemma show_nat_not_Nil [simp]: "show_nat n \<noteq> []"
  by (subst show_nat.simps) simp

lemma show_nat_length: "n < 10 ^ Suc k \<Longrightarrow> length (show_nat n) \<le> Suc k"
proof (induction k arbitrary: n)
  case (Suc k)
  then have "length (show_nat (n div 10)) \<le> Suc k"
    by (intro Suc.IH) (simp add: less_mult_imp_div_less mult.commute)
  then show ?case by (subst show_nat.simps) simp
qed (simp add: show_nat.simps)

lemma parse_u64_show: "parse_u64 (show_nat (unat e)) = Some e"
proof -
  obtain c cs where digits: "show_nat (unat e) = c # cs"
    by (cases "show_nat (unat e)") simp_all
  then have "c \<noteq> CHR ''+''"
    using show_nat_digits [of c "unat e"] by auto
  moreover have "unat e < 2 ^ 64"
    using unsigned_less [of e, where 'a = nat] by simp
  ultimately show ?thesis
    using digits_value_show_nat [of "unat e"] by (simp add: parse_u64_def digits)
qed

text \<open>
  What the \<open>base64\<close> crate documents of its URL-safe engine without padding: decoding undoes
  encoding, the output uses the URL-safe alphabet, and it is never more than twice as long.
\<close>

definition url_safe_codec :: "csrf_crates \<Rightarrow> bool" where
  "url_safe_codec crates \<longleftrightarrow> (\<forall>bs. b64_decode crates (b64_encode crates bs) = Some bs
     \<and> length (b64_encode crates bs) \<le> 2 * length bs
     \<and> list_all (\<lambda>c. is_ascii_alphanumeric c \<or> c = CHR ''-'' \<or> c = CHR ''_'') (b64_encode crates bs))"

lemma url_safe_codecD:
  assumes "url_safe_codec crates"
  shows "b64_decode crates (b64_encode crates bs) = Some bs"
    and "length (b64_encode crates bs) \<le> 2 * length bs"
    and "c \<in> set (b64_encode crates bs) \<Longrightarrow> is_ascii_alphanumeric c \<or> c = CHR ''-'' \<or> c = CHR ''_''"
  using assms by (auto simp: url_safe_codec_def list_all_iff)

lemma encode_token_length:
  assumes "url_safe_codec crates" and "length nonce = CSRF_NONCE_BYTES" and "length mac = CSRF_MAC_BYTES"
  shows "length (encode_token crates e nonce mac) \<le> 153"
proof -
  have "unat e < 10 ^ Suc 19"
    using unsigned_less [of e, where 'a = nat] by simp
  then have "length (show_nat (unat e)) \<le> Suc 19"
    by (rule show_nat_length)
  then show ?thesis
    using url_safe_codecD(2) [OF assms(1), of nonce] url_safe_codecD(2) [OF assms(1), of mac] assms(2,3)
    by (simp add: encode_token_def)
qed

lemma parse_encode_token:
  assumes codec: "url_safe_codec crates" and bytes: "length nonce = CSRF_NONCE_BYTES" "length mac = CSRF_MAC_BYTES"
  shows "parse_token crates (encode_token crates e nonce mac)
    = Ok \<lparr>token_expires = e, token_nonce = nonce, token_mac = mac\<rparr>"
proof -
  have dots: "CHR ''.'' \<notin> set (show_nat (unat e))" "CHR ''.'' \<notin> set (b64_encode crates bs)" for bs
    using show_nat_digits [of "CHR ''.''" "unat e"] url_safe_codecD(3) [OF codec, of "CHR ''.''" bs]
    by (auto simp: is_ascii_alphanumeric_def is_ascii_alphabetic_def)
  have "split_on (CHR ''.'') (encode_token crates e nonce mac)
      = [''v1'', show_nat (unat e), b64_encode crates nonce, b64_encode crates mac]"
    by (simp add: encode_token_def split_on_append split_on_single dots)
  moreover have "length (encode_token crates e nonce mac) \<le> MAX_CSRF_TOKEN_BYTES"
    using encode_token_length [OF codec bytes, of e] by simp
  ultimately show ?thesis
    by (simp add: parse_token_def parse_u64_show decode_fixed_def url_safe_codecD(1) [OF codec] bytes)
qed

lemma token_byte_valid:
  "is_ascii_alphanumeric c \<or> c \<in> {CHR ''.'', CHR ''-'', CHR ''_''} \<Longrightarrow>
   byte c = 0x21 \<or> 0x23 \<le> byte c \<and> byte c \<le> 0x2b \<or> 0x2d \<le> byte c \<and> byte c \<le> 0x3a \<or>
   0x3c \<le> byte c \<and> byte c \<le> 0x5b \<or> 0x5d \<le> byte c \<and> byte c \<le> 0x7e"
  by (auto simp: is_ascii_alphanumeric_def is_ascii_alphabetic_def)

lemma encode_token_cookie_value:
  assumes codec: "url_safe_codec crates" and bytes: "length nonce = CSRF_NONCE_BYTES" "length mac = CSRF_MAC_BYTES"
  shows "validate_value (encode_token crates e nonce mac) = Ok ()"
proof -
  have "is_ascii_alphanumeric c \<or> c \<in> {CHR ''.'', CHR ''-'', CHR ''_''}"
    if member: "c \<in> set (encode_token crates e nonce mac)" for c
  proof -
    consider "c \<in> {CHR ''v'', CHR ''1'', CHR ''.''}" | "c \<in> set (show_nat (unat e))"
      | "c \<in> set (b64_encode crates nonce) \<union> set (b64_encode crates mac)"
      using member by (auto simp: encode_token_def)
    then show ?thesis
    proof cases
      case 1
      then show ?thesis
        by (elim insertE emptyE) (simp_all add: is_ascii_alphanumeric_def is_ascii_alphabetic_def)
    next
      case 2
      have "is_ascii_alphanumeric c"
        unfolding is_ascii_alphanumeric_def by (rule disjI2 [OF show_nat_digits [OF 2]])
      then show ?thesis by (rule disjI1)
    next
      case 3
      then have "is_ascii_alphanumeric c \<or> c = CHR ''-'' \<or> c = CHR ''_''"
        by (elim UnE) (rule url_safe_codecD(3) [OF codec], assumption)+
      then show ?thesis by (elim disjE) simp_all
    qed
  qed
  then have "is_valid_cookie_value (encode_token crates e nonce mac)"
    unfolding is_valid_cookie_value_def list_all_iff using token_byte_valid by blast
  then show ?thesis
    using encode_token_length [OF codec bytes, of e] by (simp add: validate_value_def MAX_COOKIE_VALUE_BYTES_def)
qed

text \<open>A validated cookie policy builds a cookie for every valid value.\<close>

lemma validated_cookie:
  assumes "csrf_cookie_validate self ttl = Ok ()" and "validate_value v = Ok ()"
  obtains cookie where "csrf_response_cookie self v ttl = Ok cookie"
    and "rc_name cookie = cookie_name self" and "rc_value cookie = v"
  using assms by (auto simp: csrf_cookie_validate_def csrf_response_cookie_def new_cookie_def path_def max_age_def
      secure_def http_only_def same_site_def Let_def split: if_splits sum.splits)

lemma as_secs_small:
  assumes "ttl \<le> MAX_CSRF_TOKEN_TTL"
  shows "unat (as_secs ttl) = ttl div 1000000000"
proof -
  have "ttl div 1000000000 \<le> 7 * 24 * 60 * 60"
    using div_le_mono [OF assms, of 1000000000] by simp
  then show ?thesis
    by (simp add: as_secs_def unsigned_of_nat take_bit_nat_eq_self)
qed

lemma signed_issue_Ok:
  assumes "sg_binding sg req = Ok (Some session)" and "checked_add now (as_secs (sg_ttl sg)) = Some e"
    and "hmac_sha256 crates (hd (sg_keys sg)) = Some mac" and "length nonce = CSRF_NONCE_BYTES"
    and "length (mac (update_mac session e nonce)) = CSRF_MAC_BYTES"
    and "url_safe_codec crates" and "csrf_cookie_validate (sg_cookie sg) (sg_ttl sg) = Ok ()"
  obtains cookie where "signed_issue crates sg req now (Some nonce)
      = Ok (encode_token crates e nonce (mac (update_mac session e nonce)), cookie)"
    and "rc_name cookie = cookie_name (sg_cookie sg)"
    and "rc_value cookie = encode_token crates e nonce (mac (update_mac session e nonce))"
proof -
  obtain cookie where "csrf_response_cookie (sg_cookie sg)
      (encode_token crates e nonce (mac (update_mac session e nonce))) (sg_ttl sg) = Ok cookie"
    and "rc_name cookie = cookie_name (sg_cookie sg)"
    and "rc_value cookie = encode_token crates e nonce (mac (update_mac session e nonce))"
    using validated_cookie [OF assms(7) encode_token_cookie_value [OF assms(6,4,5)]] by blast
  then show ?thesis
    using assms(1-3) by (intro that [of cookie]) (simp_all add: signed_issue_def session_binding_def sign_def)
qed

lemma signed_enforce_presented:
  assumes "sg_binding sg req = Ok (Some session)"
    and "request_cookie crates req (cookie_name (sg_cookie sg)) = Ok (Some token)"
    and "extract_request_token crates req (sg_token_header sg) (sg_form_field sg) = Ok token"
    and "parse_token crates token = Ok parsed" and "key \<in> set (sg_keys sg)"
    and "sign crates key session (token_expires parsed) (token_nonce parsed) = Some (token_mac parsed)"
  shows "signed_enforce crates sg req now = (if token_expires parsed \<le> now then Err TokenExpired else Ok ())"
  using assms extract_request_token_length [OF assms(3)]
  by (auto simp: signed_enforce_def enforced_binding_def list_ex_iff)

text \<open>
  C17. A validated signed policy always issues a token where the session is bound, the clock plus
  the lifetime is in range and the key is usable, with a cookie that carries the same value. Any
  request of that session that presents the token and the cookie is accepted until the lifetime is
  over and refused as expired from then on, also by a policy whose primary key is another one, as
  long as the issuing key is kept among its previous keys.
\<close>

theorem issued_token_accepted:
  assumes codec: "url_safe_codec crates"
    and mac_bytes: "\<And>m. length (mac m) = CSRF_MAC_BYTES"
    and key: "hmac_sha256 crates (sp_primary_key sp) = Some mac"
    and compiled: "csrf_try_new crates P = Ok policy" "pol_signed P = Some sp"
    and session: "sp_binding sp req = Ok (Some session)"
    and nonce: "length nonce = CSRF_NONCE_BYTES"
    and in_range: "unat now + sp_ttl sp div 1000000000 < 2 ^ 64"
  shows "\<exists>token cookie. csrf_issue crates policy req (Some now) (Some nonce) s = (s, Ok (token, Some cookie))
    \<and> rc_name cookie = cookie_name (sp_cookie sp) \<and> rc_value cookie = token
    \<and> (\<forall>sp' req' now'. sp_primary_key sp \<in> set (sp_primary_key sp' # sp_previous_keys sp')
        \<and> sp_binding sp' req' = Ok (Some session)
        \<and> request_cookie crates req' (cookie_name (sp_cookie sp')) = Ok (Some token)
        \<and> extract_request_token crates req' (sp_token_header sp') (sp_form_field sp') = Ok token
        \<longrightarrow> signed_enforce crates (compile_signed sp') req' now'
          = (if unat now' < unat now + sp_ttl sp div 1000000000 then Ok () else Err TokenExpired))"
proof -
  have secs: "unat (as_secs (sp_ttl sp)) = sp_ttl sp div 1000000000"
    by (rule as_secs_small [OF compiled_parts(4) [OF compiled]])
  then obtain e where e: "checked_add now (as_secs (sp_ttl sp)) = Some e" "unat e = unat now + sp_ttl sp div 1000000000"
    using in_range by (simp add: checked_add_def unat_word_ariths)
  define token where "token = encode_token crates e nonce (mac (update_mac session e nonce))"
  obtain cookie where issued: "signed_issue crates (compile_signed sp) req now (Some nonce) = Ok (token, cookie)"
    and cookie: "rc_name cookie = cookie_name (sp_cookie sp)" "rc_value cookie = token"
    using signed_issue_Ok [of "compile_signed sp" req session now e crates mac nonce]
      session e(1) key nonce mac_bytes codec compiled_parts(3) [OF compiled]
    by (auto simp: compile_signed_def token_def)
  have parsed: "parse_token crates token
      = Ok \<lparr>token_expires = e, token_nonce = nonce, token_mac = mac (update_mac session e nonce)\<rparr>"
    unfolding token_def by (rule parse_encode_token [OF codec nonce mac_bytes])
  have accepted: "signed_enforce crates (compile_signed sp') req' now'
      = (if unat now' < unat now + sp_ttl sp div 1000000000 then Ok () else Err TokenExpired)"
    if "sp_primary_key sp \<in> set (sp_primary_key sp' # sp_previous_keys sp')"
      "sp_binding sp' req' = Ok (Some session)"
      "request_cookie crates req' (cookie_name (sp_cookie sp')) = Ok (Some token)"
      "extract_request_token crates req' (sp_token_header sp') (sp_form_field sp') = Ok token"
    for sp' req' now'
    using signed_enforce_presented [of "compile_signed sp'" req' session crates token _ "sp_primary_key sp" now', OF _ _ _ parsed]
      that key e(2) by (simp add: compile_signed_def sign_def word_le_nat_alt not_less)
  have "csrf_issue crates policy req (Some now) (Some nonce) s = (s, Ok (token, Some cookie))"
    using issued compiled_profile(3) [OF compiled(1)] compiled(2) by (simp add: csrf_issue_def unix_seconds_def)
  then show ?thesis
    using cookie accepted by blast
qed

section \<open>Synchronizer tokens\<close>

lemma presented_key:
  assumes "sync_presented crates sy req = Ok (key, token)" and "sync_store_key crates sy req' = Ok key'"
    and "sy_binding sy req = sy_binding sy req'"
  shows "key = key'" and "extract_request_token crates req (sy_token_header sy) (sy_form_field sy) = Ok token"
  using assms by (auto simp: sync_presented_def sync_store_key_def enforced_binding_Ok session_binding_Ok
      split: option.splits if_splits)

text \<open>
  The contract that the documentation of the trait \<open>CsrfTokenStore\<close> states, for the key of the call
  alone: a loaded record is the one the store holds; \<open>load_or_insert\<close> returns a live record or
  installs the candidate; \<open>replace\<close> installs the replacement and \<open>revoke\<close> removes the record. Nothing
  is promised of the other keys, of a record that is not found (the store may have evicted it), or of
  an operation that fails or times out.
\<close>

locale token_store =
  fixes store :: "'s CsrfTokenStore"
    and contents :: "'s \<Rightarrow> string \<Rightarrow> StoredCsrfToken option"
  assumes load_answer: "st_load store t k s = (s', Some (Ok (Some found))) \<Longrightarrow> contents s k = Some found"
    and replace_done: "st_replace store t k v s = (s', Some (Ok ())) \<Longrightarrow> contents s' k = Some v"
    and revoke_done: "st_revoke store t k s = (s', Some (Ok ())) \<Longrightarrow> contents s' k = None"
    and load_or_insert_done: "st_load_or_insert store t k v now s = (s', Some (Ok r)) \<Longrightarrow>
      r = (case contents s k of
             Some current \<Rightarrow> if now < expires_at_unix_seconds current then current else v
           | None \<Rightarrow> v) \<and> contents s' k = Some r"
begin

lemma enforce_accepts:
  assumes "sync_enforce crates sy req now s = (s', Ok ())" and "sy_store sy = store"
  obtains key stored where "sync_presented crates sy req = Ok (key, stored_token stored)"
    and "contents s key = Some stored" and "now < expires_at_unix_seconds stored"
proof -
  obtain key token where presented: "sync_presented crates sy req = Ok (key, token)"
    using assms(1) by (auto simp: sync_enforce_def split: sum.splits)
  obtain s1 answer where loaded: "st_load store (sy_store_timeout sy) key s = (s1, answer)"
    by fastforce
  have "and_then (runtime_store_call answer) (\<lambda>loaded.
        case loaded of
          None \<Rightarrow> Err TokenMissing
        | Some stored \<Rightarrow>
            if expires_at_unix_seconds stored \<le> now then Err TokenExpired
            else if stored_token stored \<noteq> token then Err TokenMismatch
            else Ok ()) = Ok ()"
    using assms presented loaded by (simp add: sync_enforce_def)
  then obtain stored where "runtime_store_call answer = Ok (Some stored)"
    and stored: "now < expires_at_unix_seconds stored" "stored_token stored = token"
    by (auto simp: not_le split: option.splits if_splits)
  then have "answer = Some (Ok (Some stored))"
    by (cases answer rule: runtime_store_call.cases) simp_all
  then show thesis
    using that presented loaded stored load_answer by metis
qed

lemma only_held_token:
  assumes "sync_enforce crates sy req' now s = (s', Ok ())" and "sy_store sy = store"
    and "sync_store_key crates sy req = Ok key" and "sy_binding sy req' = sy_binding sy req"
  obtains stored where "contents s key = Some stored"
    and "extract_request_token crates req' (sy_token_header sy) (sy_form_field sy) = Ok (stored_token stored)"
  using enforce_accepts [OF assms(1,2)] presented_key [OF _ assms(3,4)] by metis

lemma rotate_installs:
  assumes "sync_rotate crates sy req now random s = (s', Ok token)" and "sy_store sy = store"
  obtains key installed where "sync_store_key crates sy req = Ok key"
    and "contents s' key = Some installed" and "stored_token installed = token"
proof -
  obtain key installed where found: "sync_store_key crates sy req = Ok key" "candidate crates sy now random = Ok installed"
    using assms(1) by (auto simp: sync_rotate_def split: sum.splits)
  obtain answer where replaced: "st_replace store (sy_store_timeout sy) key installed s = (s', answer)"
    and "and_then (store_call answer) (\<lambda>_. Ok (stored_token installed)) = Ok token"
    using assms found by (auto simp: sync_rotate_def split: prod.splits)
  moreover from this have "answer = Some (Ok ())"
    by (cases answer rule: store_call.cases) simp_all
  ultimately show thesis
    using that [OF found(1)] replace_done by fastforce
qed

lemma clear_removes:
  assumes "sync_clear crates sy req s = (s', Ok ())" and "sy_store sy = store"
  obtains key where "sync_store_key crates sy req = Ok key" and "contents s' key = None"
proof -
  obtain key where found: "sync_store_key crates sy req = Ok key"
    using assms(1) by (auto simp: sync_clear_def split: sum.splits)
  obtain answer where revoked: "st_revoke store (sy_store_timeout sy) key s = (s', answer)"
    and "store_call answer = Ok ()"
    using assms found by (auto simp: sync_clear_def split: prod.splits)
  moreover from this have "answer = Some (Ok ())"
    by (cases answer rule: store_call.cases) simp_all
  ultimately show thesis
    using that [OF found] revoke_done [of "sy_store_timeout sy" key s s'] by simp
qed

lemma issue_installs:
  assumes "sync_issue crates sy req now random s = (s', Ok token)" and "sy_store sy = store"
  obtains key installed where "sync_store_key crates sy req = Ok key"
    and "contents s' key = Some installed" and "stored_token installed = token"
    and "now < expires_at_unix_seconds installed"
    and "\<And>current. contents s key = Some current \<Longrightarrow> now < expires_at_unix_seconds current \<Longrightarrow> installed = current"
proof -
  obtain key fresh where found: "sync_store_key crates sy req = Ok key" "candidate crates sy now random = Ok fresh"
    using assms(1) by (auto simp: sync_issue_def split: sum.splits)
  obtain answer where inserted: "st_load_or_insert store (sy_store_timeout sy) key fresh now s = (s', answer)"
    and checked: "and_then (store_call answer) (\<lambda>stored.
      if expires_at_unix_seconds stored \<le> now then Err OpStoreInvalid else Ok (stored_token stored)) = Ok token"
    using assms found by (auto simp: sync_issue_def split: prod.splits)
  then obtain stored where "store_call answer = Ok stored"
    and live: "now < expires_at_unix_seconds stored" "stored_token stored = token"
    by (auto simp: not_le split: if_splits)
  then have "answer = Some (Ok stored)"
    by (cases answer rule: store_call.cases) simp_all
  then show thesis
    using that [OF found(1)] load_or_insert_done [of "sy_store_timeout sy" key fresh now s s' stored] inserted live
    by simp
qed

end

section \<open>The in-memory store\<close>

text \<open>
  The store of the test module of \<open>csrf.rs\<close>: a map behind a mutex, whose operations can be made to
  fail or to wait 100 milliseconds first. A timeout that elapses while waiting drops the operation.
\<close>

record TestTokenStore =
  store_values :: "(string, StoredCsrfToken) hashmap"
  store_behavior :: nat

definition before_operation :: "nat \<Rightarrow> TestTokenStore \<Rightarrow> (CsrfTokenStoreError, unit) result option" where
  "before_operation timeout s =
     (if store_behavior s = 1 then Some (Err Unavailable)
      else if store_behavior s = 2 \<and> timeout < 100000000 then None
      else Some (Ok ()))"

definition store_operation ::
  "nat \<Rightarrow> TestTokenStore \<Rightarrow> TestTokenStore \<Rightarrow> 'v \<Rightarrow> TestTokenStore \<times> (CsrfTokenStoreError, 'v) result option" where
  "store_operation timeout s s' v =
     (case before_operation timeout s of
        None \<Rightarrow> (s, None)
      | Some (Inl e) \<Rightarrow> (s, Some (Err e))
      | Some (Inr _) \<Rightarrow> (s', Some (Ok v)))"

definition test_load_or_insert ::
  "nat \<Rightarrow> string \<Rightarrow> StoredCsrfToken \<Rightarrow> u64 \<Rightarrow> TestTokenStore
    \<Rightarrow> TestTokenStore \<times> (CsrfTokenStoreError, StoredCsrfToken) result option" where
  "test_load_or_insert timeout key fresh now s =
     (case hm_get (store_values s) key of
        Some current \<Rightarrow>
          if expires_at_unix_seconds current > now then store_operation timeout s s current
          else store_operation timeout s (s\<lparr>store_values := hm_insert key fresh (store_values s)\<rparr>) fresh
      | None \<Rightarrow> store_operation timeout s (s\<lparr>store_values := hm_insert key fresh (store_values s)\<rparr>) fresh)"

definition test_token_store :: "TestTokenStore CsrfTokenStore" where
  "test_token_store =
     \<lparr>st_load_or_insert = test_load_or_insert,
      st_load = (\<lambda>timeout key s. store_operation timeout s s (hm_get (store_values s) key)),
      st_replace = (\<lambda>timeout key replacement s.
        store_operation timeout s (s\<lparr>store_values := hm_insert key replacement (store_values s)\<rparr>) ()),
      st_revoke = (\<lambda>timeout key s.
        store_operation timeout s (s\<lparr>store_values := hm_remove key (store_values s)\<rparr>) ())\<rparr>"

lemma store_operation_Ok:
  "store_operation timeout s s1 v = (s', Some (Ok r)) \<Longrightarrow> s' = s1 \<and> r = v"
  by (auto simp: store_operation_def split: option.splits sum.splits)

interpretation memory: token_store test_token_store "\<lambda>s. hm_get (store_values s)"
proof (unfold_locales, goal_cases)
  case (1 t k s s' found)
  then show ?case by (auto simp: test_token_store_def dest: store_operation_Ok)
next
  case (2 t k v s s')
  then show ?case by (auto simp: test_token_store_def update_conv' dest: store_operation_Ok)
next
  case (3 t k s s')
  then show ?case by (auto simp: test_token_store_def delete_conv' dest!: store_operation_Ok)
next
  case (4 t k v now s s' r)
  then show ?case
    by (auto simp: test_token_store_def test_load_or_insert_def update_conv' fun_upd_idem
        dest!: store_operation_Ok split: option.splits if_splits)
qed

text \<open>
  C18. Over any store that keeps the documented contract, a synchronizer profile accepts a request
  only if it presents the unexpired token that the store holds for the requester's session.
  Once a token was issued or rotated, only that token is accepted for the session; issuing once
  more at the same time returns the same token; and once the token was cleared, no request of the
  session is accepted.
\<close>

theorem synchronizer_lifecycle:
  assumes "token_store (sy_store sy) contents" and same: "sy_binding sy req' = sy_binding sy req"
  shows "(sync_enforce crates sy req' now' s = (s', Ok ()) \<longrightarrow>
      (\<exists>key stored. sync_presented crates sy req' = Ok (key, stored_token stored)
        \<and> contents s key = Some stored \<and> now' < expires_at_unix_seconds stored))
    \<and> (sync_issue crates sy req now random s = (s1, Ok token) \<or> sync_rotate crates sy req now random s = (s1, Ok token)
        \<longrightarrow> sync_enforce crates sy req' now' s1 = (s', Ok ())
        \<longrightarrow> extract_request_token crates req' (sy_token_header sy) (sy_form_field sy) = Ok token)
    \<and> (sync_issue crates sy req now random s = (s1, Ok token)
        \<longrightarrow> sync_issue crates sy req' now random' s1 = (s', Ok token') \<longrightarrow> token' = token)
    \<and> (sync_clear crates sy req s = (s1, Ok ()) \<longrightarrow> snd (sync_enforce crates sy req' now' s1) \<noteq> Ok ())"
proof (intro conjI impI)
  note store = assms(1)
  show "\<exists>key stored. sync_presented crates sy req' = Ok (key, stored_token stored)
        \<and> contents s key = Some stored \<and> now' < expires_at_unix_seconds stored"
    if "sync_enforce crates sy req' now' s = (s', Ok ())"
    using token_store.enforce_accepts [OF store that refl] by blast
  show "extract_request_token crates req' (sy_token_header sy) (sy_form_field sy) = Ok token"
    if changed: "sync_issue crates sy req now random s = (s1, Ok token) \<or> sync_rotate crates sy req now random s = (s1, Ok token)"
      and enforced: "sync_enforce crates sy req' now' s1 = (s', Ok ())"
  proof -
    obtain key installed where "sync_store_key crates sy req = Ok key"
      and "contents s1 key = Some installed" "stored_token installed = token"
      using changed token_store.issue_installs [OF store _ refl, of crates req now random s s1 token]
        token_store.rotate_installs [OF store _ refl, of crates req now random s s1 token]
      by metis
    then show ?thesis
      using token_store.only_held_token [OF store enforced refl _ same] by (metis option.inject)
  qed
  show "token' = token"
    if "sync_issue crates sy req now random s = (s1, Ok token)" "sync_issue crates sy req' now random' s1 = (s', Ok token')"
  proof -
    have "sync_store_key crates sy req' = sync_store_key crates sy req"
      using same by (simp add: sync_store_key_def session_binding_def)
    then show ?thesis
      using token_store.issue_installs [OF store that(1) refl] token_store.issue_installs [OF store that(2) refl]
      by (metis Inr_inject)
  qed
  show "snd (sync_enforce crates sy req' now' s1) \<noteq> Ok ()" if cleared: "sync_clear crates sy req s = (s1, Ok ())"
  proof
    assume "snd (sync_enforce crates sy req' now' s1) = Ok ()"
    then have "sync_enforce crates sy req' now' s1 = (fst (sync_enforce crates sy req' now' s1), Ok ())"
      by (metis prod.collapse)
    moreover obtain key where "sync_store_key crates sy req = Ok key" "contents s1 key = None"
      using token_store.clear_removes [OF store cleared refl] by metis
    ultimately show False
      using token_store.only_held_token [OF store _ refl _ same] by (metis option.distinct(1))
  qed
qed

section \<open>Instances\<close>

text \<open>
  A codec and a MAC that keep the documented contracts, a policy with a signed profile, and the
  request of a session that presents an issued token.
\<close>

fun hex_decode :: "string \<Rightarrow> string option" where
  "hex_decode [] = Some []"
| "hex_decode [c] = None"
| "hex_decode (h # l # cs) =
     (case (hex_value h, hex_value l, hex_decode cs) of
        (Some a, Some b, Some bs) \<Rightarrow> Some (char_of (16 * a + b) # bs)
      | _ \<Rightarrow> None)"

definition hex_encode :: "string \<Rightarrow> string" where
  "hex_encode bs = concat (map (\<lambda>c. [hex_char (byte c div 16), hex_char (byte c mod 16)]) bs)"

definition demo_mac :: "string \<Rightarrow> string \<Rightarrow> string" where
  "demo_mac key m = take 16 (key @ replicate 16 (CHR ''-'')) @ take 16 (rev m @ replicate 16 (CHR ''-''))"

definition demo_crates :: csrf_crates where
  "demo_crates =
     \<lparr>b64_encode = hex_encode, b64_decode = hex_decode, hmac_sha256 = (\<lambda>key. Some (demo_mac key)),
      cookie_split = (\<lambda>v. [split_once (CHR ''='') v]), form_percent_decode = id,
      form_urlencoded_parse = (\<lambda>_. []), mime_parse = (\<lambda>_. None), uri_path = Some,
      http_method_ok = (\<lambda>_. True), header_name_ok = (\<lambda>_. True), header_value_ok = (\<lambda>_. True),
      url_parse = (\<lambda>_. None), trusted_origin_ok = (\<lambda>_. True), layer_verdict = (\<lambda>_ _. None)\<rparr>"

definition demo_signed :: SignedDoubleSubmitPolicy where
  "demo_signed =
     \<lparr>sp_primary_key = replicate 32 (CHR ''k''), sp_previous_keys = [], sp_binding = request_local_session_id,
      sp_cookie = \<lparr>cookie_name = ''csrf'', cookie_secure = True, cookie_http_only = True,
        cookie_same_site = Strict, cookie_path = ''/''\<rparr>,
      sp_token_header = ''x-csrf-token'', sp_form_field = None, sp_ttl = 36000000000\<rparr>"

definition demo_policy :: "unit CsrfPolicy" where
  "demo_policy =
     \<lparr>pol_mode = SignedDoubleSubmit, pol_trusted_origins = [], pol_bypasses = [],
      pol_signed = Some demo_signed, pol_synchronizer = None, pol_invalid = None\<rparr>"

definition demo_compiled :: "unit CompiledCsrfPolicy" where
  "demo_compiled =
     \<lparr>comp_mode = SignedDoubleSubmit, comp_bypasses = [], comp_cross_origin = None,
      comp_signed = Some (compile_signed demo_signed), comp_synchronizer = None\<rparr>"

definition demo_nonce :: string where "demo_nonce = replicate 32 (CHR ''n'')"

definition demo_token :: string where
  "demo_token = encode_token demo_crates 46 demo_nonce
     (demo_mac (replicate 32 (CHR ''k'')) (update_mac ''alice'' 46 demo_nonce))"

definition demo_request :: "string \<Rightarrow> HttpRequest" where
  "demo_request token =
     \<lparr>req_method = ''POST'', req_path = ''/transfer'',
      req_headers = [(''Cookie'', ''csrf='' @ token), (''X-CSRF-Token'', token)],
      req_session = Some ''alice'', req_buffered = (\<lambda>_. None)\<rparr>"

lemma byte_less: "byte c < 256"
  by (metis of_char_mod_256 mod_less_divisor zero_less_numeral)

lemma hex_decode_encode: "hex_decode (hex_encode bs) = Some bs"
proof (induction bs)
  case (Cons c bs)
  have "byte c div 16 < 16"
    using byte_less [of c] by (simp add: less_mult_imp_div_less)
  then show ?case
    using Cons by (simp add: hex_encode_def hex_char_value)
qed (simp add: hex_encode_def)

lemma hex_encode_length: "length (hex_encode bs) = 2 * length bs"
  by (induction bs) (simp_all add: hex_encode_def)

lemma hex_char_alphanumeric: "d < 16 \<Longrightarrow> is_ascii_alphanumeric (hex_char d)"
proof -
  have "list_all (\<lambda>d. is_ascii_alphanumeric (hex_char d)) [0..<16]"
    by code_simp
  then show "d < 16 \<Longrightarrow> is_ascii_alphanumeric (hex_char d)"
    by (simp add: list_all_iff)
qed

lemma demo_codec: "url_safe_codec demo_crates"
proof -
  have "byte c div 16 < 16" for c
    using byte_less [of c] by (simp add: less_mult_imp_div_less)
  then have "is_ascii_alphanumeric c" if "c \<in> set (hex_encode bs)" for c bs
    using that by (auto simp: hex_encode_def hex_char_alphanumeric)
  then show ?thesis
    by (simp add: url_safe_codec_def demo_crates_def hex_decode_encode hex_encode_length list_all_iff)
qed

lemma demo_mac_length: "length (demo_mac key m) = CSRF_MAC_BYTES"
  by (simp add: demo_mac_def)

lemma demo_names:
  "validate_name ''csrf'' = Ok ()" "validate_value ''csrf-probe'' = Ok ()" "validate_path ''/'' = Ok ()"
  "strip_prefix_str ''__Host-'' ''csrf'' = None"
  "eq_ignore_ascii_case ''Cookie'' ''cookie''" "\<not> eq_ignore_ascii_case ''X-CSRF-Token'' ''cookie''"
  "eq_ignore_ascii_case ''X-CSRF-Token'' ''x-csrf-token''" "\<not> eq_ignore_ascii_case ''Cookie'' ''x-csrf-token''"
  by code_simp+

lemma demo_try_new: "csrf_try_new demo_crates demo_policy = Ok demo_compiled"
  by (simp add: csrf_try_new_def csrf_validate_def validate_origins_def validate_bypasses_def validate_signed_def
      validate_synchronizer_def token_fields_validate_def csrf_cookie_validate_def csrf_response_cookie_def
      new_cookie_def path_def max_age_def as_secs_def subsec_nanos_def retained_policy_bytes_def option_len_def
      uses_cross_origin_def uses_token_def uses_signed_token_def uses_synchronizer_token_def demo_names
      demo_policy_def demo_signed_def demo_crates_def demo_compiled_def)

lemma demo_presented:
  assumes "validate_value token = Ok ()" and "length token \<le> MAX_CSRF_TOKEN_BYTES"
  shows "request_cookie demo_crates (demo_request token) ''csrf'' = Ok (Some token)"
    and "extract_request_token demo_crates (demo_request token) ''x-csrf-token'' None = Ok token"
proof -
  have "is_valid_cookie_value token"
    using assms(1) by (simp add: validate_value_def split: if_splits)
  moreover have "CHR '';'' \<notin> set token"
    using value_safe [OF assms(1)] by (auto simp: attribute_safe_def list_all_iff)
  ultimately show "request_cookie demo_crates (demo_request token) ''csrf'' = Ok (Some token)"
    using assms
    by (simp add: request_cookie_def cached_cookie_jar_def parse_jar_def store_pair_def validate_request_name_def
        validate_request_pair_Ok validate_request_pair_def checked_add_usize_def jar_get_def headers_named_def
        split_once_def split_on_single cookie_limits demo_names demo_request_def demo_crates_def)
  show "extract_request_token demo_crates (demo_request token) ''x-csrf-token'' None = Ok token"
    using assms(2)
    by (simp add: extract_request_token_def exact_header_def headers_named_def demo_names demo_request_def)
qed

text \<open>The token of the instance, and what the runtime says of it.\<close>

lemma demo_token_value: "validate_value demo_token = Ok ()" "length demo_token \<le> MAX_CSRF_TOKEN_BYTES"
proof -
  have bytes: "length demo_nonce = CSRF_NONCE_BYTES"
    by (simp add: demo_nonce_def)
  show "validate_value demo_token = Ok ()"
    unfolding demo_token_def by (rule encode_token_cookie_value [OF demo_codec bytes demo_mac_length])
  show "length demo_token \<le> MAX_CSRF_TOKEN_BYTES"
    unfolding demo_token_def
    by (rule order_trans [OF encode_token_length [OF demo_codec bytes demo_mac_length]]) simp
qed

lemma demo_token_parsed: "parse_token demo_crates demo_token
  = Ok \<lparr>token_expires = 46, token_nonce = demo_nonce,
        token_mac = demo_mac (replicate 32 (CHR ''k'')) (update_mac ''alice'' 46 demo_nonce)\<rparr>"
  unfolding demo_token_def by (rule parse_encode_token [OF demo_codec _ demo_mac_length]) (simp add: demo_nonce_def)

lemma csrf_demo_fields:
  "hmac_sha256 demo_crates key = Some (demo_mac key)"
  "sp_binding demo_signed (demo_request token) = Ok (Some ''alice'')"
  "cookie_name (sp_cookie demo_signed) = ''csrf''" "sp_token_header demo_signed = ''x-csrf-token''"
  "sp_form_field demo_signed = None" "sp_primary_key demo_signed = replicate 32 (CHR ''k'')"
  "sp_previous_keys demo_signed = []" "sp_ttl demo_signed = 36000000000"
  "pol_signed demo_policy = Some demo_signed" "pol_mode demo_policy = SignedDoubleSubmit"
  by (simp_all add: demo_crates_def demo_signed_def demo_policy_def request_local_session_id_def demo_request_def)

theorem signed_enforcement_exact_witness:
  "csrf_enforce demo_crates demo_compiled (demo_request demo_token) (Some 20) None () = ((), Ok ())"
proof -
  have framed: "\<forall>session' e' nonce'. length nonce' = CSRF_NONCE_BYTES
      \<and> update_mac session' e' nonce' = update_mac ''alice'' 46 demo_nonce
      \<longrightarrow> session' = ''alice'' \<and> e' = 46 \<and> nonce' = demo_nonce"
    by (auto simp: demo_nonce_def dest: update_mac_inject)
  show ?thesis
    unfolding signed_enforcement_exact [OF demo_try_new csrf_demo_fields(9)]
    by (rule conjI [OF refl], (rule disjI2)+, rule conjI, simp add: csrf_demo_fields,
        rule exI [of _ 20], rule exI [of _ "''alice''"], rule exI [of _ demo_token],
        rule exI [of _ "\<lparr>token_expires = 46, token_nonce = demo_nonce,
          token_mac = demo_mac (replicate 32 (CHR ''k'')) (update_mac ''alice'' 46 demo_nonce)\<rparr>"],
        rule exI [of _ "replicate 32 (CHR ''k'')"], rule exI [of _ "demo_mac (replicate 32 (CHR ''k''))"])
      (use framed in \<open>simp add: csrf_demo_fields demo_presented [OF demo_token_value] demo_token_parsed, blast\<close>)
qed

theorem issued_token_accepted_witness:
  "\<exists>cookie. csrf_issue demo_crates demo_compiled (demo_request []) (Some 10) (Some demo_nonce) ()
      = ((), Ok (demo_token, Some cookie)) \<and> rc_value cookie = demo_token
    \<and> signed_enforce demo_crates (compile_signed demo_signed) (demo_request demo_token) 45 = Ok ()
    \<and> signed_enforce demo_crates (compile_signed demo_signed) (demo_request demo_token) 46 = Err TokenExpired"
proof -
  have nonce: "length demo_nonce = CSRF_NONCE_BYTES"
    by (simp add: demo_nonce_def)
  obtain token cookie where issued: "csrf_issue demo_crates demo_compiled (demo_request []) (Some 10) (Some demo_nonce) ()
      = ((), Ok (token, Some cookie))" and "rc_value cookie = token"
    and accepted: "\<And>sp' req' now'. sp_primary_key demo_signed \<in> set (sp_primary_key sp' # sp_previous_keys sp')
        \<and> sp_binding sp' req' = Ok (Some ''alice'')
        \<and> request_cookie demo_crates req' (cookie_name (sp_cookie sp')) = Ok (Some token)
        \<and> extract_request_token demo_crates req' (sp_token_header sp') (sp_form_field sp') = Ok token
        \<Longrightarrow> signed_enforce demo_crates (compile_signed sp') req' now'
          = (if unat now' < unat (10 :: u64) + sp_ttl demo_signed div 1000000000 then Ok () else Err TokenExpired)"
    using issued_token_accepted [OF demo_codec demo_mac_length csrf_demo_fields(1) demo_try_new csrf_demo_fields(9,2) nonce,
        where now = 10 and s = "()"]
    by (simp add: csrf_demo_fields) blast
  moreover have "token = demo_token"
  proof -
    have "checked_add 10 (as_secs 36000000000) = Some (46 :: u64)"
      by (simp add: checked_add_def as_secs_def)
    then show ?thesis
      using issued by (auto simp: csrf_issue_def unix_seconds_def demo_compiled_def signed_issue_def sign_def
          session_binding_def compile_signed_def csrf_demo_fields demo_token_def Let_def split: sum.splits)
  qed
  ultimately show ?thesis
    using accepted [of demo_signed "demo_request demo_token" 45] accepted [of demo_signed "demo_request demo_token" 46]
      demo_presented [OF demo_token_value] by (auto simp: csrf_demo_fields)
qed

definition demo_sync :: "TestTokenStore CompiledSynchronizer" where
  "demo_sync =
     \<lparr>sy_key_derivation_secret = replicate 32 (CHR ''k''), sy_binding = request_local_session_id,
      sy_store = test_token_store, sy_token_header = ''x-csrf-token'', sy_form_field = None,
      sy_ttl = 36000000000, sy_store_timeout = 1000000000\<rparr>"

definition demo_store :: TestTokenStore where
  "demo_store = \<lparr>store_values = [], store_behavior = 0\<rparr>"

lemma demo_rotate:
  "\<exists>s1. sync_rotate demo_crates demo_sync (demo_request []) 10 (Some demo_nonce) demo_store
      = (s1, Ok (hex_encode demo_nonce))
    \<and> snd (sync_enforce demo_crates demo_sync (demo_request (hex_encode demo_nonce)) 20 s1) = Ok ()"
proof -
  have bytes: "length (hex_encode demo_nonce) = 64" "length demo_nonce = 32"
    by (simp_all add: hex_encode_length demo_nonce_def)
  moreover from bytes(1) have "hex_encode demo_nonce \<noteq> []"
    by auto
  ultimately have valid: "valid_synchronizer_token demo_crates (hex_encode demo_nonce)"
    by (simp add: valid_synchronizer_token_def demo_crates_def hex_decode_encode)
  have header: "extract_request_token demo_crates (demo_request (hex_encode demo_nonce)) ''x-csrf-token'' None
      = Ok (hex_encode demo_nonce)"
    using bytes(1)
    by (simp add: extract_request_token_def exact_header_def headers_named_def demo_names demo_request_def)
  have "checked_add 10 (as_secs 36000000000) = Some (46 :: u64)" "b64_encode demo_crates = hex_encode"
    by (simp_all add: checked_add_def as_secs_def demo_crates_def)
  then show ?thesis
    using valid header
    by (simp add: sync_rotate_def sync_store_key_def session_binding_def candidate_def stored_from_parts_def
        derive_store_key_def sync_enforce_def sync_presented_def enforced_binding_def demo_sync_def
        test_token_store_def store_operation_def before_operation_def demo_store_def csrf_demo_fields
        request_local_session_id_def) (simp add: demo_request_def)
qed

theorem synchronizer_lifecycle_witness:
  "\<exists>s1. sync_rotate demo_crates demo_sync (demo_request []) 10 (Some demo_nonce) demo_store
      = (s1, Ok (hex_encode demo_nonce))
    \<and> snd (sync_enforce demo_crates demo_sync (demo_request (hex_encode demo_nonce)) 20 s1) = Ok ()
    \<and> snd (sync_enforce demo_crates demo_sync (demo_request ''stale'') 20 s1) \<noteq> Ok ()"
proof -
  obtain s1 where rotated: "sync_rotate demo_crates demo_sync (demo_request []) 10 (Some demo_nonce) demo_store
      = (s1, Ok (hex_encode demo_nonce))"
    and accepted: "snd (sync_enforce demo_crates demo_sync (demo_request (hex_encode demo_nonce)) 20 s1) = Ok ()"
    using demo_rotate by blast
  have store: "token_store (sy_store demo_sync) (\<lambda>s. hm_get (store_values s))"
    unfolding demo_sync_def by (simp add: memory.token_store_axioms)
  have same: "sy_binding demo_sync (demo_request ''stale'') = sy_binding demo_sync (demo_request [])"
    by (simp add: demo_sync_def request_local_session_id_def demo_request_def)
  have presented: "extract_request_token demo_crates (demo_request ''stale'') (sy_token_header demo_sync)
      (sy_form_field demo_sync) = Ok ''stale''"
    by (simp add: extract_request_token_def exact_header_def headers_named_def demo_names demo_request_def demo_sync_def)
  have "length (hex_encode demo_nonce) \<noteq> length ''stale''"
    by (simp add: hex_encode_length demo_nonce_def)
  then have stale: "''stale'' \<noteq> hex_encode demo_nonce"
    by metis
  have "sync_enforce demo_crates demo_sync (demo_request ''stale'') 20 s1 \<noteq> (s', Ok ())" for s'
    using synchronizer_lifecycle [OF store same, where crates = demo_crates and now' = 20 and s = demo_store
        and s' = s' and now = 10 and random = "Some demo_nonce" and ?s1.0 = s1 and token = "hex_encode demo_nonce"]
      rotated presented stale by simp
  then have "snd (sync_enforce demo_crates demo_sync (demo_request ''stale'') 20 s1) \<noteq> Ok ()"
    by (metis prod.collapse)
  then show ?thesis
    using rotated accepted by blast
qed

end
