(* ===== verification/Topology_Plan.thy ===== *)
theory Topology_Plan
  imports Lily_Prelude
begin

text \<open>
  The compiled RabbitMQ topology of \<^verbatim>\<open>lily_config/src/topology_plan.rs\<close>: validation of the
  queue definitions, the derived names, the retry-delay buckets and the collision checks.
  The configuration records are those of \<^verbatim>\<open>lily_config/src/config.rs\<close>, without the
  feature-gated inbox binding; \<^verbatim>\<open>parse_config_reference\<close> is from \<^verbatim>\<open>secret.rs\<close>.

  Integers are natural numbers with the saturation and range checks of the source written
  out. The jitter ratio is a 64-bit float: not a number, an infinity, or a sign with a
  mantissa over a power of two; the product with a delay is rounded to 53 significant bits, ties to even,
  as IEEE 754 prescribes, and \<open>f64::round\<close> rounds half away from zero.
\<close>

section \<open>Configuration\<close>

definition TOPOLOGY_VERSION :: string where "TOPOLOGY_VERSION = ''v2''"
definition MAX_IDENTITY_BYTES :: nat where "MAX_IDENTITY_BYTES = 200"
definition MAX_QUEUE_CONCURRENCY :: nat where "MAX_QUEUE_CONCURRENCY = 1024"
definition MAX_QUEUE_PREFETCH :: nat where "MAX_QUEUE_PREFETCH = 4096"
definition MAX_QUEUE_MESSAGE_SIZE_BYTES :: nat where
  "MAX_QUEUE_MESSAGE_SIZE_BYTES = 16 * 1024 * 1024"
definition MAX_QUEUE_RETRY_ATTEMPTS :: nat where "MAX_QUEUE_RETRY_ATTEMPTS = 100"
definition MAX_RETRY_BUCKETS_PER_QUEUE :: nat where "MAX_RETRY_BUCKETS_PER_QUEUE = 32"
definition MAX_RETRY_BUCKETS_PER_TOPOLOGY :: nat where "MAX_RETRY_BUCKETS_PER_TOPOLOGY = 4096"

datatype f64 = NaN | Infinite bool | Dyadic bool nat nat

datatype RabbitMqExchangeKind = Direct

datatype RabbitMqQueueType = Classic | Quorum

datatype RabbitMqTopologyOwnership = FrameworkManaged | External

record QueueRetentionConfig =
  main_max_messages :: nat
  main_max_bytes :: nat
  retry_bucket_max_messages :: nat
  retry_bucket_max_bytes :: nat
  dead_letter_max_messages :: nat
  dead_letter_max_bytes :: nat

record QueueDefinition =
  qd_name :: string
  qd_exchange_name :: string
  qd_routing_key :: string
  qd_exchange_kind :: RabbitMqExchangeKind
  qd_queue_type :: RabbitMqQueueType
  qd_topology_ownership :: RabbitMqTopologyOwnership
  concurrency :: nat
  prefetch_count :: nat
  delivery_buffer_capacity :: "nat option"
  retry_attempts :: nat
  retry_backoff_millis :: "nat option"
  max_retry_backoff_millis :: "nat option"
  retry_jitter_ratio :: f64
  delivery_execution_timeout_millis :: "nat option"
  settlement_timeout_millis :: "nat option"
  durable :: bool
  max_message_size_bytes :: nat
  retention :: "QueueRetentionConfig option"
  dead_letter_exchange :: "string option"
  dead_letter_routing_key :: "string option"
  message_ttl_ms :: "nat option"
  exclusive :: bool
  auto_delete :: bool
  single_active_consumer :: bool
  max_priority :: "nat option"

record RabbitMqTopologyConfig =
  config_queues :: "QueueDefinition list"

datatype ConfigReference = SecretReference string | FileReference string

definition parse_config_reference :: "string \<Rightarrow> ConfigReference option" where
  "parse_config_reference v =
     Option.bind (strip_prefix_str ''${'' v) (\<lambda>rest.
     Option.bind (strip_suffix_str ''}'' rest) (\<lambda>expression.
       case strip_prefix_str ''secret:'' expression of
         Some key \<Rightarrow>
           if key = [] \<or> \<not> is_trimmed key then None else Some (SecretReference key)
       | None \<Rightarrow>
           Option.bind (strip_prefix_str ''file:'' expression) (\<lambda>p.
             if p = [] \<or> \<not> is_trimmed p then None else Some (FileReference p))))"

section \<open>Errors and plans\<close>

datatype RabbitMqTopologyPlanError =
    DuplicateQueueName string
  | InvalidIdentity string string
  | InvalidDerivedIdentity string string
  | MissingRetention string
  | InvalidRetention string string
  | InvalidQueuePolicy string string
  | RetryBucketLimitExceeded string nat nat
  | TopologyRetryBucketLimitExceeded nat nat
  | ExternalDestinationRequired string string
  | PhysicalQueueNameCollision string
  | ExchangeContractConflict string

record RabbitMqRetryBucketPlan =
  bucket_queue_name :: string
  bucket_routing_key :: string
  delay_millis :: nat
  bucket_queue_type :: RabbitMqQueueType

record RabbitMqQueueTopologyPlan =
  plan_definition :: QueueDefinition
  exchange_name :: string
  exchange_kind :: RabbitMqExchangeKind
  main_queue_name :: string
  routing_key :: string
  retry_exchange_name :: string
  retry_buckets :: "RabbitMqRetryBucketPlan list"
  plan_delays_by_attempt :: "nat list list"
  dead_letter_exchange_name :: string
  dead_letter_queue_name :: string
  plan_dead_letter_routing_key :: string
  system_queue_type :: RabbitMqQueueType
  topology_ownership :: RabbitMqTopologyOwnership

record RabbitMqTopologyPlan =
  plan_queues :: "RabbitMqQueueTopologyPlan list"

section \<open>Validation\<close>

definition identity_is_valid :: "string \<Rightarrow> bool" where
  "identity_is_valid v \<longleftrightarrow> 1 \<le> length v \<and> length v \<le> MAX_IDENTITY_BYTES \<and> is_trimmed v \<and>
     \<not> has_control v \<and> parse_config_reference v = None"

definition validate_derived_identity ::
  "QueueDefinition \<Rightarrow> string \<Rightarrow> string \<Rightarrow> (RabbitMqTopologyPlanError, unit) result" where
  "validate_derived_identity definition resource v =
     (if identity_is_valid v then Ok () else Err (InvalidDerivedIdentity (qd_name definition) resource))"

definition invalid_policy :: "QueueDefinition \<Rightarrow> string \<Rightarrow> (RabbitMqTopologyPlanError, 'a) result" where
  "invalid_policy definition field = Err (InvalidQueuePolicy (qd_name definition) field)"

fun check_identities ::
  "QueueDefinition \<Rightarrow> (string \<times> string option) list \<Rightarrow> (RabbitMqTopologyPlanError, unit) result" where
  "check_identities definition [] = Ok ()"
| "check_identities definition ((field, v) # rest) =
     (case v of
        Some s \<Rightarrow>
          if \<not> identity_is_valid s then Err (InvalidIdentity (qd_name definition) field)
          else check_identities definition rest
      | None \<Rightarrow> check_identities definition rest)"

fun check_destinations ::
  "QueueDefinition \<Rightarrow> (string \<times> bool) list \<Rightarrow> (RabbitMqTopologyPlanError, unit) result" where
  "check_destinations definition [] = Ok ()"
| "check_destinations definition ((field, present) # rest) =
     (if \<not> present then Err (ExternalDestinationRequired (qd_name definition) field)
      else check_destinations definition rest)"

fun check_retention ::
  "QueueDefinition \<Rightarrow> (string \<times> nat) list \<Rightarrow> (RabbitMqTopologyPlanError, unit) result" where
  "check_retention definition [] = Ok ()"
| "check_retention definition ((field, v) # rest) =
     (if v = 0 \<or> v > 2 ^ 63 - 1 then Err (InvalidRetention (qd_name definition) field)
      else check_retention definition rest)"

fun is_finite :: "f64 \<Rightarrow> bool" where
  "is_finite (Dyadic _ _ _) = True"
| "is_finite _ = False"

text \<open>\<open>(0.0..=0.5).contains(&r)\<close>; minus zero is in the range.\<close>

fun in_jitter_range :: "f64 \<Rightarrow> bool" where
  "in_jitter_range (Dyadic negative mantissa e) =
     ((negative \<longrightarrow> mantissa = 0) \<and> 2 * mantissa \<le> 2 ^ e)"
| "in_jitter_range _ = False"

definition unwrap_or :: "'a \<Rightarrow> 'a option \<Rightarrow> 'a" where
  "unwrap_or d v = (case v of Some x \<Rightarrow> x | None \<Rightarrow> d)"

definition validate_queue_type :: "QueueDefinition \<Rightarrow> (RabbitMqTopologyPlanError, unit) result" where
  "validate_queue_type definition =
     (case qd_queue_type definition of
        Classic \<Rightarrow>
          (case max_priority definition of
             Some priority \<Rightarrow>
               if \<not> (1 \<le> priority \<and> priority \<le> 16) then invalid_policy definition ''max_priority'' else Ok ()
           | None \<Rightarrow> Ok ())
      | Quorum \<Rightarrow>
          if \<not> durable definition then invalid_policy definition ''durable''
          else if auto_delete definition then invalid_policy definition ''auto_delete''
          else if max_priority definition \<noteq> None then invalid_policy definition ''max_priority''
          else Ok ())"

definition validate_definition :: "QueueDefinition \<Rightarrow> (RabbitMqTopologyPlanError, unit) result" where
  "validate_definition definition =
     and_then (check_identities definition
       [(''name'', Some (qd_name definition)),
        (''exchange_name'', Some (qd_exchange_name definition)),
        (''routing_key'', Some (qd_routing_key definition)),
        (''dead_letter_exchange'', dead_letter_exchange definition),
        (''dead_letter_routing_key'', dead_letter_routing_key definition)]) (\<lambda>_.
     if exclusive definition then invalid_policy definition ''exclusive'' else
     and_then
       (if qd_topology_ownership definition = External then
          check_destinations definition
            [(''dead_letter_exchange'', dead_letter_exchange definition \<noteq> None),
             (''dead_letter_routing_key'', dead_letter_routing_key definition \<noteq> None)]
        else Ok ()) (\<lambda>_.
     let buffer = unwrap_or (prefetch_count definition) (delivery_buffer_capacity definition);
         base = unwrap_or 1000 (retry_backoff_millis definition);
         cap = unwrap_or 60000 (max_retry_backoff_millis definition);
         execution = unwrap_or 30000 (delivery_execution_timeout_millis definition);
         settlement = unwrap_or 5000 (settlement_timeout_millis definition)
     in
     if \<not> (1 \<le> concurrency definition \<and> concurrency definition \<le> MAX_QUEUE_CONCURRENCY)
       then invalid_policy definition ''concurrency''
     else if \<not> (1 \<le> prefetch_count definition \<and> prefetch_count definition \<le> MAX_QUEUE_PREFETCH)
       then invalid_policy definition ''prefetch_count''
     else if buffer = 0 \<or> buffer > prefetch_count definition
       then invalid_policy definition ''delivery_buffer_capacity''
     else if \<not> (1 \<le> max_message_size_bytes definition \<and>
                max_message_size_bytes definition \<le> MAX_QUEUE_MESSAGE_SIZE_BYTES)
       then invalid_policy definition ''max_message_size_bytes''
     else if retry_attempts definition > MAX_QUEUE_RETRY_ATTEMPTS
       then invalid_policy definition ''retry_attempts''
     else if \<not> is_finite (retry_jitter_ratio definition) \<or> \<not> in_jitter_range (retry_jitter_ratio definition)
       then invalid_policy definition ''retry_jitter_ratio''
     else if \<not> (100 \<le> base \<and> base \<le> 300000) \<or> \<not> (base \<le> cap \<and> cap \<le> 900000)
       then invalid_policy definition ''retry_backoff''
     else if \<not> (100 \<le> execution \<and> execution \<le> 900000)
       then invalid_policy definition ''delivery_execution_timeout_millis''
     else if \<not> (1 \<le> settlement \<and> settlement \<le> 60000)
       then invalid_policy definition ''settlement_timeout_millis''
     else if message_ttl_ms definition = Some 0
       then invalid_policy definition ''message_ttl_ms''
     else
       (case retention definition of
          None \<Rightarrow> Err (MissingRetention (qd_name definition))
        | Some r \<Rightarrow>
            and_then (check_retention definition
              [(''main_max_messages'', main_max_messages r),
               (''main_max_bytes'', main_max_bytes r),
               (''retry_bucket_max_messages'', retry_bucket_max_messages r),
               (''retry_bucket_max_bytes'', retry_bucket_max_bytes r),
               (''dead_letter_max_messages'', dead_letter_max_messages r),
               (''dead_letter_max_bytes'', dead_letter_max_bytes r)])
              (\<lambda>_. validate_queue_type definition))))"

section \<open>Retry delays\<close>

abbreviation u64_max :: nat where
  "u64_max \<equiv> 2 ^ 64 - 1"

fun bit_length :: "nat \<Rightarrow> nat" where
  "bit_length n = (if n = 0 then 0 else Suc (bit_length (n div 2)))"

declare bit_length.simps [simp del]

text \<open>Rounding to 53 significant bits, ties to even.\<close>

definition round53 :: "nat \<Rightarrow> nat" where
  "round53 n =
     (let s = bit_length n - 53
      in if s = 0 then n
         else let q = n div 2 ^ s; r = n mod 2 ^ s; half = 2 ^ (s - 1)
              in (if r > half \<or> r = half \<and> odd q then q + 1 else q) * 2 ^ s)"

text \<open>\<open>((nominal as f64) * ratio).round() as u64\<close>.\<close>

fun jitter_spread :: "nat \<Rightarrow> f64 \<Rightarrow> nat" where
  "jitter_spread nominal NaN = 0"
| "jitter_spread nominal (Infinite negative) = (if negative \<or> nominal = 0 then 0 else u64_max)"
| "jitter_spread nominal (Dyadic negative mantissa e) =
     (if negative then 0
      else min ((2 * round53 (round53 nominal * mantissa) + 2 ^ e) div 2 ^ (e + 1)) u64_max)"

definition clamp :: "nat \<Rightarrow> nat \<Rightarrow> nat \<Rightarrow> nat" where
  "clamp lo hi x = (if x < lo then lo else if x > hi then hi else x)"

fun push_new :: "'a \<Rightarrow> 'a list \<Rightarrow> 'a list" where
  "push_new x xs = (if x \<in> set xs then xs else xs @ [x])"

definition base_millis :: "QueueDefinition \<Rightarrow> nat" where
  "base_millis definition = unwrap_or 1000 (retry_backoff_millis definition)"

definition cap_millis :: "QueueDefinition \<Rightarrow> nat" where
  "cap_millis definition = unwrap_or 60000 (max_retry_backoff_millis definition)"

definition nominal_delay :: "QueueDefinition \<Rightarrow> nat \<Rightarrow> nat" where
  "nominal_delay definition retry_count =
     (let exponent = min (retry_count - 1) 31;
          multiplier = (if exponent < 64 then 2 ^ exponent else u64_max)
      in min (min (base_millis definition * multiplier) u64_max) (cap_millis definition))"

definition attempt_delays :: "QueueDefinition \<Rightarrow> nat \<Rightarrow> nat list" where
  "attempt_delays definition retry_count =
     (let nominal = nominal_delay definition retry_count;
          spread = jitter_spread nominal (retry_jitter_ratio definition)
      in fold (\<lambda>candidate. push_new (clamp (base_millis definition) (cap_millis definition) candidate))
           [nominal - spread, nominal, min (nominal + spread) u64_max] [])"

definition retry_bucket_delays_by_attempt :: "QueueDefinition \<Rightarrow> nat list list" where
  "retry_bucket_delays_by_attempt definition =
     map (attempt_delays definition) [1..<Suc (retry_attempts definition)]"

text \<open>Through a \<open>BTreeSet\<close>: sorted, without duplicates.\<close>

definition retry_bucket_delays :: "nat list list \<Rightarrow> nat list" where
  "retry_bucket_delays routes = sort (remdups (concat routes))"

section \<open>Compilation\<close>

fun compile_buckets ::
  "QueueDefinition \<Rightarrow> nat list \<Rightarrow> (RabbitMqTopologyPlanError, RabbitMqRetryBucketPlan list) result" where
  "compile_buckets definition [] = Ok []"
| "compile_buckets definition (delay # rest) =
     (let queue_name = qd_name definition @ ''.retry.'' @ TOPOLOGY_VERSION @ ''.'' @ show_nat delay @ ''ms'';
          key = qd_name definition @ ''.retry.'' @ show_nat delay @ ''ms''
      in and_then (validate_derived_identity definition ''retry_bucket.queue_name'' queue_name) (\<lambda>_.
         and_then (validate_derived_identity definition ''retry_bucket.routing_key'' key) (\<lambda>_.
         and_then (compile_buckets definition rest) (\<lambda>buckets.
         Ok (\<lparr>bucket_queue_name = queue_name, bucket_routing_key = key, delay_millis = delay,
              bucket_queue_type = qd_queue_type definition\<rparr> # buckets)))))"

definition compile_queue ::
  "QueueDefinition \<Rightarrow> (RabbitMqTopologyPlanError, RabbitMqQueueTopologyPlan) result" where
  "compile_queue definition =
     (let retry_exchange = qd_exchange_name definition @ ''.retry.'' @ TOPOLOGY_VERSION
      in and_then (validate_derived_identity definition ''retry_exchange_name'' retry_exchange) (\<lambda>_.
         let by_attempt = retry_bucket_delays_by_attempt definition;
             delays = retry_bucket_delays by_attempt
         in if length delays > MAX_RETRY_BUCKETS_PER_QUEUE
            then Err (RetryBucketLimitExceeded (qd_name definition) (length delays) MAX_RETRY_BUCKETS_PER_QUEUE)
            else and_then (compile_buckets definition delays) (\<lambda>buckets.
              let dlx = unwrap_or (qd_exchange_name definition @ ''.dlx.'' @ TOPOLOGY_VERSION)
                          (dead_letter_exchange definition);
                  dlq = qd_name definition @ ''.dlq.'' @ TOPOLOGY_VERSION;
                  dlk = unwrap_or (qd_name definition) (dead_letter_routing_key definition)
              in and_then (validate_derived_identity definition ''dead_letter_exchange_name'' dlx) (\<lambda>_.
                 and_then (validate_derived_identity definition ''dead_letter_queue_name'' dlq) (\<lambda>_.
                 and_then (validate_derived_identity definition ''dead_letter_routing_key'' dlk) (\<lambda>_.
                 Ok \<lparr>plan_definition = definition, exchange_name = qd_exchange_name definition,
                     exchange_kind = qd_exchange_kind definition, main_queue_name = qd_name definition,
                     routing_key = qd_routing_key definition, retry_exchange_name = retry_exchange,
                     retry_buckets = buckets, plan_delays_by_attempt = by_attempt,
                     dead_letter_exchange_name = dlx, dead_letter_queue_name = dlq,
                     plan_dead_letter_routing_key = dlk,
                     system_queue_type = qd_queue_type definition,
                     topology_ownership = qd_topology_ownership definition\<rparr>))))))"

definition register_physical_queue ::
  "string list \<Rightarrow> string \<Rightarrow> (RabbitMqTopologyPlanError, string list) result" where
  "register_physical_queue queues name =
     (if name \<in> set queues then Err (PhysicalQueueNameCollision name) else Ok (queues @ [name]))"

fun register_physical_queues ::
  "string list \<Rightarrow> string list \<Rightarrow> (RabbitMqTopologyPlanError, string list) result" where
  "register_physical_queues queues [] = Ok queues"
| "register_physical_queues queues (name # rest) =
     and_then (register_physical_queue queues name) (\<lambda>queues. register_physical_queues queues rest)"

type_synonym exchange_table =
  "(string, RabbitMqExchangeKind \<times> RabbitMqTopologyOwnership) hashmap"

definition register_exchange ::
  "exchange_table \<Rightarrow> string \<Rightarrow> RabbitMqExchangeKind \<Rightarrow> RabbitMqTopologyOwnership
     \<Rightarrow> (RabbitMqTopologyPlanError, exchange_table) result" where
  "register_exchange exchanges name kind ownership =
     (case hm_get exchanges name of
        Some (accepted_kind, accepted_ownership) \<Rightarrow>
          if accepted_kind \<noteq> kind \<or> accepted_ownership \<noteq> ownership
          then Err (ExchangeContractConflict name)
          else Ok (hm_insert name (kind, ownership) exchanges)
      | None \<Rightarrow> Ok (hm_insert name (kind, ownership) exchanges))"

record compile_state =
  logical_queues :: "string list"
  physical_queues :: "string list"
  exchanges :: exchange_table
  compiled_queues :: "RabbitMqQueueTopologyPlan list"
  retry_bucket_count :: nat

text \<open>One pass of the loop over the configured queues.\<close>

definition compile_step ::
  "QueueDefinition \<Rightarrow> compile_state \<Rightarrow> (RabbitMqTopologyPlanError, compile_state) result" where
  "compile_step definition st =
     (if qd_name definition \<in> set (logical_queues st) then Err (DuplicateQueueName (qd_name definition))
      else
        and_then (validate_definition definition) (\<lambda>_.
        and_then (compile_queue definition) (\<lambda>queue.
        let count = retry_bucket_count st + length (retry_buckets queue)
        in if count > u64_max
           then Err (TopologyRetryBucketLimitExceeded u64_max MAX_RETRY_BUCKETS_PER_TOPOLOGY)
           else if count > MAX_RETRY_BUCKETS_PER_TOPOLOGY
           then Err (TopologyRetryBucketLimitExceeded count MAX_RETRY_BUCKETS_PER_TOPOLOGY)
           else
             and_then (register_exchange (exchanges st) (exchange_name queue) (exchange_kind queue)
               (topology_ownership queue)) (\<lambda>ex.
             and_then (register_exchange ex (dead_letter_exchange_name queue) Direct
               (topology_ownership queue)) (\<lambda>ex.
             and_then
               (if retry_buckets queue \<noteq> []
                then register_exchange ex (retry_exchange_name queue) Direct (topology_ownership queue)
                else Ok ex) (\<lambda>ex.
             and_then (register_physical_queue (physical_queues st) (main_queue_name queue)) (\<lambda>names.
             and_then (register_physical_queues names (map bucket_queue_name (retry_buckets queue))) (\<lambda>names.
             and_then (register_physical_queue names (dead_letter_queue_name queue)) (\<lambda>names.
             Ok \<lparr>logical_queues = logical_queues st @ [qd_name definition],
                 physical_queues = names, exchanges = ex,
                 compiled_queues = compiled_queues st @ [queue],
                 retry_bucket_count = count\<rparr>))))))))) "

fun compile_loop ::
  "QueueDefinition list \<Rightarrow> compile_state \<Rightarrow> (RabbitMqTopologyPlanError, compile_state) result" where
  "compile_loop [] st = Ok st"
| "compile_loop (definition # rest) st = and_then (compile_step definition st) (\<lambda>st. compile_loop rest st)"

definition compile_topology ::
  "RabbitMqTopologyConfig \<Rightarrow> (RabbitMqTopologyPlanError, RabbitMqTopologyPlan) result" where
  "compile_topology config =
     and_then (compile_loop (config_queues config)
       \<lparr>logical_queues = [], physical_queues = [], exchanges = [], compiled_queues = [],
        retry_bucket_count = 0\<rparr>)
       (\<lambda>st. Ok \<lparr>plan_queues = compiled_queues st\<rparr>)"

definition plan_queue :: "RabbitMqTopologyPlan \<Rightarrow> string \<Rightarrow> RabbitMqQueueTopologyPlan option" where
  "plan_queue plan name = find (\<lambda>queue. main_queue_name queue = name) (plan_queues plan)"

text \<open>\<open>RabbitMqQueueTopologyPlan::retry_bucket_delays\<close>.\<close>

definition plan_retry_bucket_delays :: "RabbitMqQueueTopologyPlan \<Rightarrow> nat \<Rightarrow> nat list option" where
  "plan_retry_bucket_delays queue retry_attempt =
     (if retry_attempt = 0 then None
      else if retry_attempt - 1 < length (plan_delays_by_attempt queue)
      then Some (plan_delays_by_attempt queue ! (retry_attempt - 1))
      else None)"

section \<open>Retry delays stay in range\<close>

definition bounded_policy :: "QueueDefinition \<Rightarrow> bool" where
  "bounded_policy definition \<longleftrightarrow> identity_is_valid (qd_name definition) \<and>
     100 \<le> base_millis definition \<and> base_millis definition \<le> 300000 \<and>
     base_millis definition \<le> cap_millis definition \<and> cap_millis definition \<le> 900000 \<and>
     retry_attempts definition \<le> 100"

lemma validate_definition_bounds:
  assumes "validate_definition definition = Ok ()"
  shows "bounded_policy definition"
  using assms
  unfolding validate_definition_def bounded_policy_def base_millis_def cap_millis_def Let_def
  by (auto simp: invalid_policy_def MAX_QUEUE_RETRY_ATTEMPTS_def split: if_splits)

lemma power_less_u64: "e \<le> 31 \<Longrightarrow> b \<le> 900000 \<Longrightarrow> b * 2 ^ e \<le> u64_max"
proof -
  assume "e \<le> 31" "b \<le> 900000"
  then have "b * 2 ^ e \<le> 900000 * 2 ^ 31"
    by (intro mult_le_mono power_increasing) auto
  then show ?thesis by simp
qed

lemma nominal_delay_exact:
  assumes "bounded_policy definition"
  shows "nominal_delay definition k =
    min (base_millis definition * 2 ^ min (k - 1) 31) (cap_millis definition)"
  using assms power_less_u64[of "min (k - 1) 31" "base_millis definition"]
  by (simp add: nominal_delay_def Let_def bounded_policy_def min_absorb1)

lemma nominal_delay_range:
  assumes "bounded_policy definition"
  shows "base_millis definition \<le> nominal_delay definition k \<and> nominal_delay definition k \<le> cap_millis definition"
  using assms by (simp add: nominal_delay_exact) (simp add: bounded_policy_def)

lemma set_push_new [simp]: "set (push_new x xs) = insert x (set xs)"
  by auto

lemma length_push_new: "length (push_new x xs) \<le> Suc (length xs)"
  by simp

declare push_new.simps [simp del]

lemma clamp_range: "lo \<le> hi \<Longrightarrow> lo \<le> clamp lo hi x \<and> clamp lo hi x \<le> hi"
  by (simp add: clamp_def)

lemma attempt_delays_range:
  assumes "bounded_policy definition"
  shows "attempt_delays definition k \<noteq> [] \<and> length (attempt_delays definition k) \<le> 3 \<and>
    nominal_delay definition k \<in> set (attempt_delays definition k) \<and>
    set (attempt_delays definition k) \<subseteq> {base_millis definition..cap_millis definition}"
proof -
  let ?c = "clamp (base_millis definition) (cap_millis definition)"
  let ?n = "nominal_delay definition k"
  let ?s = "jitter_spread ?n (retry_jitter_ratio definition)"
  let ?r = "attempt_delays definition k"
  have r: "?r = push_new (?c (min (?n + ?s) u64_max)) (push_new (?c ?n) (push_new (?c (?n - ?s)) []))"
    by (simp add: attempt_delays_def Let_def)
  have "?c ?n = ?n" using nominal_delay_range[OF assms, of k] by (simp add: clamp_def)
  then have "?n \<in> set ?r" by (simp add: r)
  moreover have "length ?r \<le> 3"
    using length_push_new[of "?c (min (?n + ?s) u64_max)" "push_new (?c ?n) (push_new (?c (?n - ?s)) [])"]
      length_push_new[of "?c ?n" "push_new (?c (?n - ?s)) []"] length_push_new[of "?c (?n - ?s)" "[]"]
    unfolding r by simp
  moreover have "base_millis definition \<le> cap_millis definition"
    using assms by (simp add: bounded_policy_def)
  then have "set ?r \<subseteq> {base_millis definition..cap_millis definition}"
    using clamp_range unfolding r by auto
  ultimately show ?thesis by auto
qed

section \<open>What compilation establishes\<close>

definition physical_names :: "RabbitMqQueueTopologyPlan \<Rightarrow> string list" where
  "physical_names queue =
     main_queue_name queue # map bucket_queue_name (retry_buckets queue) @ [dead_letter_queue_name queue]"

definition exchange_uses ::
  "RabbitMqQueueTopologyPlan \<Rightarrow> (string \<times> RabbitMqExchangeKind \<times> RabbitMqTopologyOwnership) list" where
  "exchange_uses queue =
     [(exchange_name queue, exchange_kind queue, topology_ownership queue),
      (dead_letter_exchange_name queue, Direct, topology_ownership queue)] @
     (if retry_buckets queue \<noteq> [] then [(retry_exchange_name queue, Direct, topology_ownership queue)] else [])"

lemma derived_Ok [simp]: "validate_derived_identity d r v = Ok () \<longleftrightarrow> identity_is_valid v"
  by (simp add: validate_derived_identity_def)

lemma compile_buckets_Ok:
  "compile_buckets definition delays = Ok buckets \<Longrightarrow>
   map delay_millis buckets = delays \<and> (\<forall>b\<in>set buckets. identity_is_valid (bucket_queue_name b))"
  by (induction delays arbitrary: buckets) (auto simp: Let_def)

definition compiled :: "QueueDefinition \<Rightarrow> RabbitMqQueueTopologyPlan \<Rightarrow> bool" where
  "compiled definition queue \<longleftrightarrow> plan_definition queue = definition \<and> bounded_policy definition \<and>
     main_queue_name queue = qd_name definition \<and>
     plan_delays_by_attempt queue = retry_bucket_delays_by_attempt definition \<and>
     map delay_millis (retry_buckets queue) = retry_bucket_delays (retry_bucket_delays_by_attempt definition) \<and>
     length (retry_buckets queue) \<le> MAX_RETRY_BUCKETS_PER_QUEUE \<and>
     (\<forall>n\<in>set (physical_names queue). identity_is_valid n)"

lemma compile_queue_Ok:
  assumes "validate_definition definition = Ok ()" and "compile_queue definition = Ok queue"
  shows "compiled definition queue"
proof -
  obtain buckets where buckets: "compile_buckets definition
      (retry_bucket_delays (retry_bucket_delays_by_attempt definition)) = Ok buckets"
    and len: "length (retry_bucket_delays (retry_bucket_delays_by_attempt definition)) \<le> MAX_RETRY_BUCKETS_PER_QUEUE"
    and queue: "plan_definition queue = definition" "main_queue_name queue = qd_name definition"
      "plan_delays_by_attempt queue = retry_bucket_delays_by_attempt definition"
      "retry_buckets queue = buckets" "identity_is_valid (dead_letter_queue_name queue)"
    using assms(2) by (auto simp: compile_queue_def Let_def split: if_splits)
  note b = compile_buckets_Ok[OF buckets]
  then have "length buckets = length (retry_bucket_delays (retry_bucket_delays_by_attempt definition))"
    by (metis length_map)
  with b len queue validate_definition_bounds[OF assms(1)] show ?thesis
    by (auto simp: compiled_def physical_names_def bounded_policy_def)
qed

lemma register_physical_queues_Ok:
  "register_physical_queues queues names = Ok queues' \<Longrightarrow> distinct queues \<Longrightarrow>
   queues' = queues @ names \<and> distinct queues'"
proof (induction names arbitrary: queues)
  case (Cons name names)
  then have "name \<notin> set queues" "register_physical_queues (queues @ [name]) names = Ok queues'"
    by (auto simp: register_physical_queue_def split: if_splits)
  with Cons.IH[of "queues @ [name]"] Cons.prems(2)
  have "queues' = (queues @ [name]) @ names" "distinct queues'" by auto
  then show ?case by simp
qed simp

lemma register_exchange_Ok:
  "register_exchange ex name kind ownership = Ok ex' \<Longrightarrow>
   hm_get ex' name = Some (kind, ownership) \<and> hm_get ex \<subseteq>\<^sub>m hm_get ex'"
  by (auto simp: register_exchange_def hashmap_simps map_le_def split: option.splits if_splits prod.splits)

definition compile_inv :: "QueueDefinition list \<Rightarrow> compile_state \<Rightarrow> bool" where
  "compile_inv definitions st \<longleftrightarrow>
     list_all2 compiled definitions (compiled_queues st) \<and>
     physical_queues st = concat (map physical_names (compiled_queues st)) \<and>
     distinct (physical_queues st) \<and>
     (\<forall>q\<in>set (compiled_queues st). \<forall>(name, use)\<in>set (exchange_uses q). hm_get (exchanges st) name = Some use) \<and>
     retry_bucket_count st = sum_list (map (length \<circ> retry_buckets) (compiled_queues st)) \<and>
     retry_bucket_count st \<le> MAX_RETRY_BUCKETS_PER_TOPOLOGY"

lemma compile_step_inv:
  assumes "compile_step definition st = Ok st'" and "compile_inv ds st"
  shows "compile_inv (ds @ [definition]) st'"
proof -
  obtain queue e1 e2 e3 n1 n2 n3 where
    queue: "compiled definition queue"
    and e1: "register_exchange (exchanges st) (exchange_name queue) (exchange_kind queue) (topology_ownership queue) = Ok e1"
    and e2: "register_exchange e1 (dead_letter_exchange_name queue) Direct (topology_ownership queue) = Ok e2"
    and e3: "(if retry_buckets queue \<noteq> []
       then register_exchange e2 (retry_exchange_name queue) Direct (topology_ownership queue) else Ok e2) = Ok e3"
    and n1: "register_physical_queue (physical_queues st) (main_queue_name queue) = Ok n1"
    and n2: "register_physical_queues n1 (map bucket_queue_name (retry_buckets queue)) = Ok n2"
    and n3: "register_physical_queue n2 (dead_letter_queue_name queue) = Ok n3"
    and count: "retry_bucket_count st + length (retry_buckets queue) \<le> MAX_RETRY_BUCKETS_PER_TOPOLOGY"
    and st': "physical_queues st' = n3" "exchanges st' = e3" "compiled_queues st' = compiled_queues st @ [queue]"
      "retry_bucket_count st' = retry_bucket_count st + length (retry_buckets queue)"
    using assms(1) compile_queue_Ok[of "definition"]
    by (auto simp: compile_step_def Let_def split: if_splits)
  have "register_physical_queues (physical_queues st) (physical_names queue) = Ok n3"
  proof -
    have app: "register_physical_queues qs (xs @ ys) =
        and_then (register_physical_queues qs xs) (\<lambda>qs. register_physical_queues qs ys)" for qs xs ys
      by (induction xs arbitrary: qs) (auto simp: register_physical_queue_def)
    show ?thesis using n1 n2 n3 by (simp add: physical_names_def app)
  qed
  moreover have "distinct (physical_queues st)" using assms(2) unfolding compile_inv_def by blast
  ultimately have names: "n3 = physical_queues st @ physical_names queue \<and> distinct n3"
    by (rule register_physical_queues_Ok)
  have le: "hm_get (exchanges st) \<subseteq>\<^sub>m hm_get e3 \<and>
      (\<forall>(name, use)\<in>set (exchange_uses queue). hm_get e3 name = Some use)"
    using register_exchange_Ok[OF e1] register_exchange_Ok[OF e2] e3 register_exchange_Ok[of e2 _ _ _ e3]
    by (auto simp: exchange_uses_def map_le_def dom_def split: if_splits)
  then have "\<forall>q\<in>set (compiled_queues st'). \<forall>(name, use)\<in>set (exchange_uses q). hm_get e3 name = Some use"
    using assms(2) by (fastforce simp: compile_inv_def st' map_le_def dom_def)
  moreover have "physical_queues st' = concat (map physical_names (compiled_queues st'))"
    using names assms(2) by (simp add: st' compile_inv_def)
  moreover have "distinct (physical_queues st')" using names unfolding st' by blast
  moreover have "list_all2 compiled (ds @ [definition]) (compiled_queues st')"
    using queue assms(2) by (simp add: st' compile_inv_def list_all2_appendI)
  moreover have "retry_bucket_count st' = sum_list (map (length \<circ> retry_buckets) (compiled_queues st'))"
    using assms(2) by (simp add: st' compile_inv_def)
  ultimately show ?thesis using count unfolding compile_inv_def st' by blast
qed

lemma compile_loop_inv:
  "compile_loop definitions st = Ok st' \<Longrightarrow> compile_inv ds st \<Longrightarrow> compile_inv (ds @ definitions) st'"
proof (induction definitions arbitrary: ds st)
  case (Cons "definition" rest)
  then obtain st1 where "compile_step definition st = Ok st1" "compile_loop rest st1 = Ok st'" by auto
  with Cons.IH[of st1 "ds @ [definition]"] compile_step_inv Cons.prems(2) show ?case by simp
qed simp

lemma compile_topology_inv:
  assumes "compile_topology config = Ok plan"
  obtains st where "compile_inv (config_queues config) st" and "plan_queues plan = compiled_queues st"
proof -
  from assms obtain st where loop: "compile_loop (config_queues config)
      \<lparr>logical_queues = [], physical_queues = [], exchanges = [], compiled_queues = [],
        retry_bucket_count = 0\<rparr> = Ok st" and plan: "plan = \<lparr>plan_queues = compiled_queues st\<rparr>"
    by (auto simp: compile_topology_def)
  have "compile_inv ([] @ config_queues config) st"
    by (rule compile_loop_inv[OF loop]) (simp add: compile_inv_def)
  with plan that show ?thesis by simp
qed

lemma list_all2_member: "list_all2 P xs ys \<Longrightarrow> y \<in> set ys \<Longrightarrow> \<exists>x. P x y"
  by (induction rule: list_all2_induct) auto

text \<open>
  C19. A compiled topology covers the configured queues in order and has no collisions:
  no two of its physical queues (main, retry and dead-letter queues of all destinations) share
  a name, every name is a valid identity, an exchange is never used with two kinds or two
  owners, and the retry buckets stay within 32 per queue and 4096 in total.
\<close>

theorem compile_collision_free:
  assumes "compile_topology config = Ok plan"
  shows "map plan_definition (plan_queues plan) = config_queues config \<and>
    distinct (concat (map physical_names (plan_queues plan))) \<and>
    list_all identity_is_valid (concat (map physical_names (plan_queues plan))) \<and>
    (\<forall>q\<in>set (plan_queues plan). \<forall>q'\<in>set (plan_queues plan). \<forall>name use use'.
       (name, use) \<in> set (exchange_uses q) \<and> (name, use') \<in> set (exchange_uses q') \<longrightarrow> use = use') \<and>
    list_all (\<lambda>q. length (retry_buckets q) \<le> 32) (plan_queues plan) \<and>
    sum_list (map (length \<circ> retry_buckets) (plan_queues plan)) \<le> 4096"
proof -
  obtain st where inv: "compile_inv (config_queues config) st" and plan: "plan_queues plan = compiled_queues st"
    using compile_topology_inv[OF assms] .
  have all: "list_all2 compiled (config_queues config) (plan_queues plan)"
    using inv plan by (simp add: compile_inv_def)
  then have "map plan_definition (plan_queues plan) = config_queues config"
    by (induction rule: list_all2_induct) (auto simp: compiled_def)
  moreover have each: "\<exists>d. compiled d q" if "q \<in> set (plan_queues plan)" for q
    using list_all2_member[OF all that] .
  then have "list_all identity_is_valid (concat (map physical_names (plan_queues plan)))"
    by (fastforce simp: list_all_iff compiled_def)
  moreover have "list_all (\<lambda>q. length (retry_buckets q) \<le> 32) (plan_queues plan)"
    using each by (auto simp: list_all_iff compiled_def MAX_RETRY_BUCKETS_PER_QUEUE_def)
  moreover have "use = use'" if "q \<in> set (plan_queues plan)" "q' \<in> set (plan_queues plan)"
    "(name, use) \<in> set (exchange_uses q)" "(name, use') \<in> set (exchange_uses q')" for q q' name use use'
  proof -
    have "hm_get (exchanges st) name = Some use" "hm_get (exchanges st) name = Some use'"
      using inv that unfolding compile_inv_def plan by blast+
    then show ?thesis by simp
  qed
  ultimately show ?thesis
    using inv by (auto simp: compile_inv_def plan MAX_RETRY_BUCKETS_PER_TOPOLOGY_def)
qed

lemma compiled_delays:
  assumes "compiled d q" and "1 \<le> k" and "k \<le> retry_attempts d"
  shows "plan_retry_bucket_delays q k = Some (attempt_delays d k) \<and>
    set (attempt_delays d k) \<subseteq> delay_millis ` set (retry_buckets q)"
proof -
  have "plan_delays_by_attempt q ! (k - 1) = attempt_delays d k"
    "length (plan_delays_by_attempt q) = retry_attempts d"
    using assms by (simp_all add: compiled_def retry_bucket_delays_by_attempt_def del: upt_Suc)
  moreover have "attempt_delays d k \<in> set (retry_bucket_delays_by_attempt d)"
    using assms(2,3) by (simp add: retry_bucket_delays_by_attempt_def del: upt_Suc)
  then have "set (attempt_delays d k) \<subseteq> set (map delay_millis (retry_buckets q))"
    using assms(1) by (auto simp: compiled_def retry_bucket_delays_def)
  ultimately show ?thesis using assms(2,3) by (auto simp: plan_retry_bucket_delays_def)
qed

lemma compiled_member:
  assumes "compile_topology config = Ok plan" and "q \<in> set (plan_queues plan)"
  shows "compiled (plan_definition q) q"
proof -
  obtain st where inv: "compile_inv (config_queues config) st" and plan: "plan_queues plan = compiled_queues st"
    using compile_topology_inv[OF assms(1)] .
  then have "list_all2 compiled (config_queues config) (plan_queues plan)"
    by (simp add: compile_inv_def)
  from list_all2_member[OF this assms(2)] obtain d where "compiled d q" by blast
  then show ?thesis by (auto simp: compiled_def)
qed

text \<open>
  Retry delays of a compiled queue. Every configured attempt has between one and
  three delays; all lie between the base delay and the cap, the exponential delay
  \<open>min (base * 2\<^sup>k) cap\<close> is among them (the arithmetic never saturates), and each has a
  physical bucket. Attempt zero and attempts beyond the policy have none.
\<close>

theorem retry_delays_declared:
  assumes "compile_topology config = Ok plan" and "q \<in> set (plan_queues plan)"
  shows "\<forall>k. if 1 \<le> k \<and> k \<le> retry_attempts (plan_definition q)
    then \<exists>ds. plan_retry_bucket_delays q k = Some ds \<and> ds \<noteq> [] \<and> length ds \<le> 3 \<and>
      min (base_millis (plan_definition q) * 2 ^ min (k - 1) 31) (cap_millis (plan_definition q)) \<in> set ds \<and>
      set ds \<subseteq> {base_millis (plan_definition q)..cap_millis (plan_definition q)} \<and>
      set ds \<subseteq> delay_millis ` set (retry_buckets q)
    else plan_retry_bucket_delays q k = None"
proof -
  have comp: "compiled (plan_definition q) q" by (rule compiled_member[OF assms])
  then have pol: "bounded_policy (plan_definition q)" by (simp add: compiled_def)
  have "plan_retry_bucket_delays q k = None" if "\<not> (1 \<le> k \<and> k \<le> retry_attempts (plan_definition q))" for k
    using comp that by (auto simp: plan_retry_bucket_delays_def compiled_def retry_bucket_delays_by_attempt_def)
  with compiled_delays[OF comp] attempt_delays_range[OF pol] nominal_delay_exact[OF pol] show ?thesis
    by simp
qed

section \<open>A concrete topology\<close>

definition demo_definition :: QueueDefinition where
  "demo_definition = \<lparr>qd_name = ''q'', qd_exchange_name = ''x'', qd_routing_key = ''k'',
     qd_exchange_kind = Direct, qd_queue_type = Quorum, qd_topology_ownership = FrameworkManaged,
     concurrency = 1, prefetch_count = 10, delivery_buffer_capacity = None, retry_attempts = 2,
     retry_backoff_millis = Some 100, max_retry_backoff_millis = Some 150,
     retry_jitter_ratio = Dyadic False 1 1, delivery_execution_timeout_millis = None,
     settlement_timeout_millis = None, durable = True, max_message_size_bytes = 1024,
     retention = Some \<lparr>main_max_messages = 1, main_max_bytes = 1, retry_bucket_max_messages = 1,
       retry_bucket_max_bytes = 1, dead_letter_max_messages = 1, dead_letter_max_bytes = 1\<rparr>,
     dead_letter_exchange = None, dead_letter_routing_key = None, message_ttl_ms = None,
     exclusive = False, auto_delete = False, single_active_consumer = False, max_priority = None\<rparr>"

definition demo_config :: RabbitMqTopologyConfig where
  "demo_config = \<lparr>config_queues = [demo_definition]\<rparr>"

lemmas identity_simps = identity_is_valid_def MAX_IDENTITY_BYTES_def is_trimmed_def
  parse_config_reference_def strip_prefix_str_def

lemma demo_identities:
  "identity_is_valid ''q''" "identity_is_valid ''x''" "identity_is_valid ''k''"
  "identity_is_valid ''x.retry.v2''" "identity_is_valid ''x.dlx.v2''" "identity_is_valid ''q.dlq.v2''"
  "identity_is_valid ''q.retry.v2.100ms''" "identity_is_valid ''q.retry.v2.150ms''"
  "identity_is_valid ''q.retry.100ms''" "identity_is_valid ''q.retry.150ms''"
  by (simp_all add: identity_simps)

lemma demo_valid: "validate_definition demo_definition = Ok ()"
  by (simp add: validate_definition_def demo_definition_def demo_identities unwrap_or_def
      MAX_QUEUE_CONCURRENCY_def MAX_QUEUE_PREFETCH_def MAX_QUEUE_MESSAGE_SIZE_BYTES_def
      MAX_QUEUE_RETRY_ATTEMPTS_def validate_queue_type_def)

lemma round53_small:
  "round53 100 = 100" "round53 150 = 150"
  by (simp_all add: round53_def bit_length.simps)

lemma demo_delays:
  "retry_bucket_delays_by_attempt demo_definition = [[100, 150], [100, 150]]"
  by (simp add: retry_bucket_delays_by_attempt_def attempt_delays_def nominal_delay_def base_millis_def
      cap_millis_def unwrap_or_def demo_definition_def round53_small clamp_def push_new.simps Let_def upt_rec)

lemma demo_show: "show_nat 100 = ''100''" "show_nat 150 = ''150''"
  by (simp_all add: show_nat.simps digit_char_def)

definition demo_queue :: RabbitMqQueueTopologyPlan where
  "demo_queue = \<lparr>plan_definition = demo_definition, exchange_name = ''x'', exchange_kind = Direct,
     main_queue_name = ''q'', routing_key = ''k'', retry_exchange_name = ''x.retry.v2'',
     retry_buckets =
       [\<lparr>bucket_queue_name = ''q.retry.v2.100ms'', bucket_routing_key = ''q.retry.100ms'',
         delay_millis = 100, bucket_queue_type = Quorum\<rparr>,
        \<lparr>bucket_queue_name = ''q.retry.v2.150ms'', bucket_routing_key = ''q.retry.150ms'',
         delay_millis = 150, bucket_queue_type = Quorum\<rparr>],
     plan_delays_by_attempt = [[100, 150], [100, 150]], dead_letter_exchange_name = ''x.dlx.v2'',
     dead_letter_queue_name = ''q.dlq.v2'', plan_dead_letter_routing_key = ''q'',
     system_queue_type = Quorum, topology_ownership = FrameworkManaged\<rparr>"

lemma demo_fields:
  "qd_name demo_definition = ''q''" "qd_exchange_name demo_definition = ''x''"
  "qd_routing_key demo_definition = ''k''" "qd_exchange_kind demo_definition = Direct"
  "qd_queue_type demo_definition = Quorum" "qd_topology_ownership demo_definition = FrameworkManaged"
  "dead_letter_exchange demo_definition = None" "dead_letter_routing_key demo_definition = None"
  by (simp_all add: demo_definition_def)

lemma demo_queue_compiled: "compile_queue demo_definition = Ok demo_queue"
  by (simp add: demo_queue_def compile_queue_def demo_delays retry_bucket_delays_def demo_show demo_fields
      MAX_RETRY_BUCKETS_PER_QUEUE_def TOPOLOGY_VERSION_def demo_identities Let_def unwrap_or_def)

definition demo_plan :: RabbitMqTopologyPlan where
  "demo_plan = \<lparr>plan_queues = [demo_queue]\<rparr>"

lemma demo_compiled: "compile_topology demo_config = Ok demo_plan"
  by (simp add: compile_topology_def demo_config_def demo_plan_def compile_step_def demo_valid
      demo_queue_compiled Let_def)
    (simp add: demo_queue_def MAX_RETRY_BUCKETS_PER_TOPOLOGY_def register_exchange_def
      register_physical_queue_def)

theorem compile_collision_free_witness:
  "compile_topology demo_config = Ok demo_plan \<and>
   distinct (concat (map physical_names (plan_queues demo_plan))) \<and>
   map plan_definition (plan_queues demo_plan) = [demo_definition]"
  using compile_collision_free[OF demo_compiled] demo_compiled by (simp add: demo_config_def)

theorem retry_delays_declared_witness:
  "compile_topology demo_config = Ok demo_plan \<and> demo_queue \<in> set (plan_queues demo_plan) \<and>
   (\<exists>ds. plan_retry_bucket_delays demo_queue 2 = Some ds \<and> ds \<noteq> [] \<and>
      set ds \<subseteq> delay_millis ` set (retry_buckets demo_queue)) \<and>
   plan_retry_bucket_delays demo_queue 3 = None"
proof -
  have q: "demo_queue \<in> set (plan_queues demo_plan)" by (simp add: demo_plan_def)
  have "retry_attempts (plan_definition demo_queue) = 2"
    by (simp add: demo_queue_def demo_definition_def)
  with spec[OF retry_delays_declared[OF demo_compiled q], of 2]
    spec[OF retry_delays_declared[OF demo_compiled q], of 3] q demo_compiled
  show ?thesis by auto
qed

end
