(* ===== verification/Queue_Topology.thy ===== *)
theory Queue_Topology
  imports Topology_Plan
begin

text \<open>
  The consumer's view of the compiled topology: \<^verbatim>\<open>lily_queue/src/providers/rabbitmq/topology.rs\<close>.
  A delivery that is to be retried is routed to one of the declared retry buckets, chosen by
  an FNV-1a hash of the event id and the attempt. A \<open>Duration\<close> built from milliseconds is
  its number of milliseconds.
\<close>

unbundle bit_operations_syntax

record RetryBucket =
  rb_delay :: nat
  rb_queue :: string
  rb_routing_key :: string

record QueueTopology =
  main_exchange :: string
  main_exchange_kind :: RabbitMqExchangeKind
  main_queue :: string
  qt_routing_key :: string
  qt_queue_type :: RabbitMqQueueType
  ownership :: RabbitMqTopologyOwnership
  qt_single_active_consumer :: bool
  qt_max_priority :: "nat option"
  retry_exchange :: string
  qt_retry_buckets :: "RetryBucket list"
  delays_by_attempt :: "nat list list"
  qt_dead_letter_exchange :: string
  dead_letter_queue :: string
  qt_dead_letter_routing_key :: string

definition from_plan :: "RabbitMqQueueTopologyPlan \<Rightarrow> QueueTopology" where
  "from_plan plan =
     (let definition = plan_definition plan
      in \<lparr>main_exchange = exchange_name plan, main_exchange_kind = exchange_kind plan,
          main_queue = main_queue_name plan, qt_routing_key = routing_key plan,
          qt_queue_type = system_queue_type plan, ownership = topology_ownership plan,
          qt_single_active_consumer = single_active_consumer definition,
          qt_max_priority = max_priority definition,
          retry_exchange = retry_exchange_name plan,
          qt_retry_buckets = map (\<lambda>bucket.
            \<lparr>rb_delay = delay_millis bucket, rb_queue = bucket_queue_name bucket,
             rb_routing_key = bucket_routing_key bucket\<rparr>) (retry_buckets plan),
          delays_by_attempt = map (\<lambda>retry_attempt.
            unwrap_or [] (plan_retry_bucket_delays plan retry_attempt)) [1..<Suc (retry_attempts definition)],
          qt_dead_letter_exchange = dead_letter_exchange_name plan,
          dead_letter_queue = dead_letter_queue_name plan,
          qt_dead_letter_routing_key = plan_dead_letter_routing_key plan\<rparr>)"

definition FNV_OFFSET_BASIS :: u64 where "FNV_OFFSET_BASIS = 0xcbf29ce484222325"
definition FNV_PRIME :: u64 where "FNV_PRIME = 0x00000100000001b3"

text \<open>\<open>u32::to_be_bytes\<close>.\<close>

definition to_be_bytes :: "u32 \<Rightarrow> u64 list" where
  "to_be_bytes w = map (\<lambda>s. ucast (drop_bit s w AND 0xff)) [24, 16, 8, 0]"

definition stable_retry_bucket_hash :: "string \<Rightarrow> u32 \<Rightarrow> u64" where
  "stable_retry_bucket_hash event_id retry_attempt =
     fold (\<lambda>b hash. (hash XOR b) * FNV_PRIME)
       (map (\<lambda>c. of_nat (byte c)) event_id @ to_be_bytes retry_attempt) FNV_OFFSET_BASIS"

definition retry_bucket :: "QueueTopology \<Rightarrow> string \<Rightarrow> u32 \<Rightarrow> RetryBucket option" where
  "retry_bucket topology event_id retry_attempt =
     (if retry_attempt = 0 then None
      else
        let route_index = unat (retry_attempt - 1)
        in if \<not> route_index < length (delays_by_attempt topology) then None
           else
             let candidates = delays_by_attempt topology ! route_index
             in if candidates = [] then None
                else
                  let index = unat (stable_retry_bucket_hash event_id retry_attempt) mod length candidates
                  in find (\<lambda>bucket. rb_delay bucket = candidates ! index) (qt_retry_buckets topology))"

lemma from_plan_delays:
  assumes "compiled d plan" and "1 \<le> k" and "k \<le> retry_attempts d"
  shows "delays_by_attempt (from_plan plan) ! (k - 1) = attempt_delays d k"
  using assms compiled_delays[OF assms]
  by (simp add: from_plan_def Let_def compiled_def unwrap_or_def del: upt_Suc)

lemma from_plan_buckets:
  "qt_retry_buckets (from_plan plan) = map (\<lambda>bucket.
     \<lparr>rb_delay = delay_millis bucket, rb_queue = bucket_queue_name bucket,
      rb_routing_key = bucket_routing_key bucket\<rparr>) (retry_buckets plan)"
  by (simp add: from_plan_def Let_def)

lemma from_plan_bucket_delays:
  "rb_delay ` set (qt_retry_buckets (from_plan plan)) = delay_millis ` set (retry_buckets plan)"
  by (simp add: from_plan_buckets image_image)

lemma unat_pred: "w \<noteq> 0 \<Longrightarrow> unat (w - 1) = unat (w :: 'a::len word) - 1"
  by (simp add: unat_minus_one)

text \<open>
  C20. Retry routing is total on the configured attempts: for a queue of a compiled
  topology and any event id, every attempt from one to the configured maximum is routed to a
  bucket that the topology declares, with a delay between the base delay and the cap; attempt
  zero and attempts beyond the maximum are not routed.
\<close>

theorem retry_bucket_routed:
  assumes "compile_topology config = Ok plan" and "q \<in> set (plan_queues plan)"
  shows "if 1 \<le> unat k \<and> unat k \<le> retry_attempts (plan_definition q)
    then \<exists>bucket b. retry_bucket (from_plan q) event_id k = Some bucket \<and> b \<in> set (retry_buckets q) \<and>
      rb_queue bucket = bucket_queue_name b \<and> rb_routing_key bucket = bucket_routing_key b \<and>
      rb_delay bucket = delay_millis b \<and>
      base_millis (plan_definition q) \<le> rb_delay bucket \<and> rb_delay bucket \<le> cap_millis (plan_definition q)
    else retry_bucket (from_plan q) event_id k = None"
proof -
  let ?d = "plan_definition q"
  have comp: "compiled ?d q" by (rule compiled_member[OF assms])
  then have pol: "bounded_policy ?d" by (simp add: compiled_def)
  have len: "length (delays_by_attempt (from_plan q)) = retry_attempts ?d"
    by (simp add: from_plan_def Let_def)
  show ?thesis
  proof (cases "1 \<le> unat k \<and> unat k \<le> retry_attempts ?d")
    case False
    then have "k = 0 \<or> k \<noteq> 0 \<and> \<not> unat (k - 1) < retry_attempts ?d"
      using unat_pred[of k] by (cases "k = 0") (auto simp: unat_gt_0[symmetric])
    with False len show ?thesis by (auto simp: retry_bucket_def Let_def)
  next
    case True
    let ?c = "attempt_delays ?d (unat k)"
    let ?i = "unat (stable_retry_bucket_hash event_id k) mod length ?c"
    have k: "k \<noteq> 0" using True by auto
    have c: "delays_by_attempt (from_plan q) ! unat (k - 1) = ?c"
      using from_plan_delays[OF comp, of "unat k"] True by (simp add: unat_pred[OF k])
    have ne: "?c \<noteq> []" using attempt_delays_range[OF pol] by simp
    then have i: "?c ! ?i \<in> set ?c" by simp
    have range: "base_millis ?d \<le> ?c ! ?i" "?c ! ?i \<le> cap_millis ?d"
      using subsetD[OF conjunct2[OF conjunct2[OF conjunct2[OF attempt_delays_range[OF pol, of "unat k"]]]] i]
      by simp_all
    have "?c ! ?i \<in> rb_delay ` set (qt_retry_buckets (from_plan q))"
      unfolding from_plan_bucket_delays using compiled_delays[OF comp, of "unat k"] True i by blast
    then obtain bucket where bucket:
      "find (\<lambda>bucket. rb_delay bucket = ?c ! ?i) (qt_retry_buckets (from_plan q)) = Some bucket"
      by (cases "find (\<lambda>bucket. rb_delay bucket = ?c ! ?i) (qt_retry_buckets (from_plan q))")
        (auto simp: find_None_iff)
    have "unat (k - 1) < retry_attempts ?d" using True unat_pred[OF k] by linarith
    then have "retry_bucket (from_plan q) event_id k = Some bucket"
      using k ne c len bucket by (simp add: retry_bucket_def Let_def)
    moreover have "bucket \<in> set (qt_retry_buckets (from_plan q))" "rb_delay bucket = ?c ! ?i"
      using find_SomeD[OF bucket] by simp_all
    then obtain b where "b \<in> set (retry_buckets q)" "rb_queue bucket = bucket_queue_name b"
      "rb_routing_key bucket = bucket_routing_key b" "rb_delay bucket = delay_millis b"
      by (auto simp: from_plan_buckets)
    ultimately show ?thesis using True range \<open>rb_delay bucket = ?c ! ?i\<close> by auto
  qed
qed

theorem retry_bucket_routed_witness:
  "compile_topology demo_config = Ok demo_plan \<and>
   (\<exists>bucket b. retry_bucket (from_plan demo_queue) ''event-7'' 1 = Some bucket \<and>
      b \<in> set (retry_buckets demo_queue) \<and> rb_queue bucket = bucket_queue_name b) \<and>
   retry_bucket (from_plan demo_queue) ''event-7'' 9 = None"
proof -
  have q: "demo_queue \<in> set (plan_queues demo_plan)" by (simp add: demo_plan_def)
  have "retry_attempts (plan_definition demo_queue) = 2"
    by (simp add: demo_queue_def demo_definition_def)
  with retry_bucket_routed[OF demo_compiled q, of 1 "''event-7''"]
    retry_bucket_routed[OF demo_compiled q, of 9 "''event-7''"] demo_compiled
  show ?thesis by auto
qed

end
