(* ===== verification/Shutdown_Budget.thy ===== *)
theory Shutdown_Budget
  imports Lily_Prelude
begin

text \<open>
  The shutdown budget of the queue runtime,
  \<^verbatim>\<open>lily_queue/src/shutdown_budget.rs\<close>: the deadlines one shutdown attempt hands
  to its children, and the loop that polls an owned operation against them.

  An \<open>Instant\<close> is a number of nanoseconds that fits the seconds field of the standard
  library's clock (a signed 64-bit number of seconds), a \<open>Duration\<close> a number of
  nanoseconds whose seconds fit an unsigned 64-bit number; the operations that panic
  when they leave these ranges return \<open>None\<close>. The timer of the asynchronous runtime is
  a parameter: \<open>sleep_elapsed d t\<close> says whether a sleep until \<open>d\<close> is over when it is
  polled at \<open>t\<close>. What a pending operation sees is a list of polls: the budgets installed
  since the previous one, the clock, and the result of the owned future if it is ready.
\<close>

section \<open>Instants and durations\<close>

type_synonym Instant = int
type_synonym Duration = nat

abbreviation (input) nanos_per_sec :: nat where "nanos_per_sec \<equiv> 1000000000"

definition from_millis :: "nat \<Rightarrow> Duration" where "from_millis n = n * 1000000"
definition from_secs :: "nat \<Rightarrow> Duration" where "from_secs n = n * nanos_per_sec"

definition instant_in_range :: "int \<Rightarrow> bool" where
  "instant_in_range i \<longleftrightarrow> - (2 ^ 63) * int nanos_per_sec \<le> i \<and> i < 2 ^ 63 * int nanos_per_sec"

definition instant_checked_add :: "Instant \<Rightarrow> Duration \<Rightarrow> Instant option" where
  "instant_checked_add i d = (if instant_in_range (i + int d) then Some (i + int d) else None)"

definition instant_checked_sub :: "Instant \<Rightarrow> Duration \<Rightarrow> Instant option" where
  "instant_checked_sub i d = (if instant_in_range (i - int d) then Some (i - int d) else None)"

definition saturating_duration_since :: "Instant \<Rightarrow> Instant \<Rightarrow> Duration" where
  "saturating_duration_since a b = nat (a - b)"

definition duration_checked_mul :: "Duration \<Rightarrow> nat \<Rightarrow> Duration option" where
  "duration_checked_mul d n = (if d * n < 2 ^ 64 * nanos_per_sec then Some (d * n) else None)"

definition option_unwrap_or :: "'a option \<Rightarrow> 'a \<Rightarrow> 'a" where
  "option_unwrap_or x d = (case x of Some v \<Rightarrow> v | None \<Rightarrow> d)"

lemma option_unwrap_or_simps [simp]:
  "option_unwrap_or (Some v) d = v"
  "option_unwrap_or None d = d"
  by (simp_all add: option_unwrap_or_def)

definition DELIVERY_COOPERATIVE_CAP :: Duration where
  "DELIVERY_COOPERATIVE_CAP = from_millis 250"
definition DELIVERY_TERMINATION_CAP :: Duration where
  "DELIVERY_TERMINATION_CAP = from_secs 1"
definition CONSUMER_CHANNEL_CLOSE_RESERVE :: Duration where
  "CONSUMER_CHANNEL_CLOSE_RESERVE = from_millis 250"

named_theorems instant_defs \<open>the arithmetic of instants and durations\<close>
declare from_millis_def [instant_defs] from_secs_def [instant_defs]
  instant_in_range_def [instant_defs] instant_checked_add_def [instant_defs]
  instant_checked_sub_def [instant_defs] saturating_duration_since_def [instant_defs]
  duration_checked_mul_def [instant_defs] DELIVERY_COOPERATIVE_CAP_def [instant_defs]
  DELIVERY_TERMINATION_CAP_def [instant_defs] CONSUMER_CHANNEL_CLOSE_RESERVE_def [instant_defs]

section \<open>The budget of one delivery\<close>

record DeliveryExecutionBudget =
  budget_pipeline :: Instant
  budget_hard :: Instant
  budget_started :: Instant

definition delivery_budget_before :: "Instant \<Rightarrow> Instant \<Rightarrow> DeliveryExecutionBudget" where
  "delivery_budget_before hard now =
     (let reserve = min (saturating_duration_since hard now div 4) DELIVERY_TERMINATION_CAP
      in \<lparr>budget_pipeline = min (option_unwrap_or (instant_checked_sub hard reserve) now) hard,
          budget_hard = hard,
          budget_started = now\<rparr>)"

definition delivery_budget_cap ::
    "DeliveryExecutionBudget \<Rightarrow> Instant \<Rightarrow> DeliveryExecutionBudget" where
  "delivery_budget_cap self hard =
     (let cap = delivery_budget_before (min (budget_hard self) hard) (budget_started self)
      in cap\<lparr>budget_pipeline := min (budget_pipeline self) (budget_pipeline cap)\<rparr>)"

section \<open>The deadlines of a shutdown attempt\<close>

record QueueShutdownDeadlines =
  graceful :: Instant
  hard :: Instant

definition deadlines_before :: "Instant \<Rightarrow> Instant \<Rightarrow> QueueShutdownDeadlines" where
  "deadlines_before g h = \<lparr>graceful = min g h, hard = h\<rparr>"

definition deadlines_starting_at :: "Instant \<Rightarrow> Duration \<Rightarrow> QueueShutdownDeadlines" where
  "deadlines_starting_at started total_time =
     (let h = option_unwrap_or (instant_checked_add started total_time) started;
          reserve = min (total_time div 4) (from_secs 2)
      in deadlines_before
           (max (option_unwrap_or (instant_checked_sub h reserve) started) started) h)"

definition deadlines_cap :: "QueueShutdownDeadlines \<Rightarrow> Instant \<Rightarrow> Instant" where
  "deadlines_cap self local = min local (hard self)"

section \<open>The shared budget\<close>

text \<open>
  The state behind the mutex and the revision counter. \<open>install\<close> holds the mutex while it
  bumps the revision, and the counter is the atomic's \<open>fetch_add\<close>, which wraps.
\<close>

record QueueShutdownBudget =
  installed :: "QueueShutdownDeadlines option"
  revision :: u64

definition default_budget :: QueueShutdownBudget where
  "default_budget = \<lparr>installed = None, revision = 0\<rparr>"

definition install :: "QueueShutdownBudget \<Rightarrow> QueueShutdownDeadlines \<Rightarrow> QueueShutdownBudget" where
  "install self deadlines =
     \<lparr>installed = Some (case installed self of
          Some previous \<Rightarrow> deadlines_before
            (min (graceful previous) (graceful deadlines))
            (min (hard previous) (hard deadlines))
        | None \<Rightarrow> deadlines),
      revision = revision self + 1\<rparr>"

definition budget_cap :: "QueueShutdownBudget \<Rightarrow> Instant \<Rightarrow> Instant" where
  "budget_cap self deadline =
     (case installed self of None \<Rightarrow> deadline | Some root \<Rightarrow> deadlines_cap root deadline)"

definition forced_delivery_deadline :: "QueueShutdownBudget \<Rightarrow> Instant \<Rightarrow> Instant option" where
  "forced_delivery_deadline self requested_at =
     Option.bind
       (case installed self of
          None \<Rightarrow> Some DELIVERY_TERMINATION_CAP
        | Some root \<Rightarrow> map_option (\<lambda>d. min (d div 4) DELIVERY_TERMINATION_CAP)
            (duration_checked_mul (saturating_duration_since (hard root) requested_at) 3))
       (\<lambda>cap. map_option (budget_cap self) (instant_checked_add requested_at cap))"

definition cooperative_deadline ::
    "QueueShutdownBudget \<Rightarrow> Instant \<Rightarrow> Instant \<Rightarrow> Instant option" where
  "cooperative_deadline self requested_at owner_deadline =
     (let h = budget_cap self owner_deadline
      in map_option (\<lambda>i. min i h)
           (instant_checked_add requested_at
             (min (saturating_duration_since h requested_at div 4) DELIVERY_COOPERATIVE_CAP)))"

section \<open>Polling an operation against the budget\<close>

record 'a poll =
  installs :: "QueueShutdownDeadlines list"
  clock :: Instant
  ready :: "'a option"

text \<open>
  The two states the loop of \<open>run_until\<close> can be suspended in: about to start (before its
  first poll), and inside \<open>select!\<close>, holding the revision and the deadline it read.
\<close>

datatype run_state = Fresh | Selecting u64 Instant

datatype 'a run_result = Suspended run_state | Elapsed | Finished 'a

text \<open>One pass over the head of the loop, which also polls the new \<open>select!\<close> once.\<close>

definition run_top ::
    "(Instant \<Rightarrow> Instant \<Rightarrow> bool) \<Rightarrow> Instant \<Rightarrow> QueueShutdownBudget \<Rightarrow> 'a poll \<Rightarrow> 'a run_result" where
  "run_top sleep_elapsed local b p =
     (let deadline = budget_cap b local
      in if deadline \<le> clock p then Elapsed
         else case ready p of
           Some r \<Rightarrow> Finished r
         | None \<Rightarrow> if sleep_elapsed deadline (clock p) then Elapsed
                   else Suspended (Selecting (revision b) deadline))"

fun run_poll ::
    "(Instant \<Rightarrow> Instant \<Rightarrow> bool) \<Rightarrow> Instant \<Rightarrow> QueueShutdownBudget \<Rightarrow> run_state \<Rightarrow> 'a poll
      \<Rightarrow> 'a run_result" where
  "run_poll sleep_elapsed local b Fresh p = run_top sleep_elapsed local b p"
| "run_poll sleep_elapsed local b (Selecting seen deadline) p =
     (case ready p of
        Some r \<Rightarrow> Finished r
      | None \<Rightarrow> if sleep_elapsed deadline (clock p) then Elapsed
                else if revision b \<noteq> seen then run_top sleep_elapsed local b p
                else Suspended (Selecting seen deadline))"

fun run_polls ::
    "(Instant \<Rightarrow> Instant \<Rightarrow> bool) \<Rightarrow> Instant \<Rightarrow> QueueShutdownBudget \<Rightarrow> run_state \<Rightarrow> 'a poll list
      \<Rightarrow> QueueShutdownBudget \<times> 'a run_result" where
  "run_polls sleep_elapsed local b st [] = (b, Suspended st)"
| "run_polls sleep_elapsed local b st (p # ps) =
     (let b' = foldl install b (installs p)
      in case run_poll sleep_elapsed local b' st p of
           Suspended st' \<Rightarrow> run_polls sleep_elapsed local b' st' ps
         | result \<Rightarrow> (b', result))"

definition run_until ::
    "(Instant \<Rightarrow> Instant \<Rightarrow> bool) \<Rightarrow> Instant \<Rightarrow> QueueShutdownBudget \<Rightarrow> 'a poll list
      \<Rightarrow> QueueShutdownBudget \<times> 'a run_result" where
  "run_until sleep_elapsed local b ps = run_polls sleep_elapsed local b Fresh ps"

section \<open>A deadline that children may only shorten\<close>

text \<open>
  What every holder of a budget relies on: an update of the budget never moves a limit it
  gave out to a later time. The locale proves it once for sequences of updates.
\<close>

locale shortening =
  fixes shorten :: "'s \<Rightarrow> 'd \<Rightarrow> 's"
    and limit :: "'s \<Rightarrow> 'i::linorder"
  assumes limit_shorten: "limit (shorten s d) \<le> limit s"
begin

lemma limit_foldl: "limit (foldl shorten s ds) \<le> limit s"
proof (induction ds arbitrary: s)
  case (Cons d ds)
  show ?case
    using order.trans [OF Cons.IH limit_shorten] by simp
qed simp

lemma limit_prefix: "limit (foldl shorten s (ds @ es)) \<le> limit (foldl shorten s ds)"
  by (simp add: limit_foldl)

end

lemma min_pipeline_hard: "budget_pipeline (delivery_budget_before h t) \<le> h"
  by (simp add: delivery_budget_before_def Let_def)

interpretation delivery_hard: shortening delivery_budget_cap budget_hard
  by unfold_locales (simp add: delivery_budget_cap_def delivery_budget_before_def Let_def)

interpretation delivery_pipeline: shortening delivery_budget_cap budget_pipeline
  by unfold_locales (simp add: delivery_budget_cap_def Let_def)

lemma budget_cap_install [simp]:
  "budget_cap (install b d) i = min (budget_cap b i) (hard d)"
  by (simp add: budget_cap_def install_def deadlines_cap_def deadlines_before_def min.assoc
      split: option.splits)

interpretation root: shortening install "\<lambda>b. budget_cap b local" for local
  by unfold_locales simp

lemma budget_cap_le: "budget_cap b i \<le> i"
  by (simp add: budget_cap_def deadlines_cap_def split: option.splits)

lemma revision_foldl_install:
  "revision (foldl install b ds) = revision b + of_nat (length ds)"
  by (induction ds arbitrary: b) (simp_all add: install_def)

lemma revision_changed_iff:
  assumes "length ds < 2 ^ 64"
  shows "revision (foldl install b ds) = revision b \<longleftrightarrow> ds = []"
proof -
  have "revision (foldl install b ds) = revision b \<longleftrightarrow> (of_nat (length ds) :: u64) = 0"
    by (simp add: revision_foldl_install)
  also have "\<dots> \<longleftrightarrow> length ds mod 2 ^ 64 = 0"
    by (simp add: word_of_nat_eq_0_iff mod_eq_0_iff_dvd)
  finally show ?thesis
    using assms by simp
qed

section \<open>What the loop promises\<close>

text \<open>
  The contract of \<open>run_until\<close> without revisions and cached deadlines: the state is the
  time \<open>c\<close> the operation is limited to, which every installed budget shortens. An
  operation gives up only once that time is reached, its result is taken at the first poll
  that has one, and it may be left waiting only while the limit, up to the granularity
  \<open>grain\<close> of the timer, is in the future.
\<close>

abbreviation shortened :: "Instant \<Rightarrow> 'a poll \<Rightarrow> Instant" where
  "shortened c p \<equiv> foldl (\<lambda>c d. min c (hard d)) c (installs p)"

inductive bounded_run ::
    "nat \<Rightarrow> bool \<Rightarrow> Instant \<Rightarrow> 'a poll list \<Rightarrow> (unit, 'a) result option \<Rightarrow> bool" for grain where
  pending: "bounded_run grain first c [] None"
| give_up: "\<lbrakk>shortened c p \<le> clock p; ready p = None \<or> first\<rbrakk>
    \<Longrightarrow> bounded_run grain first c (p # ps) (Some (Err ()))"
| finish: "\<lbrakk>ready p = Some r; first \<Longrightarrow> clock p < shortened c p\<rbrakk>
    \<Longrightarrow> bounded_run grain first c (p # ps) (Some (Ok r))"
| wait: "\<lbrakk>ready p = None; clock p < shortened c p + int grain;
     first \<Longrightarrow> clock p < shortened c p; bounded_run grain False (shortened c p) ps out\<rbrakk>
    \<Longrightarrow> bounded_run grain first c (p # ps) out"

inductive_cases bounded_run_ConsE: "bounded_run grain first c (p # ps) out"

fun outcome_of :: "'a run_result \<Rightarrow> (unit, 'a) result option" where
  "outcome_of (Suspended _) = None"
| "outcome_of Elapsed = Some (Err ())"
| "outcome_of (Finished r) = Some (Ok r)"

text \<open>The documented behaviour of the runtime's timer.\<close>

definition timer_ok :: "nat \<Rightarrow> (Instant \<Rightarrow> Instant \<Rightarrow> bool) \<Rightarrow> bool" where
  "timer_ok grain sleep_elapsed \<longleftrightarrow>
     (\<forall>d t. sleep_elapsed d t \<longrightarrow> d \<le> t) \<and> (\<forall>d t. d + int grain \<le> t \<longrightarrow> sleep_elapsed d t)"

lemma timer_okD:
  assumes "timer_ok grain se"
  shows "se d t \<Longrightarrow> d \<le> t" and "\<not> se d t \<Longrightarrow> t < d + int grain"
  using assms unfolding timer_ok_def by (blast, meson not_le)

text \<open>The state the loop is suspended in agrees with the budget it last saw.\<close>

fun run_state_ok :: "Instant \<Rightarrow> QueueShutdownBudget \<Rightarrow> run_state \<Rightarrow> bool" where
  "run_state_ok local b Fresh = True"
| "run_state_ok local b (Selecting seen deadline) =
     (seen = revision b \<and> deadline = budget_cap b local)"

lemma budget_cap_foldl:
  "budget_cap (foldl install b ds) local = foldl (\<lambda>c d. min c (hard d)) (budget_cap b local) ds"
  by (induction ds arbitrary: b) simp_all

lemma shortened_le: "foldl (\<lambda>c d. min c (hard d)) (c::Instant) ds \<le> c"
proof (induction ds arbitrary: c)
  case (Cons d ds)
  show ?case
    using order.trans [OF Cons.IH [of "min c (hard d)"] min.cobounded1] by simp
qed simp

text \<open>One poll, against the limit that holds at that poll.\<close>

lemma run_top_cases:
  assumes "timer_ok grain se"
  shows "run_top se local b p =
    (if budget_cap b local \<le> clock p then Elapsed
     else case ready p of Some r \<Rightarrow> Finished r
       | None \<Rightarrow> Suspended (Selecting (revision b) (budget_cap b local)))"
  using timer_okD(1) [OF assms, of "budget_cap b local" "clock p"]
  by (auto simp: run_top_def Let_def split: option.splits)

lemma run_poll_step:
  assumes timer: "timer_ok grain se"
    and few: "length (installs p) < 2 ^ 64"
    and st: "run_state_ok local b st"
    and b': "b' = foldl install b (installs p)"
  shows "case run_poll se local b' st p of
      Suspended st' \<Rightarrow> ready p = None \<and> clock p < budget_cap b' local + int grain
        \<and> (st = Fresh \<longrightarrow> clock p < budget_cap b' local) \<and> run_state_ok local b' st' \<and> st' \<noteq> Fresh
    | Elapsed \<Rightarrow> budget_cap b' local \<le> clock p \<and> (ready p = None \<or> st = Fresh)
    | Finished r \<Rightarrow> ready p = Some r \<and> (st = Fresh \<longrightarrow> clock p < budget_cap b' local)"
proof (cases st)
  case Fresh
  then show ?thesis
    by (auto simp: run_top_cases [OF timer] split: option.splits)
next
  case (Selecting seen deadline)
  with st have seen: "seen = revision b" and deadline: "deadline = budget_cap b local"
    by simp_all
  have shorter: "budget_cap b' local \<le> deadline"
    unfolding b' deadline by (rule root.limit_foldl)
  have same: "budget_cap b' local = deadline" if "revision b' = seen"
    using that revision_changed_iff [OF few, of b] by (simp add: seen deadline b')
  show ?thesis
    using timer_okD [OF timer, of deadline "clock p"] shorter same
    by (auto simp: Selecting run_top_cases [OF timer] split: option.splits)
qed

lemma run_polls_bounded:
  assumes "timer_ok grain se"
    and "\<forall>p\<in>set ps. length (installs p) < 2 ^ 64"
    and "run_state_ok local b st"
  shows "bounded_run grain (st = Fresh) (budget_cap b local) ps
    (outcome_of (snd (run_polls se local b st ps)))"
  using assms
proof (induction ps arbitrary: b st)
  case (Cons p ps)
  define b' where "b' = foldl install b (installs p)"
  have cap: "budget_cap b' local = shortened (budget_cap b local) p"
    by (simp add: b'_def budget_cap_foldl)
  have few: "length (installs p) < 2 ^ 64"
    using Cons.prems(2) by simp
  note step = run_poll_step [OF Cons.prems(1) few Cons.prems(3) b'_def]
  show ?case
  proof (cases "run_poll se local b' st p")
    case (Suspended st')
    then have "bounded_run grain False (budget_cap b' local) ps
        (outcome_of (snd (run_polls se local b' st' ps)))"
      using step Cons.IH [of b' st'] Cons.prems by simp
    then show ?thesis
      using step Suspended cap by (auto simp: b'_def [symmetric] Let_def intro: bounded_run.wait)
  next
    case Elapsed
    then show ?thesis
      using step cap by (auto simp: b'_def [symmetric] Let_def intro: bounded_run.give_up)
  next
    case (Finished r)
    then show ?thesis
      using step cap by (auto simp: b'_def [symmetric] Let_def intro: bounded_run.finish)
  qed
qed (simp add: bounded_run.pending)

lemma bounded_run_returns:
  assumes "bounded_run grain first c ps out" "ps \<noteq> []"
    and "foldl (\<lambda>c d. min c (hard d)) c (concat (map installs ps)) + int grain \<le> clock (last ps)"
  shows "out \<noteq> None"
  using assms
proof (induction rule: bounded_run.induct)
  case (wait p c first ps out)
  have "ps \<noteq> []"
    using wait.hyps(2) wait.prems by auto
  then show ?case
    using wait by simp
qed simp_all

lemma budget_cap_installs:
  "budget_cap (foldl install b (concat (map installs ps))) local
     = foldl (\<lambda>c d. min c (hard d)) (budget_cap b local) (concat (map installs ps))"
  by (rule budget_cap_foldl)

section \<open>Properties\<close>

text \<open>
  C21. \<open>run_until\<close>, which caches a revision and a deadline across suspensions, implements
  the contract that rereads the limit at every poll: whatever budgets are installed while
  it waits (fewer than \<open>2 ^ 64\<close> between two polls, so that the revision counter does not
  come back to the cached value), it gives up only at a poll at or after the shortest
  installed limit, it takes the owned future's result at the first poll that has one, and
  it is never left waiting at a poll that comes a timer tick after that limit.
\<close>

theorem run_until_refines_deadline:
  assumes "timer_ok grain sleep_elapsed"
    and "\<forall>p\<in>set polls. length (installs p) < 2 ^ 64"
  shows "bounded_run grain True (budget_cap b local) polls
    (outcome_of (snd (run_until sleep_elapsed local b polls)))"
  using run_polls_bounded [OF assms, of local b Fresh] by (simp add: run_until_def)

abbreviation "demo_polls \<equiv>
  [\<lparr>installs = [], clock = 0, ready = None\<rparr>,
   \<lparr>installs = [\<lparr>graceful = 3, hard = 5\<rparr>], clock = 4, ready = None\<rparr>,
   \<lparr>installs = [], clock = 6, ready = None\<rparr>] :: nat poll list"

lemma timer_ok_le: "timer_ok 0 (\<lambda>d t. d \<le> t)"
  by (simp add: timer_ok_def)

theorem run_until_refines_deadline_witness:
  "snd (run_until (\<lambda>d t. d \<le> t) 100 default_budget demo_polls) = Elapsed
   \<and> bounded_run 0 True 100 demo_polls (Some (Err ()))"
proof -
  have run: "snd (run_until (\<lambda>d t. d \<le> t) 100 default_budget demo_polls) = Elapsed"
    by (simp add: run_until_def run_top_def default_budget_def install_def budget_cap_def
        deadlines_cap_def)
  have "bounded_run 0 True (budget_cap default_budget 100) demo_polls
      (outcome_of (snd (run_until (\<lambda>d t. d \<le> t) 100 default_budget demo_polls)))"
    by (rule run_until_refines_deadline [OF timer_ok_le]) simp
  moreover have "budget_cap default_budget 100 = 100"
    by (simp add: budget_cap_def default_budget_def)
  ultimately show ?thesis
    using run by simp
qed

text \<open>
  C22. A bounded operation cannot outlive its budget: once it is polled a timer tick after
  the limit that its own deadline and all budgets installed so far give, \<open>run_until\<close> has
  returned, even if the owned future never completes.
\<close>

theorem run_until_returns:
  assumes "timer_ok grain sleep_elapsed"
    and "\<forall>p\<in>set polls. length (installs p) < 2 ^ 64"
    and "polls \<noteq> []"
    and "budget_cap (foldl install b (concat (map installs polls))) local + int grain
      \<le> clock (last polls)"
  shows "snd (run_until sleep_elapsed local b polls) \<noteq> Suspended st"
proof
  assume suspended: "snd (run_until sleep_elapsed local b polls) = Suspended st"
  have "bounded_run grain True (budget_cap b local) polls None"
    using run_polls_bounded [OF assms(1,2), of local b Fresh] suspended
    by (simp add: run_until_def)
  then show False
    using bounded_run_returns assms(3,4) by (fastforce simp: budget_cap_installs)
qed

theorem run_until_returns_witness:
  "\<nexists>st. snd (run_until (\<lambda>d t. d \<le> t) 100 default_budget demo_polls) = Suspended st"
proof -
  have "budget_cap (foldl install default_budget (concat (map installs demo_polls))) 100 + int 0
      \<le> clock (last demo_polls)"
    by (simp add: default_budget_def budget_cap_def install_def deadlines_cap_def)
  then show ?thesis
    using run_until_returns [OF timer_ok_le, of demo_polls default_budget 100] by simp
qed

lemma delivery_budget_before_pipeline:
  assumes "instant_in_range h" "instant_in_range now"
  shows "budget_pipeline (delivery_budget_before h now)
    = h - int (min (nat (h - now) div 4) DELIVERY_TERMINATION_CAP)"
proof -
  have "instant_in_range (h - int (min (nat (h - now) div 4) DELIVERY_TERMINATION_CAP))"
  proof (cases "now \<le> h")
    case True
    then have "now \<le> h - int (min (nat (h - now) div 4) DELIVERY_TERMINATION_CAP)"
      by (simp add: min_def; linarith)
    then show ?thesis
      using assms by (simp add: instant_in_range_def)
  qed (use assms in simp)
  then show ?thesis
    by (simp add: delivery_budget_before_def instant_checked_sub_def
        saturating_duration_since_def Let_def)
qed

lemma reserve_mono:
  "(h::int) \<le> h' \<Longrightarrow> h - int (min (nat (h - now) div 4) r) \<le> h' - int (min (nat (h' - now) div 4) r)"
  by (simp add: min_def; linarith)

lemma delivery_budget_cap_before:
  assumes "instant_in_range h" "instant_in_range h'" "instant_in_range now"
  shows "delivery_budget_cap (delivery_budget_before h now) h' = delivery_budget_before (min h h') now"
proof -
  have range: "instant_in_range (min h h')"
    using assms by (simp add: min_def)
  have "budget_pipeline (delivery_budget_before (min h h') now)
      \<le> budget_pipeline (delivery_budget_before h now)"
    using reserve_mono [of "min h h'" h now DELIVERY_TERMINATION_CAP]
    by (simp add: delivery_budget_before_pipeline assms range)
  moreover have "budget_hard (delivery_budget_before i now) = i"
    "budget_started (delivery_budget_before i now) = now" for i
    by (simp_all add: delivery_budget_before_def Let_def)
  ultimately show ?thesis
    by (simp add: delivery_budget_cap_def Let_def min_absorb2)
qed

text \<open>
  C23. However often a delivery's budget is capped, it is the budget that one construction
  at the delivery's start gives for the earliest of the deadlines: the caps never restart
  the clock, and the reserve kept for cooperation, unwinding and disposal is a quarter of
  the whole remaining time, at most one second, also after the last cap.
\<close>

theorem delivery_budget_caps_exact:
  assumes "instant_in_range now" "instant_in_range h" "\<forall>c\<in>set caps. instant_in_range c"
  shows "foldl delivery_budget_cap (delivery_budget_before h now) caps
      = delivery_budget_before (foldl min h caps) now
    \<and> budget_pipeline (delivery_budget_before (foldl min h caps) now)
      = foldl min h caps - int (min (nat (foldl min h caps - now) div 4) (from_secs 1))"
proof -
  have "instant_in_range (foldl min h caps)
      \<and> foldl delivery_budget_cap (delivery_budget_before h now) caps
        = delivery_budget_before (foldl min h caps) now"
    using assms(2,3)
  proof (induction caps arbitrary: h)
    case (Cons c caps)
    then have "instant_in_range (min h c)"
      by (simp add: min_def)
    then show ?case
      using Cons by (simp add: delivery_budget_cap_before assms(1))
  qed simp
  then show ?thesis
    by (simp add: delivery_budget_before_pipeline assms(1) DELIVERY_TERMINATION_CAP_def)
qed

theorem delivery_budget_caps_exact_witness:
  "budget_pipeline (foldl delivery_budget_cap (delivery_budget_before 800 0) [1000, 400]) = 300"
  using delivery_budget_caps_exact [of 0 800 "[1000, 400]"]
  by (simp add: instant_in_range_def from_secs_def)

text \<open>
  C24. The deadlines computed at a forced stop stay inside the root's budget and do not
  panic: for a request and a root deadline within the first half of the clock's range, the
  forced deadline is at most one second after the request and never after the root's hard
  deadline, and uses at most three quarters of the time the root has left; the cooperative
  deadline is at most 250 milliseconds after the request, never after the owner's capped
  deadline, and uses at most a quarter of the owner's remaining time.
\<close>

theorem shutdown_deadlines_bounded:
  assumes "0 \<le> at" "at < 2 ^ 62 * 1000000000"
    and "installed b = Some root" "hard root < 2 ^ 62 * 1000000000"
  shows "\<exists>forced cooperative.
      forced_delivery_deadline b at = Some forced
    \<and> cooperative_deadline b at owner = Some cooperative
    \<and> forced \<le> at + 1000000000 \<and> forced \<le> hard root
    \<and> (if at \<le> hard root then at \<le> forced \<and> 4 * (forced - at) \<le> 3 * (hard root - at)
       else forced = hard root)
    \<and> cooperative \<le> at + 250000000 \<and> cooperative \<le> budget_cap b owner
    \<and> (if at \<le> budget_cap b owner
       then at \<le> cooperative \<and> 4 * (cooperative - at) \<le> budget_cap b owner - at
       else cooperative = budget_cap b owner)"
proof -
  define d where "d = nat (hard root - at)"
  define f where "f = min (d * 3 div 4) 1000000000"
  define c where "c = min (nat (budget_cap b owner - at) div 4) 250000000"
  have "d * 3 < 2 ^ 64 * 1000000000"
    using assms by (simp add: d_def; linarith)
  moreover have f_range: "int f \<le> 1000000000" and c_range: "int c \<le> 250000000"
    by (simp_all add: f_def c_def)
  moreover have "instant_in_range (at + int f)" "instant_in_range (at + int c)"
    using assms(1,2) f_range c_range by (simp_all add: instant_in_range_def)
  ultimately have forced: "forced_delivery_deadline b at = Some (min (at + int f) (hard root))"
    and coop: "cooperative_deadline b at owner = Some (min (at + int c) (budget_cap b owner))"
    using assms(3)
    by (simp_all add: forced_delivery_deadline_def cooperative_deadline_def instant_defs
        budget_cap_def deadlines_cap_def d_def [symmetric] f_def c_def Let_def)
  have "4 * f \<le> 3 * d"
    unfolding f_def by linarith
  then have f: "4 * int f \<le> 3 * int d"
    by linarith
  have "4 * c \<le> nat (budget_cap b owner - at)"
    unfolding c_def by linarith
  then have c: "4 * int c \<le> int (nat (budget_cap b owner - at))"
    by linarith
  have "if at \<le> hard root then at \<le> min (at + int f) (hard root)
      \<and> 4 * (min (at + int f) (hard root) - at) \<le> 3 * (hard root - at)
      else min (at + int f) (hard root) = hard root"
    using f unfolding d_def by (auto simp: min_def)
  moreover have "if at \<le> budget_cap b owner then at \<le> min (at + int c) (budget_cap b owner)
      \<and> 4 * (min (at + int c) (budget_cap b owner) - at) \<le> budget_cap b owner - at
      else min (at + int c) (budget_cap b owner) = budget_cap b owner"
    using c by (auto simp: min_def)
  ultimately show ?thesis
    using forced coop f_range c_range by (simp add: min_le_iff_disj)
qed

theorem shutdown_deadlines_bounded_witness:
  "\<exists>forced. forced_delivery_deadline (install default_budget \<lparr>graceful = 3, hard = 400\<rparr>) 0 = Some forced
     \<and> 0 \<le> forced \<and> forced \<le> 300"
  using shutdown_deadlines_bounded
    [of 0 "install default_budget \<lparr>graceful = 3, hard = 400\<rparr>" "\<lparr>graceful = 3, hard = 400\<rparr>" 0]
  by (auto simp: install_def default_budget_def)

end
