(* ===== verification/Settlement.thy ===== *)
theory Settlement
  imports Shutdown_Budget Injection_Error
begin

text \<open>
  How the queue runtime turns the outcome of one delivery into at most one settlement of
  the original broker message: \<^verbatim>\<open>lily_queue/src/settlement.rs\<close>.

  The broker adapter (\<open>SettlementPort\<close>), the observer and the timer are parameters. An
  operation of the adapter is what the coordinator sees of its future: the time it is
  started and the polls it gets, each with the state of the cancellation token. The
  \<open>delivery\<close> record is the state the calls share: the atomic of the authority, the shutdown
  budget, and the calls made on the adapter and the observer, in order; a call on the adapter
  counts from the moment its future is created, even if it is never polled. A result \<open>None\<close>
  says that the coordinator's future did not return: it was dropped while it waited, or it
  unwound; its lease is dropped in both cases.
\<close>

section \<open>Outcomes, plans and reports\<close>

datatype FailureClass = Retryable | Permanent

datatype ExecutionOutcome =
    ExecutionSuccess
  | ExecutionFailure FailureClass string
  | RequeueDeferred string
  | FrameworkCancelled

datatype HandoffDestination = RetryDestination | DeadLetterDestination

record HandoffPlan =
  destination :: HandoffDestination
  failure_class :: FailureClass
  failure_code :: string
  current_retry_count :: u32
  next_retry_count :: u32
  delivery_attempt :: u32

definition for_failure :: "FailureClass \<Rightarrow> string \<Rightarrow> u32 \<Rightarrow> u32 \<Rightarrow> HandoffPlan" where
  "for_failure cls code current attempts =
     (let retry = (cls = Retryable \<and> current < attempts)
      in \<lparr>destination = (if retry then RetryDestination else DeadLetterDestination),
          failure_class = cls,
          failure_code = code,
          current_retry_count = current,
          next_retry_count = (if retry then saturating_add current 1 else current),
          delivery_attempt = saturating_add current 1\<rparr>)"

datatype HandoffReceipt = RetryConfirmed | DeadLetterConfirmed

fun receipt_destination :: "HandoffReceipt \<Rightarrow> HandoffDestination" where
  "receipt_destination RetryConfirmed = RetryDestination"
| "receipt_destination DeadLetterConfirmed = DeadLetterDestination"

datatype SettlementTerminal =
  AckedSuccess | AckedRetry | AckedDeadLetter | NackedRequeue | NackedDeadLetter | Unresolved

datatype SettlementOperation = Handoff | Ack | NackRequeue | NackDeadLetter

datatype SettlementFailureKind =
    AdapterError | Declined | OperationPanicked | OperationTimedOut | OperationCancelled
  | ReceiptMismatch | AuthorityConsumed

fun kind_stable_code :: "SettlementFailureKind \<Rightarrow> string" where
  "kind_stable_code AdapterError = ''QUEUE_SETTLEMENT_ADAPTER_ERROR''"
| "kind_stable_code Declined = ''QUEUE_SETTLEMENT_DECLINED''"
| "kind_stable_code OperationPanicked = ''QUEUE_SETTLEMENT_PANICKED''"
| "kind_stable_code OperationTimedOut = ''QUEUE_SETTLEMENT_TIMED_OUT''"
| "kind_stable_code OperationCancelled = ''QUEUE_SETTLEMENT_CANCELLED''"
| "kind_stable_code ReceiptMismatch = ''QUEUE_HANDOFF_RECEIPT_MISMATCH''"
| "kind_stable_code AuthorityConsumed = ''QUEUE_SETTLEMENT_AUTHORITY_CONSUMED''"

record SettlementFailure =
  failure_kind :: SettlementFailureKind
  failure_operation :: "SettlementOperation option"
  failure_source :: "MessageBrokerError option"

definition adapter_failure :: "SettlementOperation \<Rightarrow> MessageBrokerError \<Rightarrow> SettlementFailure" where
  "adapter_failure operation source =
     \<lparr>failure_kind = AdapterError, failure_operation = Some operation, failure_source = Some source\<rparr>"

definition classified :: "SettlementFailureKind \<Rightarrow> SettlementOperation option \<Rightarrow> SettlementFailure" where
  "classified kind operation =
     \<lparr>failure_kind = kind, failure_operation = operation, failure_source = None\<rparr>"

definition failure_stable_code :: "SettlementFailure \<Rightarrow> string" where
  "failure_stable_code self =
     (case failure_source self of
        None \<Rightarrow> kind_stable_code (failure_kind self)
      | Some source \<Rightarrow> broker_error_code source)"

definition display_failure :: "SettlementFailure \<Rightarrow> string" where
  "display_failure self = ''queue settlement failed ('' @ failure_stable_code self @ '')''"

datatype SettlementObserverFailure = RecordingFailed

record SettlementReport =
  terminal :: SettlementTerminal
  failure :: "SettlementFailure option"
  secondary_failure :: "SettlementFailure option"
  observer_failure :: "SettlementObserverFailure option"
  confirmed_handoff :: "HandoffReceipt option"

section \<open>The adapter, the observer and the shared state\<close>

datatype 'a completion = Completion "(MessageBrokerError, 'a) result" | Unwound

record 'a operation =
  op_started :: Instant
  op_polls :: "(bool \<times> 'a completion poll) list"

record SettlementPort =
  port_handoff :: "HandoffPlan \<Rightarrow> HandoffReceipt operation"
  port_ack :: "bool operation"
  port_nack_requeue :: "bool operation"
  port_nack_dead_letter :: "bool operation"

datatype port_call = CallHandoff HandoffPlan | CallSettle SettlementOperation

datatype notification = HandoffConfirmed HandoffReceipt | TerminalReached SettlementTerminal

datatype observation = Recorded | ObserverError | ObserverPanicked

type_synonym observer = "notification list \<Rightarrow> notification \<Rightarrow> observation"

record delivery =
  authority :: "8 word"
  delivery_budget :: QueueShutdownBudget
  port_calls :: "port_call list"
  observed :: "notification list"

section \<open>The authority and the lease\<close>

definition AUTHORITY_AVAILABLE :: "8 word" where "AUTHORITY_AVAILABLE = 0"
definition AUTHORITY_CONSUMED :: "8 word" where "AUTHORITY_CONSUMED = 1"

definition authority_claim :: "8 word \<Rightarrow> 8 word \<times> (SettlementFailure, unit) result" where
  "authority_claim state =
     (if state = AUTHORITY_AVAILABLE then (AUTHORITY_CONSUMED, Ok ())
      else (state, Err (classified AuthorityConsumed None)))"

datatype LeaseState =
  LeasePending | OriginalSettlementStarted SettlementOperation | LeaseTerminal SettlementTerminal

fun is_terminal :: "LeaseState \<Rightarrow> bool" where
  "is_terminal (LeaseTerminal _) = True"
| "is_terminal _ = False"

record SettlementLease =
  lease_state :: LeaseState
  lease_observer_failure :: "SettlementObserverFailure option"
  lease_confirmed_handoff :: "HandoffReceipt option"

definition lease_claim :: "delivery \<Rightarrow> delivery \<times> (SettlementFailure, SettlementLease) result" where
  "lease_claim w =
     (let (state, claimed) = authority_claim (authority w)
      in (w\<lparr>authority := state\<rparr>,
          and_then claimed (\<lambda>_. Ok \<lparr>lease_state = LeasePending, lease_observer_failure = None,
            lease_confirmed_handoff = None\<rparr>)))"

text \<open>
  \<open>observe_handoff\<close> and \<open>observe_terminal\<close> are the same up to the notification: the
  observer is called under \<open>catch_unwind\<close>, and anything but success is recorded once.
\<close>

definition observe ::
    "observer \<Rightarrow> notification \<Rightarrow> SettlementLease \<times> delivery \<Rightarrow> SettlementLease \<times> delivery" where
  "observe obs note lw =
     (let (l, w) = lw
      in (if obs (observed w) note = Recorded then l
          else l\<lparr>lease_observer_failure :=
            (case lease_observer_failure l of None \<Rightarrow> Some RecordingFailed | Some f \<Rightarrow> Some f)\<rparr>,
          w\<lparr>observed := observed w @ [note]\<rparr>))"

definition confirm_handoff ::
    "observer \<Rightarrow> HandoffReceipt \<Rightarrow> SettlementLease \<times> delivery \<Rightarrow> SettlementLease \<times> delivery" where
  "confirm_handoff obs receipt lw =
     observe obs (HandoffConfirmed receipt)
       ((fst lw)\<lparr>lease_confirmed_handoff := Some receipt\<rparr>, snd lw)"

definition begin_original ::
    "SettlementLease \<Rightarrow> SettlementOperation \<Rightarrow> SettlementLease \<times> (SettlementFailure, unit) result" where
  "begin_original l operation =
     (if lease_state l \<noteq> LeasePending then (l, Err (classified AuthorityConsumed (Some operation)))
      else (l\<lparr>lease_state := OriginalSettlementStarted operation\<rparr>, Ok ()))"

definition lease_finish ::
    "observer \<Rightarrow> SettlementTerminal \<Rightarrow> SettlementLease \<times> delivery \<Rightarrow> SettlementLease \<times> delivery" where
  "lease_finish obs t lw =
     (if is_terminal (lease_state (fst lw)) then lw
      else observe obs (TerminalReached t) ((fst lw)\<lparr>lease_state := LeaseTerminal t\<rparr>, snd lw))"

definition lease_drop ::
    "observer \<Rightarrow> SettlementLease \<times> delivery \<Rightarrow> delivery" where
  "lease_drop obs lw =
     (if \<not> is_terminal (lease_state (fst lw))
      then snd (observe obs (TerminalReached Unresolved)
        ((fst lw)\<lparr>lease_state := LeaseTerminal Unresolved\<rparr>, snd lw))
      else snd lw)"

definition lease_report ::
    "observer \<Rightarrow> SettlementTerminal \<Rightarrow> SettlementFailure option \<Rightarrow> SettlementFailure option
      \<Rightarrow> SettlementLease \<times> delivery \<Rightarrow> delivery \<times> SettlementReport option" where
  "lease_report obs t f secondary lw =
     (let (l, w) = lease_finish obs t lw
      in (lease_drop obs (l, w),
          Some \<lparr>terminal = t, failure = f, secondary_failure = secondary,
            observer_failure = lease_observer_failure l,
            confirmed_handoff = lease_confirmed_handoff l\<rparr>))"

section \<open>Bounded operations\<close>

fun operation_result :: "SettlementOperation \<Rightarrow> 'a completion \<Rightarrow> (SettlementFailure, 'a) result" where
  "operation_result operation (Completion (Inr value)) = Ok value"
| "operation_result operation (Completion (Inl error)) = Err (adapter_failure operation error)"
| "operation_result operation Unwound = Err (classified OperationPanicked (Some operation))"

fun bounded_polls ::
    "(Instant \<Rightarrow> Instant \<Rightarrow> bool) \<Rightarrow> SettlementOperation \<Rightarrow> Instant \<Rightarrow> QueueShutdownBudget \<Rightarrow> run_state
      \<Rightarrow> (bool \<times> 'a completion poll) list
      \<Rightarrow> QueueShutdownBudget \<times> (SettlementFailure, 'a) result option" where
  "bounded_polls sleep_elapsed operation local b st [] = (b, None)"
| "bounded_polls sleep_elapsed operation local b st ((cancelled, p) # ps) =
     (let b' = foldl install b (installs p)
      in if cancelled then (b', Some (Err (classified OperationCancelled (Some operation))))
         else case run_poll sleep_elapsed local b' st p of
           Finished completion \<Rightarrow> (b', Some (operation_result operation completion))
         | Elapsed \<Rightarrow> (b', Some (Err (classified OperationTimedOut (Some operation))))
         | Suspended st' \<Rightarrow> bounded_polls sleep_elapsed operation local b' st' ps)"

definition bounded_operation ::
    "(Instant \<Rightarrow> Instant \<Rightarrow> bool) \<Rightarrow> SettlementOperation \<Rightarrow> Duration \<Rightarrow> 'a operation
      \<Rightarrow> QueueShutdownBudget \<Rightarrow> QueueShutdownBudget \<times> (SettlementFailure, 'a) result option" where
  "bounded_operation sleep_elapsed operation timeout future b =
     (case instant_checked_add (op_started future) timeout of
        None \<Rightarrow> (b, None)
      | Some local \<Rightarrow> bounded_polls sleep_elapsed operation local b Fresh (op_polls future))"

section \<open>Materializing an outcome\<close>

type_synonym timer = "Instant \<Rightarrow> Instant \<Rightarrow> bool"

fun original_future :: "SettlementPort \<Rightarrow> SettlementOperation \<Rightarrow> bool operation option" where
  "original_future port Ack = Some (port_ack port)"
| "original_future port NackRequeue = Some (port_nack_requeue port)"
| "original_future port NackDeadLetter = Some (port_nack_dead_letter port)"
| "original_future port Handoff = None"

fun accepted_result :: "SettlementOperation \<Rightarrow> bool \<Rightarrow> (SettlementFailure, unit) result" where
  "accepted_result operation True = Ok ()"
| "accepted_result operation False = Err (classified Declined (Some operation))"

definition original_settlement ::
    "timer \<Rightarrow> SettlementPort \<Rightarrow> SettlementOperation \<Rightarrow> Duration \<Rightarrow> SettlementLease \<times> delivery
      \<Rightarrow> (SettlementLease \<times> delivery) \<times> (SettlementFailure, unit) result option" where
  "original_settlement sleep_elapsed port operation timeout lw =
     (let (l, w) = lw; (l', begun) = begin_original l operation
      in case begun of
           Inl f \<Rightarrow> ((l', w), Some (Err f))
         | Inr _ \<Rightarrow>
             (case original_future port operation of
                None \<Rightarrow> ((l', w), None)
              | Some future \<Rightarrow>
                  (let (b, accepted) =
                         bounded_operation sleep_elapsed operation timeout future (delivery_budget w)
                   in ((l', w\<lparr>delivery_budget := b, port_calls := port_calls w @ [CallSettle operation]\<rparr>),
                       map_option (\<lambda>r. and_then r (accepted_result operation)) accepted))))"

text \<open>
  \<open>original_settlement(..).await\<close> followed by the report of its result: what the
  coordinator does after every settlement of the original message.
\<close>

definition settle_and_report ::
    "timer \<Rightarrow> observer \<Rightarrow> SettlementPort \<Rightarrow> SettlementOperation \<Rightarrow> Duration
      \<Rightarrow> (SettlementLease \<times> delivery \<Rightarrow> delivery \<times> SettlementReport option)
      \<Rightarrow> (SettlementFailure \<Rightarrow> SettlementLease \<times> delivery \<Rightarrow> delivery \<times> SettlementReport option)
      \<Rightarrow> SettlementLease \<times> delivery \<Rightarrow> delivery \<times> SettlementReport option" where
  "settle_and_report sleep_elapsed obs port operation timeout on_ok on_err lw =
     (case original_settlement sleep_elapsed port operation timeout lw of
        (lw', None) \<Rightarrow> (lease_drop obs lw', None)
      | (lw', Some (Inr _)) \<Rightarrow> on_ok lw'
      | (lw', Some (Inl f)) \<Rightarrow> on_err f lw')"

definition consumed_report :: "SettlementFailure \<Rightarrow> SettlementReport" where
  "consumed_report f = \<lparr>terminal = Unresolved, failure = Some f, secondary_failure = None,
     observer_failure = None, confirmed_handoff = None\<rparr>"

fun handed_off_terminal :: "HandoffReceipt \<Rightarrow> SettlementTerminal" where
  "handed_off_terminal RetryConfirmed = AckedRetry"
| "handed_off_terminal DeadLetterConfirmed = AckedDeadLetter"

definition materialize_failure ::
    "timer \<Rightarrow> observer \<Rightarrow> SettlementPort \<Rightarrow> HandoffPlan \<Rightarrow> Duration \<Rightarrow> Duration
      \<Rightarrow> SettlementLease \<times> delivery \<Rightarrow> delivery \<times> SettlementReport option" where
  "materialize_failure sleep_elapsed obs port plan handoff_timeout settlement_timeout lw =
     (let (l, w) = lw;
          (b, handoff) = bounded_operation sleep_elapsed Handoff handoff_timeout
            (port_handoff port plan) (delivery_budget w);
          w' = w\<lparr>delivery_budget := b, port_calls := port_calls w @ [CallHandoff plan]\<rparr>
      in case handoff of
           None \<Rightarrow> (lease_drop obs (l, w'), None)
         | Some (Inr receipt) \<Rightarrow>
             if receipt_destination receipt = destination plan then
               settle_and_report sleep_elapsed obs port Ack settlement_timeout
                 (lease_report obs (handed_off_terminal receipt) None None)
                 (\<lambda>f. lease_report obs Unresolved (Some f) None)
                 (confirm_handoff obs receipt (l, w'))
             else lease_report obs Unresolved
               (Some (classified ReceiptMismatch (Some Handoff))) None (l, w')
         | Some (Inl f) \<Rightarrow>
             if failure_kind f \<in> {AdapterError, OperationPanicked, OperationTimedOut} then
               settle_and_report sleep_elapsed obs port NackRequeue settlement_timeout
                 (lease_report obs NackedRequeue (Some f) None)
                 (\<lambda>nack_failure. lease_report obs Unresolved (Some f) (Some nack_failure))
                 (l, w')
             else lease_report obs Unresolved (Some f) None (l, w'))"

definition materialize_delivery ::
    "timer \<Rightarrow> observer \<Rightarrow> SettlementPort \<Rightarrow> ExecutionOutcome \<Rightarrow> u32 \<Rightarrow> u32 \<Rightarrow> bool
      \<Rightarrow> Duration \<Rightarrow> Duration \<Rightarrow> delivery \<Rightarrow> delivery \<times> SettlementReport option" where
  "materialize_delivery sleep_elapsed obs port outcome current attempts is_cancelled
       handoff_timeout settlement_timeout w =
     (case lease_claim w of
        (w', Inl f) \<Rightarrow> (w', Some (consumed_report f))
      | (w', Inr l) \<Rightarrow>
          if outcome = FrameworkCancelled \<or> is_cancelled
          then lease_report obs Unresolved (Some (classified OperationCancelled None)) None (l, w')
          else case outcome of
            RequeueDeferred _ \<Rightarrow>
              settle_and_report sleep_elapsed obs port NackRequeue settlement_timeout
                (lease_report obs NackedRequeue None None)
                (\<lambda>f. lease_report obs Unresolved (Some f) None) (l, w')
          | ExecutionFailure cls code \<Rightarrow>
              materialize_failure sleep_elapsed obs port (for_failure cls code current attempts)
                handoff_timeout settlement_timeout (l, w')
          | _ \<Rightarrow>
              settle_and_report sleep_elapsed obs port Ack settlement_timeout
                (lease_report obs AckedSuccess None None)
                (\<lambda>f. lease_report obs Unresolved (Some f) None) (l, w'))"

definition materialize_broker_dead_letter ::
    "timer \<Rightarrow> observer \<Rightarrow> SettlementPort \<Rightarrow> bool \<Rightarrow> Duration \<Rightarrow> delivery
      \<Rightarrow> delivery \<times> SettlementReport option" where
  "materialize_broker_dead_letter sleep_elapsed obs port is_cancelled settlement_timeout w =
     (case lease_claim w of
        (w', Inl f) \<Rightarrow> (w', Some (consumed_report f))
      | (w', Inr l) \<Rightarrow>
          if is_cancelled
          then lease_report obs Unresolved (Some (classified OperationCancelled None)) None (l, w')
          else settle_and_report sleep_elapsed obs port NackDeadLetter settlement_timeout
            (lease_report obs NackedDeadLetter None None)
            (\<lambda>f. lease_report obs Unresolved (Some f) None) (l, w'))"

section \<open>What one materialization does to the shared state\<close>

text \<open>
  The successful path of a claim, and the effect of ending a lease that has not reached
  its terminal state: one notification, whatever the observer does with it.
\<close>

abbreviation fresh_lease :: SettlementLease where
  "fresh_lease \<equiv> \<lparr>lease_state = LeasePending, lease_observer_failure = None,
     lease_confirmed_handoff = None\<rparr>"

lemma lease_claim_available:
  "authority w = AUTHORITY_AVAILABLE
    \<Longrightarrow> lease_claim w = (w\<lparr>authority := AUTHORITY_CONSUMED\<rparr>, Ok fresh_lease)"
  by (simp add: lease_claim_def authority_claim_def)

lemma lease_claim_consumed:
  "authority w \<noteq> AUTHORITY_AVAILABLE
    \<Longrightarrow> lease_claim w = (w, Err (classified AuthorityConsumed None))"
  by (simp add: lease_claim_def authority_claim_def)

lemma observe_world [simp]: "snd (observe obs note (l, w)) = w\<lparr>observed := observed w @ [note]\<rparr>"
  by (simp add: observe_def)

lemma observe_lease [simp]:
  "lease_state (fst (observe obs note (l, w))) = lease_state l"
  "lease_confirmed_handoff (fst (observe obs note (l, w))) = lease_confirmed_handoff l"
  by (simp_all add: observe_def)

text \<open>
  The contract of an attempt, without lease, observer and drop glue: a verdict, or none if
  the attempt did not return, and the single terminal notification that goes with it.
\<close>

record verdict =
  v_terminal :: SettlementTerminal
  v_failure :: "SettlementFailure option"
  v_secondary :: "SettlementFailure option"
  v_confirmed :: "HandoffReceipt option"

definition verdict_of :: "SettlementReport \<Rightarrow> verdict" where
  "verdict_of r = \<lparr>v_terminal = terminal r, v_failure = failure r,
     v_secondary = secondary_failure r, v_confirmed = confirmed_handoff r\<rparr>"

definition strip :: "delivery \<times> SettlementReport option \<Rightarrow> delivery \<times> verdict option" where
  "strip = map_prod id (map_option verdict_of)"

definition conclude :: "delivery \<Rightarrow> verdict option \<Rightarrow> delivery \<times> verdict option" where
  "conclude w v = (w\<lparr>observed := observed w @ [TerminalReached
     (case v of None \<Rightarrow> Unresolved | Some r \<Rightarrow> v_terminal r)]\<rparr>, v)"

abbreviation unresolved :: "SettlementFailure \<Rightarrow> verdict" where
  "unresolved f \<equiv> \<lparr>v_terminal = Unresolved, v_failure = Some f, v_secondary = None, v_confirmed = None\<rparr>"

abbreviation resolved :: "SettlementTerminal \<Rightarrow> verdict" where
  "resolved t \<equiv> \<lparr>v_terminal = t, v_failure = None, v_secondary = None, v_confirmed = None\<rparr>"

lemma strip_report:
  assumes "\<not> is_terminal (lease_state l)"
  shows "strip (lease_report obs t f secondary (l, w)) = conclude w
    (Some \<lparr>v_terminal = t, v_failure = f, v_secondary = secondary,
       v_confirmed = lease_confirmed_handoff l\<rparr>)"
proof -
  obtain l' w' where lw': "observe obs (TerminalReached t) (l\<lparr>lease_state := LeaseTerminal t\<rparr>, w) = (l', w')"
    by fastforce
  have "w' = w\<lparr>observed := observed w @ [TerminalReached t]\<rparr>"
    "lease_state l' = LeaseTerminal t" "lease_confirmed_handoff l' = lease_confirmed_handoff l"
    using observe_world [of obs "TerminalReached t" "l\<lparr>lease_state := LeaseTerminal t\<rparr>" w]
      observe_lease [of obs "TerminalReached t" "l\<lparr>lease_state := LeaseTerminal t\<rparr>" w] lw'
    by simp_all
  then show ?thesis
    using assms by (simp add: strip_def verdict_of_def conclude_def lease_report_def
        lease_finish_def lw' lease_drop_def)
qed

lemma strip_drop:
  "\<not> is_terminal (lease_state l) \<Longrightarrow> strip (lease_drop obs (l, w), None) = conclude w None"
  by (simp add: strip_def conclude_def lease_drop_def)

text \<open>
  The result of one operation on the original message, and the state after it.
\<close>

definition settle :: "timer \<Rightarrow> SettlementPort \<Rightarrow> SettlementOperation \<Rightarrow> Duration \<Rightarrow> delivery
    \<Rightarrow> delivery \<times> (SettlementFailure, unit) result option" where
  "settle sleep_elapsed port operation timeout w =
     (let (b, r) = bounded_operation sleep_elapsed operation timeout
            (the (original_future port operation)) (delivery_budget w)
      in (w\<lparr>delivery_budget := b, port_calls := port_calls w @ [CallSettle operation]\<rparr>,
          map_option (\<lambda>r. and_then r (accepted_result operation)) r))"

lemma original_settlement_pending:
  assumes "lease_state l = LeasePending" "operation \<noteq> Handoff"
  shows "original_settlement sleep_elapsed port operation timeout (l, w) =
    ((l\<lparr>lease_state := OriginalSettlementStarted operation\<rparr>,
      fst (settle sleep_elapsed port operation timeout w)),
     snd (settle sleep_elapsed port operation timeout w))"
  using assms
  by (cases operation)
    (simp_all add: original_settlement_def begin_original_def settle_def split_beta)

definition settle_verdict :: "timer \<Rightarrow> SettlementPort \<Rightarrow> SettlementOperation \<Rightarrow> Duration
    \<Rightarrow> verdict \<Rightarrow> (SettlementFailure \<Rightarrow> verdict) \<Rightarrow> delivery \<Rightarrow> delivery \<times> verdict option" where
  "settle_verdict sleep_elapsed port operation timeout ok err w =
     (let (w', r) = settle sleep_elapsed port operation timeout w
      in conclude w' (map_option (case_sum err (\<lambda>_. ok)) r))"

lemma strip_settle_and_report:
  assumes "lease_state l = LeasePending" "operation \<noteq> Handoff"
  shows "strip (settle_and_report sleep_elapsed obs port operation timeout
      (lease_report obs t f None) (\<lambda>e. lease_report obs Unresolved (Some (g e)) (h e)) (l, w))
    = settle_verdict sleep_elapsed port operation timeout
        \<lparr>v_terminal = t, v_failure = f, v_secondary = None, v_confirmed = lease_confirmed_handoff l\<rparr>
        (\<lambda>e. \<lparr>v_terminal = Unresolved, v_failure = Some (g e), v_secondary = h e,
          v_confirmed = lease_confirmed_handoff l\<rparr>) w"
  by (simp add: settle_and_report_def original_settlement_pending [OF assms] settle_verdict_def
      strip_report strip_drop split_beta split: option.splits sum.splits)

section \<open>The contract of a materialization\<close>

definition handoff_spec :: "timer \<Rightarrow> SettlementPort \<Rightarrow> HandoffPlan \<Rightarrow> Duration \<Rightarrow> Duration \<Rightarrow> delivery
    \<Rightarrow> delivery \<times> verdict option" where
  "handoff_spec sleep_elapsed port plan handoff_timeout settlement_timeout w =
     (let (b, r) = bounded_operation sleep_elapsed Handoff handoff_timeout
            (port_handoff port plan) (delivery_budget w);
          w' = w\<lparr>delivery_budget := b, port_calls := port_calls w @ [CallHandoff plan]\<rparr>
      in case r of
           None \<Rightarrow> conclude w' None
         | Some (Inr receipt) \<Rightarrow>
             if receipt_destination receipt = destination plan then
               settle_verdict sleep_elapsed port Ack settlement_timeout
                 ((resolved (handed_off_terminal receipt))\<lparr>v_confirmed := Some receipt\<rparr>)
                 (\<lambda>f. (unresolved f)\<lparr>v_confirmed := Some receipt\<rparr>)
                 (w'\<lparr>observed := observed w' @ [HandoffConfirmed receipt]\<rparr>)
             else conclude w' (Some (unresolved (classified ReceiptMismatch (Some Handoff))))
         | Some (Inl f) \<Rightarrow>
             if failure_kind f \<in> {AdapterError, OperationPanicked, OperationTimedOut} then
               settle_verdict sleep_elapsed port NackRequeue settlement_timeout
                 ((resolved NackedRequeue)\<lparr>v_failure := Some f\<rparr>)
                 (\<lambda>nack. (unresolved f)\<lparr>v_secondary := Some nack\<rparr>) w'
             else conclude w' (Some (unresolved f)))"

definition settlement_spec ::
    "timer \<Rightarrow> SettlementPort \<Rightarrow> ExecutionOutcome \<Rightarrow> u32 \<Rightarrow> u32 \<Rightarrow> bool \<Rightarrow> Duration \<Rightarrow> Duration
      \<Rightarrow> delivery \<Rightarrow> delivery \<times> verdict option" where
  "settlement_spec sleep_elapsed port outcome current attempts is_cancelled handoff_timeout
       settlement_timeout w =
     (if authority w \<noteq> AUTHORITY_AVAILABLE
      then (w, Some (unresolved (classified AuthorityConsumed None)))
      else let w' = w\<lparr>authority := AUTHORITY_CONSUMED\<rparr> in
        if is_cancelled then conclude w' (Some (unresolved (classified OperationCancelled None)))
        else case outcome of
          FrameworkCancelled \<Rightarrow> conclude w' (Some (unresolved (classified OperationCancelled None)))
        | RequeueDeferred _ \<Rightarrow>
            settle_verdict sleep_elapsed port NackRequeue settlement_timeout
              (resolved NackedRequeue) unresolved w'
        | ExecutionSuccess \<Rightarrow>
            settle_verdict sleep_elapsed port Ack settlement_timeout (resolved AckedSuccess) unresolved w'
        | ExecutionFailure cls code \<Rightarrow>
            handoff_spec sleep_elapsed port (for_failure cls code current attempts)
              handoff_timeout settlement_timeout w')"

lemma strip_settle_simple:
  assumes "lease_state l = LeasePending" "operation \<noteq> Handoff"
  shows "strip (settle_and_report sleep_elapsed obs port operation timeout
      (lease_report obs t f None) (\<lambda>e. lease_report obs Unresolved (Some e) None) (l, w))
    = settle_verdict sleep_elapsed port operation timeout
        \<lparr>v_terminal = t, v_failure = f, v_secondary = None, v_confirmed = lease_confirmed_handoff l\<rparr>
        (\<lambda>e. \<lparr>v_terminal = Unresolved, v_failure = Some e, v_secondary = None,
          v_confirmed = lease_confirmed_handoff l\<rparr>) w"
  using strip_settle_and_report [OF assms, of sleep_elapsed obs port timeout t f "\<lambda>e. e" "\<lambda>e. None"] .

lemma strip_settle_secondary:
  assumes "lease_state l = LeasePending" "operation \<noteq> Handoff"
  shows "strip (settle_and_report sleep_elapsed obs port operation timeout
      (lease_report obs t f None) (\<lambda>e. lease_report obs Unresolved (Some f') (Some e)) (l, w))
    = settle_verdict sleep_elapsed port operation timeout
        \<lparr>v_terminal = t, v_failure = f, v_secondary = None, v_confirmed = lease_confirmed_handoff l\<rparr>
        (\<lambda>e. \<lparr>v_terminal = Unresolved, v_failure = Some f', v_secondary = Some e,
          v_confirmed = lease_confirmed_handoff l\<rparr>) w"
  using strip_settle_and_report [OF assms, of sleep_elapsed obs port timeout t f "\<lambda>e. f'" Some] .

lemma confirm_handoff_split:
  obtains l' where "confirm_handoff obs receipt (l, w) =
      (l', w\<lparr>observed := observed w @ [HandoffConfirmed receipt]\<rparr>)"
    "lease_state l' = lease_state l" "lease_confirmed_handoff l' = Some receipt"
proof -
  have "snd (confirm_handoff obs receipt (l, w)) = w\<lparr>observed := observed w @ [HandoffConfirmed receipt]\<rparr>"
    "lease_state (fst (confirm_handoff obs receipt (l, w))) = lease_state l"
    "lease_confirmed_handoff (fst (confirm_handoff obs receipt (l, w))) = Some receipt"
    by (simp_all add: confirm_handoff_def)
  then show thesis
    by (metis prod.collapse that)
qed

lemma strip_materialize_failure:
  "strip (materialize_failure sleep_elapsed obs port plan handoff_timeout settlement_timeout
      (fresh_lease, w))
    = handoff_spec sleep_elapsed port plan handoff_timeout settlement_timeout w"
proof -
  obtain b r where op: "bounded_operation sleep_elapsed Handoff handoff_timeout
      (port_handoff port plan) (delivery_budget w) = (b, r)"
    by fastforce
  define w' where "w' = w\<lparr>delivery_budget := b, port_calls := port_calls w @ [CallHandoff plan]\<rparr>"
  have confirmed: "strip (settle_and_report sleep_elapsed obs port Ack settlement_timeout
        (lease_report obs t None None) (\<lambda>f. lease_report obs Unresolved (Some f) None)
        (confirm_handoff obs receipt (fresh_lease, w')))
      = settle_verdict sleep_elapsed port Ack settlement_timeout
          ((resolved t)\<lparr>v_confirmed := Some receipt\<rparr>)
          (\<lambda>f. (unresolved f)\<lparr>v_confirmed := Some receipt\<rparr>)
          (w'\<lparr>observed := observed w' @ [HandoffConfirmed receipt]\<rparr>)" for t receipt
  proof -
    obtain l' where "confirm_handoff obs receipt (fresh_lease, w') =
        (l', w'\<lparr>observed := observed w' @ [HandoffConfirmed receipt]\<rparr>)"
      "lease_state l' = LeasePending" "lease_confirmed_handoff l' = Some receipt"
      using confirm_handoff_split [of obs receipt fresh_lease w'] by (metis SettlementLease.select_convs(1))
    then show ?thesis
      by (simp add: strip_settle_simple)
  qed
  show ?thesis
    by (simp add: materialize_failure_def handoff_spec_def op w'_def [symmetric] Let_def
        confirmed strip_settle_secondary strip_report strip_drop
        split: option.splits sum.splits)
qed

definition dead_letter_spec ::
    "timer \<Rightarrow> SettlementPort \<Rightarrow> bool \<Rightarrow> Duration \<Rightarrow> delivery \<Rightarrow> delivery \<times> verdict option" where
  "dead_letter_spec sleep_elapsed port is_cancelled settlement_timeout w =
     (if authority w \<noteq> AUTHORITY_AVAILABLE
      then (w, Some (unresolved (classified AuthorityConsumed None)))
      else let w' = w\<lparr>authority := AUTHORITY_CONSUMED\<rparr> in
        if is_cancelled then conclude w' (Some (unresolved (classified OperationCancelled None)))
        else settle_verdict sleep_elapsed port NackDeadLetter settlement_timeout
          (resolved NackedDeadLetter) unresolved w')"

lemma strip_consumed: "strip (w, Some (consumed_report f)) = (w, Some (unresolved f))"
  by (simp add: strip_def consumed_report_def verdict_of_def)

lemmas strip_simps = strip_settle_simple strip_report strip_drop strip_consumed
  strip_materialize_failure

lemma strip_materialize_delivery:
  "strip (materialize_delivery sleep_elapsed obs port outcome current attempts is_cancelled
      handoff_timeout settlement_timeout w)
    = settlement_spec sleep_elapsed port outcome current attempts is_cancelled
        handoff_timeout settlement_timeout w"
proof (cases "authority w = AUTHORITY_AVAILABLE")
  case True
  then show ?thesis
    by (cases outcome)
      (simp_all add: materialize_delivery_def settlement_spec_def lease_claim_available strip_simps Let_def)
next
  case False
  then show ?thesis
    by (simp add: materialize_delivery_def settlement_spec_def lease_claim_consumed strip_simps)
qed

lemma strip_materialize_broker_dead_letter:
  "strip (materialize_broker_dead_letter sleep_elapsed obs port is_cancelled settlement_timeout w)
    = dead_letter_spec sleep_elapsed port is_cancelled settlement_timeout w"
proof (cases "authority w = AUTHORITY_AVAILABLE")
  case True
  then show ?thesis
    by (simp add: materialize_broker_dead_letter_def dead_letter_spec_def lease_claim_available
        strip_simps Let_def)
next
  case False
  then show ?thesis
    by (simp add: materialize_broker_dead_letter_def dead_letter_spec_def lease_claim_consumed strip_simps)
qed

text \<open>
  C25. Both coordinators implement the contract without lease, observer and drop glue:
  whatever the observer does (record, fail or panic at any notification), the calls on the
  adapter, the notifications, the budget and the verdict (terminal state, failures, confirmed
  handoff) are those of the contract, in which every attempt that holds the authority ends
  with exactly one terminal notification, that of its verdict, or \<open>Unresolved\<close> if its
  future was dropped or unwound.
\<close>

theorem materialize_refines_contract:
  "strip (materialize_delivery sleep_elapsed obs port outcome current attempts is_cancelled
      handoff_timeout settlement_timeout w)
    = settlement_spec sleep_elapsed port outcome current attempts is_cancelled
        handoff_timeout settlement_timeout w
   \<and> strip (materialize_broker_dead_letter sleep_elapsed obs port is_cancelled settlement_timeout w)
    = dead_letter_spec sleep_elapsed port is_cancelled settlement_timeout w"
  by (simp add: strip_materialize_delivery strip_materialize_broker_dead_letter)

section \<open>At most one settlement\<close>

text \<open>
  The effect of an attempt on the adapter and the observer: the calls and notifications
  it adds.
\<close>

fun is_settle :: "port_call \<Rightarrow> bool" where
  "is_settle (CallSettle _) = True"
| "is_settle (CallHandoff _) = False"

fun is_terminal_note :: "notification \<Rightarrow> bool" where
  "is_terminal_note (TerminalReached _) = True"
| "is_terminal_note (HandoffConfirmed _) = False"

definition adds :: "delivery \<Rightarrow> delivery \<times> verdict option \<Rightarrow> port_call list \<Rightarrow> notification list \<Rightarrow> bool" where
  "adds w result calls notes \<longleftrightarrow> authority (fst result) = AUTHORITY_CONSUMED
     \<and> port_calls (fst result) = port_calls w @ calls
     \<and> observed (fst result) = observed w @ notes @ [TerminalReached
         (case snd result of None \<Rightarrow> Unresolved | Some v \<Rightarrow> v_terminal v)]"

lemma adds_conclude:
  "authority w' = AUTHORITY_CONSUMED \<Longrightarrow> port_calls w' = port_calls w @ calls
    \<Longrightarrow> observed w' = observed w @ notes \<Longrightarrow> adds w (conclude w' v) calls notes"
  by (simp add: adds_def conclude_def)

lemma adds_settle_verdict:
  "authority w' = AUTHORITY_CONSUMED \<Longrightarrow> port_calls w' = port_calls w @ calls
    \<Longrightarrow> observed w' = observed w @ notes
    \<Longrightarrow> adds w (settle_verdict sleep_elapsed port operation timeout ok err w')
          (calls @ [CallSettle operation]) notes"
  by (simp add: settle_verdict_def settle_def split_beta adds_conclude)

lemma snd_conclude [simp]: "snd (conclude w v) = v"
  by (simp add: conclude_def)

lemma settle_verdict_value:
  assumes "snd (settle_verdict sleep_elapsed port operation timeout ok err w) = Some v"
    and r: "r = snd (bounded_operation sleep_elapsed operation timeout
      (the (original_future port operation)) (delivery_budget w))"
  shows "v = ok \<and> r = Some (Ok True) \<or> (\<exists>f. v = err f) \<and> r \<noteq> Some (Ok True)"
proof -
  have v: "map_option (\<lambda>r. case_sum err (\<lambda>_. ok) (and_then r (accepted_result operation))) r = Some v"
    using assms(1) by (simp add: settle_verdict_def settle_def split_beta r option.map_comp comp_def)
  consider (failed) f where "r = Some (Err f)" | (answered) accepted where "r = Some (Ok accepted)"
    using v by (metis option.exhaust option.simps(8) option.distinct(1) sum.exhaust)
  then show ?thesis
  proof cases
    case (answered accepted)
    then show ?thesis
      using v by (cases accepted) auto
  qed (use v in auto)
qed

text \<open>The calls an attempt makes, with what they say about its outcome and verdict.\<close>

definition handoff_result :: "timer \<Rightarrow> SettlementPort \<Rightarrow> HandoffPlan \<Rightarrow> Duration \<Rightarrow> QueueShutdownBudget
    \<Rightarrow> (SettlementFailure, HandoffReceipt) result option" where
  "handoff_result sleep_elapsed port plan handoff_timeout b =
     snd (bounded_operation sleep_elapsed Handoff handoff_timeout (port_handoff port plan) b)"

text \<open>
  What the bounded call on the original message gave, with the budget it ran on: the budget of
  the attempt, or the one the handoff before it left.
\<close>

definition settle_result :: "timer \<Rightarrow> SettlementPort \<Rightarrow> Duration \<Rightarrow> Duration \<Rightarrow> QueueShutdownBudget
    \<Rightarrow> HandoffPlan option \<Rightarrow> SettlementOperation \<Rightarrow> (SettlementFailure, bool) result option" where
  "settle_result sleep_elapsed port handoff_timeout settlement_timeout b handed_off operation =
     snd (bounded_operation sleep_elapsed operation settlement_timeout (the (original_future port operation))
       (case handed_off of None \<Rightarrow> b
        | Some plan \<Rightarrow> fst (bounded_operation sleep_elapsed Handoff handoff_timeout (port_handoff port plan) b)))"

lemma handoff_spec_adds:
  assumes "authority w' = AUTHORITY_CONSUMED" "port_calls w' = port_calls w" "observed w' = observed w"
    and r: "r = handoff_result sleep_elapsed port plan handoff_timeout (delivery_budget w')"
    and result: "result = handoff_spec sleep_elapsed port plan handoff_timeout settlement_timeout w'"
    and settled: "settled = settle_result sleep_elapsed port handoff_timeout settlement_timeout
      (delivery_budget w') (Some plan)"
  shows "(\<exists>receipt. r = Some (Ok receipt) \<and> receipt_destination receipt = destination plan
        \<and> adds w result [CallHandoff plan, CallSettle Ack] [HandoffConfirmed receipt]
        \<and> (\<forall>v. snd result = Some v \<longrightarrow>
            v_terminal v = handed_off_terminal receipt \<and> v_failure v = None \<and> settled Ack = Some (Ok True)
            \<or> v_terminal v = Unresolved \<and> v_failure v \<noteq> None \<and> settled Ack \<noteq> Some (Ok True)))
    \<or> (\<exists>f. r = Some (Err f) \<and> adds w result [CallHandoff plan, CallSettle NackRequeue] []
        \<and> (\<forall>v. snd result = Some v \<longrightarrow> v_failure v = Some f \<and>
            (v_terminal v = NackedRequeue \<and> settled NackRequeue = Some (Ok True)
             \<or> v_terminal v = Unresolved \<and> settled NackRequeue \<noteq> Some (Ok True))))
    \<or> (adds w result [CallHandoff plan] []
        \<and> (\<forall>v. snd result = Some v \<longrightarrow> v_terminal v = Unresolved \<and> v_failure v \<noteq> None))"
proof -
  obtain b r' where op: "bounded_operation sleep_elapsed Handoff handoff_timeout
      (port_handoff port plan) (delivery_budget w') = (b, r')"
    by fastforce
  then have r': "r' = r"
    by (simp add: r handoff_result_def)
  define w'' where "w'' = w'\<lparr>delivery_budget := b, port_calls := port_calls w' @ [CallHandoff plan]\<rparr>"
  have w'': "authority w'' = AUTHORITY_CONSUMED" "port_calls w'' = port_calls w @ [CallHandoff plan]"
    "observed w'' = observed w"
    by (simp_all add: w''_def assms)
  have answer: "settled operation = snd (bounded_operation sleep_elapsed operation settlement_timeout
      (the (original_future port operation)) (delivery_budget w''))" for operation
    by (simp add: settled settle_result_def op w''_def)
  note spec = result [unfolded handoff_spec_def op r' Let_def prod.case, folded w''_def]
  consider (none) "r = None"
    | (confirmed) receipt where "r = Some (Ok receipt)" "receipt_destination receipt = destination plan"
    | (mismatch) receipt where "r = Some (Ok receipt)" "receipt_destination receipt \<noteq> destination plan"
    | (nack) f where "r = Some (Err f)" "failure_kind f \<in> {AdapterError, OperationPanicked, OperationTimedOut}"
    | (stop) f where "r = Some (Err f)" "failure_kind f \<notin> {AdapterError, OperationPanicked, OperationTimedOut}"
    by (metis option.exhaust sum.exhaust)
  then show ?thesis
  proof cases
    case none
    then show ?thesis
      using spec adds_conclude [of w'' w "[CallHandoff plan]" "[]" None] w'' by simp
  next
    case (confirmed receipt)
    then have result': "result = settle_verdict sleep_elapsed port Ack settlement_timeout
        ((resolved (handed_off_terminal receipt))\<lparr>v_confirmed := Some receipt\<rparr>)
        (\<lambda>f. (unresolved f)\<lparr>v_confirmed := Some receipt\<rparr>)
        (w''\<lparr>observed := observed w'' @ [HandoffConfirmed receipt]\<rparr>)"
      using spec by simp
    have "adds w result ([CallHandoff plan] @ [CallSettle Ack]) [HandoffConfirmed receipt]"
      unfolding result' by (rule adds_settle_verdict) (simp_all add: w'')
    moreover have "v_terminal v = handed_off_terminal receipt \<and> v_failure v = None \<and> settled Ack = Some (Ok True)
        \<or> v_terminal v = Unresolved \<and> v_failure v \<noteq> None \<and> settled Ack \<noteq> Some (Ok True)"
      if "snd result = Some v" for v
      using settle_verdict_value [OF that [unfolded result'] refl] by (auto simp: answer)
    ultimately show ?thesis
      using confirmed by simp
  next
    case (mismatch receipt)
    then show ?thesis
      using spec adds_conclude [of w'' w "[CallHandoff plan]" "[]"] w'' by simp
  next
    case (nack f)
    then have result': "result = settle_verdict sleep_elapsed port NackRequeue settlement_timeout
        ((resolved NackedRequeue)\<lparr>v_failure := Some f\<rparr>)
        (\<lambda>n. (unresolved f)\<lparr>v_secondary := Some n\<rparr>) w''"
      using spec by simp
    have "adds w result ([CallHandoff plan] @ [CallSettle NackRequeue]) []"
      unfolding result' by (rule adds_settle_verdict) (simp_all add: w'')
    moreover have "v_failure v = Some f \<and> (v_terminal v = NackedRequeue \<and> settled NackRequeue = Some (Ok True)
        \<or> v_terminal v = Unresolved \<and> settled NackRequeue \<noteq> Some (Ok True))"
      if "snd result = Some v" for v
      using settle_verdict_value [OF that [unfolded result'] refl] by (auto simp: answer)
    ultimately show ?thesis
      using nack(1) by simp
  next
    case (stop f)
    then show ?thesis
      using spec adds_conclude [of w'' w "[CallHandoff plan]" "[]"] w'' by simp
  qed
qed

text \<open>
  Any sequence of attempts to settle the same delivery, each with its own adapter state,
  observer, outcome and timeouts: the callers that race for the delivery's authority, in the
  order in which they claim it.
\<close>

datatype attempt =
    Deliver timer observer SettlementPort ExecutionOutcome u32 u32 bool Duration Duration
  | DeadLetter timer observer SettlementPort bool Duration

fun run_attempt :: "attempt \<Rightarrow> delivery \<Rightarrow> delivery \<times> SettlementReport option" where
  "run_attempt (Deliver se obs port outcome current attempts cancelled ht st) w =
     materialize_delivery se obs port outcome current attempts cancelled ht st w"
| "run_attempt (DeadLetter se obs port cancelled st) w =
     materialize_broker_dead_letter se obs port cancelled st w"

fun run_attempts :: "attempt list \<Rightarrow> delivery \<Rightarrow> delivery \<times> SettlementReport option list" where
  "run_attempts [] w = (w, [])"
| "run_attempts (a # as) w =
     (let (w', r) = run_attempt a w; (w'', rs) = run_attempts as w' in (w'', r # rs))"

definition few_calls :: "port_call list \<Rightarrow> notification list \<Rightarrow> bool" where
  "few_calls calls notes \<longleftrightarrow> length (filter is_settle calls) \<le> 1
     \<and> length (filter (\<lambda>c. \<not> is_settle c) calls) \<le> 1 \<and> filter is_terminal_note notes = []"

lemma claimed_world [simp]:
  "authority (w\<lparr>authority := a\<rparr>) = a" "port_calls (w\<lparr>authority := a\<rparr>) = port_calls w"
  "observed (w\<lparr>authority := a\<rparr>) = observed w" "delivery_budget (w\<lparr>authority := a\<rparr>) = delivery_budget w"
  by simp_all

lemma adds_claimed_conclude:
  "adds w (conclude (w\<lparr>authority := AUTHORITY_CONSUMED\<rparr>) v) [] []"
  by (rule adds_conclude) simp_all

lemma adds_claimed_settle:
  "adds w (settle_verdict se port operation timeout ok err (w\<lparr>authority := AUTHORITY_CONSUMED\<rparr>))
     [CallSettle operation] []"
  using adds_settle_verdict [of "w\<lparr>authority := AUTHORITY_CONSUMED\<rparr>" w "[]" "[]"] by simp

lemma run_attempt_adds:
  assumes "authority w = AUTHORITY_AVAILABLE"
  shows "\<exists>calls notes. adds w (strip (run_attempt a w)) calls notes \<and> few_calls calls notes"
proof (cases a)
  case (Deliver se obs port outcome current attempts cancelled ht st)
  let ?w = "w\<lparr>authority := AUTHORITY_CONSUMED\<rparr>"
  have failed: "\<exists>calls notes. adds w (handoff_spec se port plan ht st ?w) calls notes \<and> few_calls calls notes"
    for plan
    using handoff_spec_adds [of ?w w _ se port plan ht _ st _, OF claimed_world(1-3) refl refl refl]
  proof (elim disjE exE conjE)
    fix receipt
    assume "adds w (handoff_spec se port plan ht st ?w) [CallHandoff plan, CallSettle Ack] [HandoffConfirmed receipt]"
    moreover have "few_calls [CallHandoff plan, CallSettle Ack] [HandoffConfirmed receipt]"
      by (simp add: few_calls_def)
    ultimately show ?thesis
      by blast
  next
    assume "adds w (handoff_spec se port plan ht st ?w) [CallHandoff plan, CallSettle NackRequeue] []"
    moreover have "few_calls [CallHandoff plan, CallSettle NackRequeue] []"
      by (simp add: few_calls_def)
    ultimately show ?thesis
      by blast
  next
    assume "adds w (handoff_spec se port plan ht st ?w) [CallHandoff plan] []"
    moreover have "few_calls [CallHandoff plan] []"
      by (simp add: few_calls_def)
    ultimately show ?thesis
      by blast
  qed
  show ?thesis
    unfolding Deliver run_attempt.simps strip_materialize_delivery
    using assms failed adds_claimed_conclude [of w] adds_claimed_settle [of w]
    by (cases outcome) (auto simp: settlement_spec_def Let_def few_calls_def; fastforce)+
next
  case (DeadLetter se obs port cancelled st)
  show ?thesis
    unfolding DeadLetter run_attempt.simps strip_materialize_broker_dead_letter
    using assms adds_claimed_conclude [of w] adds_claimed_settle [of w]
    by (auto simp: dead_letter_spec_def Let_def few_calls_def; fastforce)
qed

lemma run_attempt_consumed:
  "authority w \<noteq> AUTHORITY_AVAILABLE
    \<Longrightarrow> run_attempt a w = (w, Some (consumed_report (classified AuthorityConsumed None)))"
  by (cases a) (simp_all add: materialize_delivery_def materialize_broker_dead_letter_def lease_claim_consumed)

lemma run_attempts_consumed:
  "authority w \<noteq> AUTHORITY_AVAILABLE
    \<Longrightarrow> run_attempts as w
      = (w, replicate (length as) (Some (consumed_report (classified AuthorityConsumed None))))"
  by (induction as) (simp_all add: run_attempt_consumed)

text \<open>
  C26. However many callers try to settle one delivery, and whatever their adapters,
  observers, outcomes, timeouts and cancellations do, the original message is settled at most
  once and handed off at most once, the observer gets exactly one terminal notification (the
  terminal state the first caller reports, or \<open>Unresolved\<close> if the first caller's future did
  not return), and every later caller gets \<open>AuthorityConsumed\<close> without a call on its adapter.
\<close>

theorem settlement_at_most_once:
  assumes "authority w = AUTHORITY_AVAILABLE"
    and "run_attempts (a # as) w = (w', first # later)"
  shows "(\<exists>calls notes. port_calls w' = port_calls w @ calls
      \<and> length (filter is_settle calls) \<le> 1
      \<and> length (filter (\<lambda>c. \<not> is_settle c) calls) \<le> 1
      \<and> observed w' = observed w @ notes
      \<and> filter is_terminal_note notes = [TerminalReached
          (case first of None \<Rightarrow> Unresolved | Some report \<Rightarrow> terminal report)])
    \<and> later = replicate (length as) (Some (consumed_report (classified AuthorityConsumed None)))"
proof -
  obtain w1 r where first: "run_attempt a w = (w1, r)"
    by fastforce
  obtain calls ns where adds: "adds w (strip (w1, r)) calls ns" and few: "few_calls calls ns"
    using run_attempt_adds [OF assms(1), of a] by (auto simp: first)
  then have "authority w1 \<noteq> AUTHORITY_AVAILABLE"
    by (simp add: adds_def strip_def AUTHORITY_CONSUMED_def AUTHORITY_AVAILABLE_def)
  then have w': "w' = w1" "first = r"
    "later = replicate (length as) (Some (consumed_report (classified AuthorityConsumed None)))"
    using assms(2) by (simp_all add: first run_attempts_consumed)
  have "port_calls w' = port_calls w @ calls"
    and "observed w' = observed w @ ns @ [TerminalReached
      (case first of None \<Rightarrow> Unresolved | Some report \<Rightarrow> terminal report)]"
    using adds by (cases r; simp add: adds_def strip_def w' verdict_of_def)+
  then show ?thesis
    using few w'(3) by (auto simp: few_calls_def)
qed

text \<open>A concrete adapter: every operation is ready at its first poll.\<close>

definition ready_now :: "'a \<Rightarrow> 'a operation" where
  "ready_now v = \<lparr>op_started = 0,
     op_polls = [(False, \<lparr>installs = [], clock = 0, ready = Some (Completion (Ok v))\<rparr>)]\<rparr>"

definition demo_port :: SettlementPort where
  "demo_port = \<lparr>port_handoff = (\<lambda>plan. ready_now
       (if destination plan = RetryDestination then RetryConfirmed else DeadLetterConfirmed)),
     port_ack = ready_now True, port_nack_requeue = ready_now True,
     port_nack_dead_letter = ready_now False\<rparr>"

definition demo_delivery :: delivery where
  "demo_delivery = \<lparr>authority = AUTHORITY_AVAILABLE, delivery_budget = default_budget,
     port_calls = [], observed = []\<rparr>"

abbreviation demo_timer :: timer where "demo_timer \<equiv> (\<lambda>d t. d \<le> t)"

lemma bounded_ready_now:
  assumes "0 < timeout" "instant_in_range (int timeout)"
  shows "bounded_operation demo_timer operation timeout (ready_now v) default_budget
    = (default_budget, Some (Ok v))"
  using assms
  by (simp add: bounded_operation_def ready_now_def instant_checked_add_def run_top_def
      budget_cap_def default_budget_def)

theorem settlement_at_most_once_witness:
  "\<exists>w' first. run_attempts
      [Deliver demo_timer (\<lambda>_ _. ObserverPanicked) demo_port (ExecutionFailure Retryable ''E'') 0 3 False 5 5,
       DeadLetter demo_timer (\<lambda>_ _. Recorded) demo_port False 5] demo_delivery
      = (w', [first, Some (consumed_report (classified AuthorityConsumed None))])
    \<and> length (filter is_settle (port_calls w')) \<le> 1"
proof -
  let ?as = "[DeadLetter demo_timer (\<lambda>_ _. Recorded) demo_port False 5]"
  let ?a = "Deliver demo_timer (\<lambda>_ _. ObserverPanicked) demo_port (ExecutionFailure Retryable ''E'') 0 3 False 5 5"
  obtain w' first later where run: "run_attempts (?a # ?as) demo_delivery = (w', first # later)"
    by (simp add: split_beta)
  have "authority demo_delivery = AUTHORITY_AVAILABLE" "port_calls demo_delivery = []"
    by (simp_all add: demo_delivery_def)
  then show ?thesis
    using settlement_at_most_once [OF _ run] run by auto
qed

lemma adds_empty: "adds w result calls ns \<Longrightarrow> port_calls w = [] \<Longrightarrow> port_calls (fst result) = calls"
  by (simp add: adds_def)

text \<open>
  What the adapter itself did: a call's future completed with a value, at a poll at which the
  cancellation token was not set. A bounded call reports a value only in that case.
\<close>

definition completed_with :: "'a operation \<Rightarrow> 'a \<Rightarrow> bool" where
  "completed_with future value \<longleftrightarrow> list_ex
     (\<lambda>(cancelled, p). \<not> cancelled \<and> (case ready p of
          Some (Completion (Inr v)) \<Rightarrow> v = value | _ \<Rightarrow> False)) (op_polls future)"

lemma run_poll_finished: "run_poll se local b st p = Finished r \<Longrightarrow> ready p = Some r"
  by (cases st) (auto simp: run_top_def Let_def split: option.splits if_splits)

lemma operation_result_ok: "operation_result operation c = Ok v \<Longrightarrow> c = Completion (Ok v)"
  by (induction operation c rule: operation_result.induct) simp_all

lemma bounded_polls_completed:
  "snd (bounded_polls se operation local b st ps) = Some (Ok v)
    \<Longrightarrow> completed_with \<lparr>op_started = t, op_polls = ps\<rparr> v"
proof (induction ps arbitrary: b st)
  case (Cons cp ps)
  obtain cancelled p where cp: "cp = (cancelled, p)"
    by fastforce
  let ?b = "foldl install b (installs p)"
  have running: "\<not> cancelled"
    using Cons.prems by (auto simp: cp Let_def)
  show ?case
  proof (cases "run_poll se local ?b st p")
    case (Suspended st')
    then show ?thesis
      using Cons running by (auto simp: cp Let_def completed_with_def)
  next
    case (Finished c)
    then have "operation_result operation c = Ok v"
      using Cons.prems running by (simp add: cp Let_def)
    then show ?thesis
      using run_poll_finished [OF Finished] running
      by (auto simp: cp completed_with_def dest: operation_result_ok)
  qed (use Cons.prems running in \<open>simp add: cp Let_def\<close>)
qed simp

lemma bounded_operation_completed:
  assumes "snd (bounded_operation se operation timeout future b) = Some (Ok v)"
  shows "completed_with future v"
proof -
  obtain local where "snd (bounded_polls se operation local b Fresh (op_polls future)) = Some (Ok v)"
    using assms by (auto simp: bounded_operation_def split: option.splits)
  from bounded_polls_completed [OF this, of "op_started future"] show ?thesis
    by (simp add: completed_with_def)
qed

lemma handoff_completed:
  "handoff_result se port plan ht b = Some (Ok receipt) \<Longrightarrow> completed_with (port_handoff port plan) receipt"
  unfolding handoff_result_def by (rule bounded_operation_completed)

lemma settle_completed:
  "settle_result se port ht st b handed_off operation = Some (Ok True)
    \<Longrightarrow> completed_with (the (original_future port operation)) True"
  unfolding settle_result_def by (rule bounded_operation_completed)

text \<open>
  The adapter accepted the settlement: the last of the calls is one on the original message,
  and it answered \<open>Ok(true)\<close> in time.
\<close>

fun settle_accepted ::
    "(HandoffPlan option \<Rightarrow> SettlementOperation \<Rightarrow> (SettlementFailure, bool) result option)
      \<Rightarrow> port_call list \<Rightarrow> bool" where
  "settle_accepted settled [CallSettle operation] \<longleftrightarrow> settled None operation = Some (Ok True)"
| "settle_accepted settled [CallHandoff plan, CallSettle operation] \<longleftrightarrow>
     settled (Some plan) operation = Some (Ok True)"
| "settle_accepted settled _ \<longleftrightarrow> False"

text \<open>
  What a terminal state says about the outcome, the calls made and the answers of the adapter.
\<close>

fun terminal_explained ::
    "SettlementPort \<Rightarrow> ExecutionOutcome \<Rightarrow> u32 \<Rightarrow> u32
      \<Rightarrow> (HandoffPlan \<Rightarrow> (SettlementFailure, HandoffReceipt) result option)
      \<Rightarrow> (HandoffPlan option \<Rightarrow> SettlementOperation \<Rightarrow> (SettlementFailure, bool) result option)
      \<Rightarrow> port_call list \<Rightarrow> SettlementTerminal \<Rightarrow> SettlementFailure option \<Rightarrow> bool" where
  "terminal_explained port outcome current attempts handoff settled calls AckedSuccess f \<longleftrightarrow>
     outcome = ExecutionSuccess \<and> calls = [CallSettle Ack] \<and> f = None
     \<and> settle_accepted settled calls \<and> completed_with (port_ack port) True"
| "terminal_explained port outcome current attempts handoff settled calls AckedRetry f \<longleftrightarrow>
     (\<exists>code plan. outcome = ExecutionFailure Retryable code \<and> current < attempts
        \<and> plan = for_failure Retryable code current attempts
        \<and> completed_with (port_handoff port plan) RetryConfirmed
        \<and> calls = [CallHandoff plan, CallSettle Ack] \<and> f = None)
     \<and> settle_accepted settled calls \<and> completed_with (port_ack port) True"
| "terminal_explained port outcome current attempts handoff settled calls AckedDeadLetter f \<longleftrightarrow>
     (\<exists>cls code plan. outcome = ExecutionFailure cls code \<and> (cls = Permanent \<or> attempts \<le> current)
        \<and> plan = for_failure cls code current attempts
        \<and> completed_with (port_handoff port plan) DeadLetterConfirmed
        \<and> calls = [CallHandoff plan, CallSettle Ack] \<and> f = None)
     \<and> settle_accepted settled calls \<and> completed_with (port_ack port) True"
| "terminal_explained port outcome current attempts handoff settled calls NackedRequeue f \<longleftrightarrow>
     ((\<exists>code. outcome = RequeueDeferred code \<and> calls = [CallSettle NackRequeue] \<and> f = None)
      \<or> (\<exists>cls code plan e. outcome = ExecutionFailure cls code
           \<and> plan = for_failure cls code current attempts
           \<and> handoff plan = Some (Err e)
           \<and> calls = [CallHandoff plan, CallSettle NackRequeue] \<and> f = Some e))
     \<and> settle_accepted settled calls \<and> completed_with (port_nack_requeue port) True"
| "terminal_explained port outcome current attempts handoff settled calls NackedDeadLetter f \<longleftrightarrow> False"
| "terminal_explained port outcome current attempts handoff settled calls Unresolved f \<longleftrightarrow>
     f \<noteq> None \<and> \<not> settle_accepted settled calls"

lemma handoff_explained:
  assumes "receipt_destination receipt = destination (for_failure cls code current attempts)"
    and "completed_with (port_handoff port (for_failure cls code current attempts)) receipt"
    and "settled (Some (for_failure cls code current attempts)) Ack = Some (Ok True)"
    and "completed_with (port_ack port) True"
  shows "terminal_explained port (ExecutionFailure cls code) current attempts handoff settled
    [CallHandoff (for_failure cls code current attempts), CallSettle Ack]
    (handed_off_terminal receipt) None"
proof (cases "cls = Retryable \<and> current < attempts")
  case True
  then have "destination (for_failure cls code current attempts) = RetryDestination"
    by (simp add: for_failure_def)
  then have "receipt = RetryConfirmed"
    using assms(1) by (cases receipt) simp_all
  then show ?thesis
    using True assms(2-4) by simp
next
  case False
  then have "destination (for_failure cls code current attempts) = DeadLetterDestination"
    by (auto simp: for_failure_def Let_def)
  then have "receipt = DeadLetterConfirmed"
    using assms(1) by (cases receipt) simp_all
  moreover have "cls = Permanent \<or> attempts \<le> current"
    using False by (cases cls) (simp_all add: not_less)
  ultimately show ?thesis
    using assms(2-4) by simp
qed

lemma settle_answered:
  assumes "snd (settle_verdict se port operation st ok err (w\<lparr>authority := a\<rparr>)) = Some v"
  shows "v = ok \<and> settle_result se port ht st (delivery_budget w) None operation = Some (Ok True)
      \<or> (\<exists>f. v = err f) \<and> settle_result se port ht st (delivery_budget w) None operation \<noteq> Some (Ok True)"
  using settle_verdict_value [OF assms refl] by (simp add: settle_result_def)

lemma failure_explained:
  assumes "authority w = AUTHORITY_CONSUMED" "port_calls w = []"
    and plan: "plan = for_failure cls code current attempts"
    and result: "result = handoff_spec se port plan ht st w"
    and handoff: "handoff = (\<lambda>plan. handoff_result se port plan ht (delivery_budget w))"
    and settled: "settled = settle_result se port ht st (delivery_budget w)"
    and v: "snd result = Some v"
  shows "terminal_explained port (ExecutionFailure cls code) current attempts handoff settled
    (port_calls (fst result)) (v_terminal v) (v_failure v)"
  using handoff_spec_adds [OF assms(1) refl refl fun_cong [OF handoff] result fun_cong [OF settled]]
proof (elim disjE exE conjE)
  fix receipt
  assume receipt: "handoff plan = Some (Ok receipt)" "receipt_destination receipt = destination plan"
    and "adds w result [CallHandoff plan, CallSettle Ack] [HandoffConfirmed receipt]"
    and cases: "\<forall>v. snd result = Some v \<longrightarrow>
      v_terminal v = handed_off_terminal receipt \<and> v_failure v = None \<and> settled (Some plan) Ack = Some (Ok True)
      \<or> v_terminal v = Unresolved \<and> v_failure v \<noteq> None \<and> settled (Some plan) Ack \<noteq> Some (Ok True)"
  then have calls: "port_calls (fst result) = [CallHandoff plan, CallSettle Ack]"
    by (auto dest!: adds_empty [OF _ assms(2)])
  have "completed_with (port_handoff port plan) receipt"
    using receipt(1) unfolding handoff by (rule handoff_completed)
  note explained = handoff_explained [OF receipt(2) [unfolded plan] this [unfolded plan], of settled handoff]
  have "completed_with (port_ack port) True" if "settled (Some plan) Ack = Some (Ok True)"
    using settle_completed [OF that [unfolded settled]] by simp
  then show ?thesis
    using cases [rule_format, OF v] explained by (auto simp: calls plan [symmetric])
next
  fix f
  assume "handoff plan = Some (Err f)" "adds w result [CallHandoff plan, CallSettle NackRequeue] []"
    "\<forall>v. snd result = Some v \<longrightarrow> v_failure v = Some f \<and>
      (v_terminal v = NackedRequeue \<and> settled (Some plan) NackRequeue = Some (Ok True)
       \<or> v_terminal v = Unresolved \<and> settled (Some plan) NackRequeue \<noteq> Some (Ok True))"
  moreover have "completed_with (port_nack_requeue port) True" if "settled (Some plan) NackRequeue = Some (Ok True)"
    using settle_completed [OF that [unfolded settled]] by simp
  ultimately show ?thesis
    using v plan by (auto dest!: adds_empty [OF _ assms(2)])
next
  assume "adds w result [CallHandoff plan] []"
    "\<forall>v. snd result = Some v \<longrightarrow> v_terminal v = Unresolved \<and> v_failure v \<noteq> None"
  then show ?thesis
    using v by (auto dest!: adds_empty [OF _ assms(2)])
qed

text \<open>When the original message is acknowledged at all, whatever comes of it.\<close>

definition ack_justified :: "SettlementPort \<Rightarrow> ExecutionOutcome \<Rightarrow> u32 \<Rightarrow> u32
    \<Rightarrow> (HandoffPlan \<Rightarrow> (SettlementFailure, HandoffReceipt) result option) \<Rightarrow> bool" where
  "ack_justified port outcome current attempts handoff \<longleftrightarrow> outcome = ExecutionSuccess
     \<or> (\<exists>cls code plan receipt. outcome = ExecutionFailure cls code
          \<and> plan = for_failure cls code current attempts
          \<and> handoff plan = Some (Ok receipt) \<and> receipt_destination receipt = destination plan
          \<and> completed_with (port_handoff port plan) receipt)"

lemma failure_ack_justified:
  assumes "authority w = AUTHORITY_CONSUMED" "port_calls w = []"
    and plan: "plan = for_failure cls code current attempts"
    and result: "result = handoff_spec se port plan ht st w"
    and handoff: "handoff = (\<lambda>plan. handoff_result se port plan ht (delivery_budget w))"
    and ack: "CallSettle Ack \<in> set (port_calls (fst result))"
  shows "ack_justified port (ExecutionFailure cls code) current attempts handoff"
proof -
  from handoff_spec_adds [OF assms(1) refl refl refl result refl]
  obtain receipt where receipt: "handoff plan = Some (Ok receipt)" "receipt_destination receipt = destination plan"
    using ack unfolding handoff by (elim disjE exE conjE) (auto dest!: adds_empty [OF _ assms(2)])
  have "completed_with (port_handoff port plan) receipt"
    using receipt(1) unfolding handoff by (rule handoff_completed)
  then show ?thesis
    using receipt plan by (auto simp: ack_justified_def)
qed

lemma settlement_spec_explained:
  assumes "authority w = AUTHORITY_AVAILABLE" "port_calls w = []"
    and result: "result = settlement_spec se port outcome current attempts is_cancelled ht st w"
    and handoff: "handoff = (\<lambda>plan. handoff_result se port plan ht (delivery_budget w))"
    and settled: "settled = settle_result se port ht st (delivery_budget w)"
  shows "(CallSettle Ack \<in> set (port_calls (fst result)) \<longrightarrow> ack_justified port outcome current attempts handoff)
    \<and> (\<forall>v. snd result = Some v \<longrightarrow> terminal_explained port outcome current attempts handoff settled
        (port_calls (fst result)) (v_terminal v) (v_failure v))"
proof (cases "is_cancelled \<or> outcome = FrameworkCancelled")
  case True
  then show ?thesis
    using assms(1) adds_empty [OF adds_claimed_conclude assms(2)]
    by (auto simp: result settlement_spec_def Let_def)
next
  case False
  let ?w = "w\<lparr>authority := AUTHORITY_CONSUMED\<rparr>"
  note calls = adds_empty [OF adds_claimed_settle assms(2)]
  note completed = settle_completed [where se = se and port = port and ht = ht and st = st and b = "delivery_budget w"
      and handed_off = None]
  show ?thesis
  proof (cases outcome)
    case ExecutionSuccess
    then have spec: "result = settle_verdict se port Ack st (resolved AckedSuccess) unresolved ?w"
      using False assms(1) by (simp add: result settlement_spec_def)
    show ?thesis
      using settle_answered [of se port Ack st "resolved AckedSuccess" unresolved AUTHORITY_CONSUMED w _ ht]
        completed [of Ack]
      by (auto simp: spec calls ExecutionSuccess ack_justified_def settled)
  next
    case (RequeueDeferred code)
    then have spec: "result = settle_verdict se port NackRequeue st (resolved NackedRequeue) unresolved ?w"
      using False assms(1) by (simp add: result settlement_spec_def)
    show ?thesis
      using settle_answered [of se port NackRequeue st "resolved NackedRequeue" unresolved AUTHORITY_CONSUMED w _ ht]
        completed [of NackRequeue]
      by (auto simp: spec calls RequeueDeferred settled)
  next
    case (ExecutionFailure cls code)
    then have spec: "result = handoff_spec se port (for_failure cls code current attempts) ht st ?w"
      using False assms(1) by (simp add: result settlement_spec_def Let_def)
    have claimed: "authority ?w = AUTHORITY_CONSUMED" "port_calls ?w = []"
      by (simp_all add: assms(2))
    show ?thesis
      using failure_explained [OF claimed refl spec] failure_ack_justified [OF claimed refl spec]
      by (simp add: ExecutionFailure handoff settled)
  qed (use False in simp)
qed

text \<open>
  C27. No message is lost: the original message is acknowledged only if the handler
  succeeded, or after the adapter's handoff of the failed message completed with a receipt for
  the very destination the retry policy chose. A report's terminal state is the truth about
  what the adapter did: success is one acknowledgement, a retry or dead-letter acknowledgement
  follows that handoff (a retry only for a retryable failure with retries left), a requeue is
  a negative acknowledgement that follows a failed handoff or a deferral, and in each of these
  states the adapter's settlement of the original message completed with \<open>Ok(true)\<close> within its
  time. In every other case (no settlement was tried, or it was declined, failed, panicked,
  timed out or was cancelled) the delivery is reported as unresolved, with the failure that
  explains it.
\<close>

theorem acknowledged_only_when_safe:
  assumes "authority w = AUTHORITY_AVAILABLE" "port_calls w = []"
    and "materialize_delivery sleep_elapsed obs port outcome current attempts is_cancelled
      handoff_timeout settlement_timeout w = (w', r)"
    and "handoff = (\<lambda>plan. handoff_result sleep_elapsed port plan handoff_timeout (delivery_budget w))"
    and "settled = settle_result sleep_elapsed port handoff_timeout settlement_timeout (delivery_budget w)"
  shows "(CallSettle Ack \<in> set (port_calls w') \<longrightarrow> ack_justified port outcome current attempts handoff)
    \<and> (case r of None \<Rightarrow> True | Some report \<Rightarrow>
        terminal_explained port outcome current attempts handoff settled (port_calls w')
          (terminal report) (failure report))"
proof -
  have spec: "(w', map_option verdict_of r) = settlement_spec sleep_elapsed port outcome current attempts
      is_cancelled handoff_timeout settlement_timeout w"
    using strip_materialize_delivery [of sleep_elapsed obs port outcome current attempts is_cancelled
        handoff_timeout settlement_timeout w] by (simp add: assms(3) strip_def)
  show ?thesis
    using settlement_spec_explained [OF assms(1,2) spec assms(4,5)]
    by (cases r) (simp_all add: verdict_of_def)
qed

lemma demo_terminal:
  assumes "materialize_delivery demo_timer obs demo_port (ExecutionFailure Retryable ''E'') 0 3 False 5 5
    demo_delivery = (w', r)"
  shows "\<exists>report. r = Some report \<and> terminal report = AckedRetry"
proof -
  have "instant_in_range (int 5)"
    by (simp add: instant_in_range_def)
  then have ops: "bounded_operation demo_timer operation 5 (ready_now v) default_budget
      = (default_budget, Some (Ok v))" for operation and v :: 'a
    by (simp add: bounded_ready_now)
  have spec: "map_option v_terminal (snd (settlement_spec demo_timer demo_port
      (ExecutionFailure Retryable ''E'') 0 3 False 5 5 demo_delivery)) = Some AckedRetry"
    by (simp add: settlement_spec_def handoff_spec_def settle_verdict_def settle_def demo_port_def
        demo_delivery_def for_failure_def ops)
  have "settlement_spec demo_timer demo_port (ExecutionFailure Retryable ''E'') 0 3 False 5 5 demo_delivery
      = (w', map_option verdict_of r)"
    unfolding strip_materialize_delivery [symmetric, where obs = obs] assms by (simp add: strip_def)
  then show ?thesis
    using spec by (cases r) (simp_all add: verdict_of_def)
qed

theorem acknowledged_only_when_safe_witness:
  "\<exists>w' report. materialize_delivery demo_timer (\<lambda>_ _. ObserverError) demo_port
      (ExecutionFailure Retryable ''E'') 0 3 False 5 5 demo_delivery = (w', Some report)
    \<and> terminal report = AckedRetry
    \<and> port_calls w' = [CallHandoff (for_failure Retryable ''E'' 0 3), CallSettle Ack]"
proof -
  obtain w' r where run: "materialize_delivery demo_timer (\<lambda>_ _. ObserverError) demo_port
      (ExecutionFailure Retryable ''E'') 0 3 False 5 5 demo_delivery = (w', r)"
    by fastforce
  obtain report where report: "r = Some report" "terminal report = AckedRetry"
    using demo_terminal [OF run] by blast
  have "authority demo_delivery = AUTHORITY_AVAILABLE" "port_calls demo_delivery = []"
    by (simp_all add: demo_delivery_def)
  then have "port_calls w' = [CallHandoff (for_failure Retryable ''E'' 0 3), CallSettle Ack]"
    using acknowledged_only_when_safe [OF _ _ run refl refl] by (auto simp: report)
  then show ?thesis
    using run report by simp
qed

text \<open>The counter a message carries after \<open>n\<close> retryable failures.\<close>

primrec retry_counter :: "string \<Rightarrow> u32 \<Rightarrow> nat \<Rightarrow> u32" where
  "retry_counter code attempts 0 = 0"
| "retry_counter code attempts (Suc n) =
     next_retry_count (for_failure Retryable code (retry_counter code attempts n) attempts)"

lemma unat_retry_counter: "unat (retry_counter code attempts n) = min n (unat attempts)"
proof (induction n)
  case (Suc n)
  have "unat attempts < 2 ^ 32"
    using unsigned_less [of attempts] by simp
  then have "min (min n (unat attempts) + 1) (2 ^ 32 - 1) = Suc n" if "n < unat attempts"
    using that by simp
  then show ?case
    using Suc by (cases "n < unat attempts")
      (simp_all add: for_failure_def Let_def word_less_nat_alt unat_saturating_add)
qed simp

text \<open>
  C28. The retry counter bounds redelivery: if a message fails retryably again and again and
  each handoff carries the plan's \<open>next_retry_count\<close> to the next delivery, the \<open>n\<close>-th failure
  (counting from 0) is handed to a retry queue exactly while \<open>n < attempts\<close> and is
  dead-lettered from then on; the counter stops at the configured number of attempts without
  wrapping, and the reported delivery attempt is one more, saturating at the top of its range.
\<close>

theorem retries_are_bounded:
  "unat (retry_counter code attempts n) = min n (unat attempts)
   \<and> destination (for_failure Retryable code (retry_counter code attempts n) attempts)
       = (if n < unat attempts then RetryDestination else DeadLetterDestination)
   \<and> unat (delivery_attempt (for_failure Retryable code (retry_counter code attempts n) attempts))
       = min (min n (unat attempts) + 1) (2 ^ 32 - 1)"
  by (simp add: unat_retry_counter for_failure_def Let_def word_less_nat_alt unat_saturating_add)

end
