(* ===== verification/Delivery_Pipeline.thy ===== *)
theory Delivery_Pipeline
  imports Shutdown_Budget Injection_Error
begin

text \<open>
  The middleware pipeline of one delivery: the ledger of entered middlewares
  (\<^verbatim>\<open>lily_queue/src/delivery_lifecycle.rs\<close>), entering, guarding, unwinding and terminating
  them (\<^verbatim>\<open>lily_queue/src/pipeline.rs\<close>), the order in which one execution composes these
  (\<^verbatim>\<open>lily_queue/src/queue_service.rs\<close>, \<open>execute_scoped_inner\<close>) and the failures they carry
  (\<^verbatim>\<open>lily_error/src/application/message_broker/queue_handler_error.rs\<close>).

  Middlewares, guards and the handler are application code, so their hooks are parameters: a
  hook returns, panics, or is still pending when the execution that awaits it is dropped. The
  state records every hook that is started, in order. \<open>Unwinding\<close> is a panic of the pipeline
  itself (a failed assertion or an index out of range).
\<close>

section \<open>Handler failures\<close>

datatype QueueHandlerFailureClass = RetryableFailure | PermanentFailure

definition INVALID_RETRYABLE_CODE :: string where
  "INVALID_RETRYABLE_CODE = ''QUEUE_HANDLER_RETRYABLE_CODE_INVALID''"
definition INVALID_PERMANENT_CODE :: string where
  "INVALID_PERMANENT_CODE = ''QUEUE_HANDLER_PERMANENT_CODE_INVALID''"
definition MAX_ERROR_CODE_BYTES :: nat where
  "MAX_ERROR_CODE_BYTES = 64"

record QueueHandlerError =
  handler_class :: QueueHandlerFailureClass
  handler_code :: string
  handler_source :: "dyn_error option"

definition is_valid_code :: "string \<Rightarrow> bool" where
  "is_valid_code code \<longleftrightarrow> code \<noteq> [] \<and> length code \<le> MAX_ERROR_CODE_BYTES
     \<and> is_ascii_alphanumeric (hd code)
     \<and> list_all (\<lambda>b. is_ascii_alphanumeric b \<or> b \<in> {CHR ''_'', CHR ''-'', CHR ''.''}) code"

definition validated_code :: "QueueHandlerFailureClass \<Rightarrow> string \<Rightarrow> string" where
  "validated_code cls code =
     (if is_valid_code code then code
      else case cls of
        RetryableFailure \<Rightarrow> INVALID_RETRYABLE_CODE
      | PermanentFailure \<Rightarrow> INVALID_PERMANENT_CODE)"

definition handler_error_new :: "QueueHandlerFailureClass \<Rightarrow> string \<Rightarrow> QueueHandlerError" where
  "handler_error_new cls code =
     \<lparr>handler_class = cls, handler_code = validated_code cls code, handler_source = None\<rparr>"

definition handler_error_with_source ::
    "QueueHandlerFailureClass \<Rightarrow> string \<Rightarrow> dyn_error \<Rightarrow> QueueHandlerError" where
  "handler_error_with_source cls code source =
     \<lparr>handler_class = cls, handler_code = validated_code cls code, handler_source = Some source\<rparr>"

definition retryable :: "string \<Rightarrow> QueueHandlerError" where
  "retryable code = handler_error_new RetryableFailure code"
definition permanent :: "string \<Rightarrow> QueueHandlerError" where
  "permanent code = handler_error_new PermanentFailure code"
definition retryable_with_source :: "string \<Rightarrow> dyn_error \<Rightarrow> QueueHandlerError" where
  "retryable_with_source code source = handler_error_with_source RetryableFailure code source"
definition permanent_with_source :: "string \<Rightarrow> dyn_error \<Rightarrow> QueueHandlerError" where
  "permanent_with_source code source = handler_error_with_source PermanentFailure code source"

section \<open>The ledger\<close>

datatype MiddlewareExitState =
  ExitNotStarted | ExitRunning | ExitCompleted | ExitFailed | ExitInterrupted | ExitPanicked

datatype TerminationState =
    TermNotStarted | TermRunning | TermCompleted | TermFailed | TermPanicked | TermTimedOut
  | TermInterrupted | TermBudgetExhausted

datatype DeliveryNormalExit = NormalNotStarted | NormalInterrupted | NormalPanicked

record MiddlewareEntry =
  normal :: MiddlewareExitState
  term_state :: TerminationState

type_synonym ledger = "MiddlewareEntry list"

definition entered :: "ledger \<Rightarrow> nat" where
  "entered l = length l"

definition record_enter :: "ledger \<Rightarrow> nat \<Rightarrow> ledger option" where
  "record_enter l index =
     (if length l = index
      then Some (l @ [\<lparr>normal = ExitNotStarted, term_state = TermNotStarted\<rparr>])
      else None)"

definition begin_exit :: "ledger \<Rightarrow> nat \<Rightarrow> ledger \<times> bool" where
  "begin_exit l index =
     (if length l \<le> index then (l, False)
      else if normal (l ! index) \<noteq> ExitNotStarted then (l, False)
      else (l[index := (l ! index)\<lparr>normal := ExitRunning\<rparr>], True))"

definition finish_exit :: "ledger \<Rightarrow> nat \<Rightarrow> bool \<Rightarrow> ledger option" where
  "finish_exit l index succeeded =
     (if length l \<le> index \<or> normal (l ! index) \<noteq> ExitRunning then None
      else Some (l[index := (l ! index)\<lparr>normal := (if succeeded then ExitCompleted else ExitFailed)\<rparr>]))"

definition interrupt_entry :: "MiddlewareEntry \<Rightarrow> MiddlewareEntry" where
  "interrupt_entry entry =
     \<lparr>normal = (if normal entry = ExitRunning then ExitInterrupted else normal entry),
      term_state = (if term_state entry = TermRunning then TermInterrupted else term_state entry)\<rparr>"

definition interrupt_exit :: "ledger \<Rightarrow> ledger" where
  "interrupt_exit l = map interrupt_entry l"

definition panicked_exit :: "ledger \<Rightarrow> nat \<Rightarrow> ledger option" where
  "panicked_exit l index =
     (if length l \<le> index then None
      else Some (l[index := (l ! index)\<lparr>normal := ExitPanicked\<rparr>]))"

definition eligible_termination :: "ledger \<Rightarrow> nat \<Rightarrow> DeliveryNormalExit option" where
  "eligible_termination l index =
     (if length l \<le> index then None
      else if term_state (l ! index) \<noteq> TermNotStarted then None
      else case normal (l ! index) of
        ExitNotStarted \<Rightarrow> Some NormalNotStarted
      | ExitInterrupted \<Rightarrow> Some NormalInterrupted
      | ExitPanicked \<Rightarrow> Some NormalPanicked
      | _ \<Rightarrow> None)"

definition termination_state :: "ledger \<Rightarrow> nat \<Rightarrow> TerminationState \<Rightarrow> ledger option" where
  "termination_state l index state =
     (if length l \<le> index then None
      else Some (l[index := (l ! index)\<lparr>term_state := state\<rparr>]))"

definition termination_failed :: "ledger \<Rightarrow> bool" where
  "termination_failed l = list_ex (\<lambda>entry. term_state entry
     \<in> {TermFailed, TermPanicked, TermTimedOut, TermInterrupted, TermBudgetExhausted}) l"

section \<open>The pipeline\<close>

datatype QueueDeliveryOutcome =
    OutcomeSucceeded
  | OutcomeFailed QueueHandlerFailureClass string
  | OutcomePanicked
  | OutcomeTimedOut
  | OutcomeCancelled

definition is_panic_code :: "string \<Rightarrow> bool" where
  "is_panic_code code \<longleftrightarrow> code \<in>
     {''QUEUE_HANDLER_PANICKED'', ''QUEUE_HANDLER_SERVICE_RESOLUTION_PANICKED'',
      ''QUEUE_MIDDLEWARE_PANICKED'', ''QUEUE_GUARD_PANICKED''}"

fun delivery_outcome :: "(QueueHandlerError, unit) result \<Rightarrow> QueueDeliveryOutcome" where
  "delivery_outcome (Inr _) = OutcomeSucceeded"
| "delivery_outcome (Inl error) =
     (if is_panic_code (handler_code error) then OutcomePanicked
      else OutcomeFailed (handler_class error) (handler_code error))"

text \<open>
  A hook as its caller sees it, and \<open>run_normal_hook\<close>: creating the future and awaiting it
  are both under \<open>catch_unwind\<close>; \<open>None\<close> is an await that does not end.
\<close>

datatype hook = HookReturns "(QueueHandlerError, unit) result" | HookPanics | HookPending

fun run_normal_hook :: "hook \<Rightarrow> (unit, (QueueHandlerError, unit) result) result option" where
  "run_normal_hook (HookReturns r) = Some (Ok r)"
| "run_normal_hook HookPanics = Some (Err ())"
| "run_normal_hook HookPending = None"

record CompiledQueueMiddleware =
  before :: hook
  after :: "QueueDeliveryOutcome \<Rightarrow> hook"

record CompiledQueuePipeline =
  middlewares :: "CompiledQueueMiddleware list"
  guards :: "hook list"

datatype pipeline_event =
    Before nat
  | Guard nat
  | Resolve
  | Handler
  | After nat QueueDeliveryOutcome
  | Terminate nat DeliveryNormalExit Instant

record pipeline_state =
  ledger :: ledger
  events :: "pipeline_event list"

datatype 'a flow = Returned 'a | Pending | Unwinding

definition emit :: "pipeline_event \<Rightarrow> pipeline_state \<Rightarrow> pipeline_state" where
  "emit e st = st\<lparr>events := events st @ [e]\<rparr>"

fun enter_from ::
    "nat \<Rightarrow> CompiledQueueMiddleware list \<Rightarrow> pipeline_state
      \<Rightarrow> pipeline_state \<times> (QueueHandlerError, unit) result flow" where
  "enter_from index [] st = (st, Returned (Ok ()))"
| "enter_from index (m # ms) st =
     (let st = emit (Before index) st
      in case run_normal_hook (before m) of
           None \<Rightarrow> (st, Pending)
         | Some (Inl _) \<Rightarrow> (st, Returned (Err (retryable ''QUEUE_MIDDLEWARE_PANICKED'')))
         | Some (Inr (Inl e)) \<Rightarrow> (st, Returned (Err e))
         | Some (Inr (Inr _)) \<Rightarrow>
             (case record_enter (ledger st) index of
                None \<Rightarrow> (st, Unwinding)
              | Some l \<Rightarrow> enter_from (Suc index) ms (st\<lparr>ledger := l\<rparr>)))"

definition enter_recorded ::
    "CompiledQueuePipeline \<Rightarrow> pipeline_state
      \<Rightarrow> pipeline_state \<times> (QueueHandlerError, unit) result flow" where
  "enter_recorded p st = enter_from 0 (middlewares p) st"

fun guards_from ::
    "nat \<Rightarrow> hook list \<Rightarrow> pipeline_state \<Rightarrow> pipeline_state \<times> (QueueHandlerError, unit) result flow" where
  "guards_from index [] st = (st, Returned (Ok ()))"
| "guards_from index (g # gs) st =
     (let st = emit (Guard index) st
      in case run_normal_hook g of
           None \<Rightarrow> (st, Pending)
         | Some (Inl _) \<Rightarrow> (st, Returned (Err (retryable ''QUEUE_GUARD_PANICKED'')))
         | Some (Inr (Inl e)) \<Rightarrow> (st, Returned (Err e))
         | Some (Inr (Inr _)) \<Rightarrow> guards_from (Suc index) gs st)"

definition evaluate_guards ::
    "CompiledQueuePipeline \<Rightarrow> pipeline_state
      \<Rightarrow> pipeline_state \<times> (QueueHandlerError, unit) result flow" where
  "evaluate_guards p st = guards_from 0 (guards p) st"

text \<open>The loop of \<open>unwind_recorded\<close>: \<open>Suc index\<close> is about to visit \<open>index\<close>.\<close>

fun unwind_from ::
    "CompiledQueuePipeline \<Rightarrow> nat \<Rightarrow> (QueueHandlerError, unit) result \<Rightarrow> pipeline_state
      \<Rightarrow> pipeline_state \<times> (QueueHandlerError, unit) result flow" where
  "unwind_from p 0 result st = (st, Returned result)"
| "unwind_from p (Suc index) result st =
     (let (l, begun) = begin_exit (ledger st) index
      in if \<not> begun then unwind_from p index result st
         else if length (middlewares p) \<le> index then (st\<lparr>ledger := l\<rparr>, Unwinding)
         else let outcome = delivery_outcome result;
                  st = emit (After index outcome) (st\<lparr>ledger := l\<rparr>)
           in case run_normal_hook (after (middlewares p ! index) outcome) of
                None \<Rightarrow> (st, Pending)
              | Some (Inl _) \<Rightarrow>
                  (case panicked_exit (ledger st) index of
                     None \<Rightarrow> (st, Unwinding)
                   | Some l \<Rightarrow> (st\<lparr>ledger := l\<rparr>, Returned (and_then result
                       (\<lambda>_. Err (retryable ''QUEUE_MIDDLEWARE_PANICKED'')))))
              | Some (Inr after_result) \<Rightarrow>
                  (case finish_exit (ledger st) index (\<not> isl after_result) of
                     None \<Rightarrow> (st, Unwinding)
                   | Some l \<Rightarrow> unwind_from p index (and_then result (\<lambda>_. after_result))
                       (st\<lparr>ledger := l\<rparr>)))"

definition unwind_recorded ::
    "CompiledQueuePipeline \<Rightarrow> (QueueHandlerError, unit) result \<Rightarrow> pipeline_state
      \<Rightarrow> pipeline_state \<times> (QueueHandlerError, unit) result flow" where
  "unwind_recorded p result st = unwind_from p (entered (ledger st)) result st"

datatype resolution = Resolved | ResolutionFailed InjectionError | ResolutionPanics | ResolutionPending

definition resolve_handler_service ::
    "resolution \<Rightarrow> pipeline_state \<Rightarrow> pipeline_state \<times> (QueueHandlerError, unit) result flow" where
  "resolve_handler_service r st =
     (let st = emit Resolve st
      in case r of
           Resolved \<Rightarrow> (st, Returned (Ok ()))
         | ResolutionFailed error \<Rightarrow> (st, Returned (Err (retryable_with_source
             ''QUEUE_HANDLER_SERVICE_RESOLUTION_FAILED'' (InjectionSource error))))
         | ResolutionPanics \<Rightarrow> (st, Returned (Err (retryable ''QUEUE_HANDLER_SERVICE_RESOLUTION_PANICKED'')))
         | ResolutionPending \<Rightarrow> (st, Pending))"

definition run_handler :: "hook \<Rightarrow> pipeline_state \<Rightarrow> pipeline_state \<times> (QueueHandlerError, unit) result flow" where
  "run_handler h st =
     (let st = emit Handler st
      in case run_normal_hook h of
           None \<Rightarrow> (st, Pending)
         | Some (Inl _) \<Rightarrow> (st, Returned (Err (retryable ''QUEUE_HANDLER_PANICKED'')))
         | Some (Inr r) \<Rightarrow> (st, Returned r))"

text \<open>
  The execution of \<open>execute_scoped_inner\<close>: enter, guards, the handler's service, the handler
  and the unwind, each step only after the previous one returned, the unwind also after a
  failure of any of them.
\<close>

fun and_await ::
    "pipeline_state \<times> (QueueHandlerError, unit) result flow
      \<Rightarrow> ((QueueHandlerError, unit) result \<Rightarrow> pipeline_state
           \<Rightarrow> pipeline_state \<times> (QueueHandlerError, unit) result flow)
      \<Rightarrow> pipeline_state \<times> (QueueHandlerError, unit) result flow" where
  "and_await (st, Returned r) f = f r st"
| "and_await (st, Pending) f = (st, Pending)"
| "and_await (st, Unwinding) f = (st, Unwinding)"

definition run_pipeline ::
    "CompiledQueuePipeline \<Rightarrow> resolution \<Rightarrow> hook \<Rightarrow> pipeline_state
      \<Rightarrow> pipeline_state \<times> (QueueHandlerError, unit) result flow" where
  "run_pipeline p service handler st =
     and_await (enter_recorded p st) (\<lambda>result st.
     and_await (if isl result then (st, Returned result) else evaluate_guards p st) (\<lambda>result st.
     and_await (if isl result then (st, Returned result) else resolve_handler_service service st) (\<lambda>result st.
     and_await (if isl result then (st, Returned result) else run_handler handler st) (\<lambda>result st.
       unwind_recorded p result st))))"

section \<open>Termination hooks\<close>

text \<open>
  What happens around one termination hook: the budgets installed before it, the clock, which
  branch of the \<open>select!\<close> wins (the hook, its cutoff, or neither before the cleanup itself is
  dropped), and whether dropping the hook's future panics.
\<close>

datatype race = HookWins "(unit, (QueueHandlerError, unit) result) result" | CutOff | StillPending

record cleanup_step =
  step_installs :: "QueueShutdownDeadlines list"
  step_now :: Instant
  step_race :: race
  step_drop_panics :: bool

fun race_state :: "race \<Rightarrow> TerminationState" where
  "race_state (HookWins (Inr (Inr _))) = TermCompleted"
| "race_state (HookWins (Inr (Inl _))) = TermFailed"
| "race_state (HookWins (Inl _)) = TermPanicked"
| "race_state CutOff = TermTimedOut"
| "race_state StillPending = TermRunning"

definition remaining_hooks :: "ledger \<Rightarrow> nat \<Rightarrow> nat" where
  "remaining_hooks l index = length (filter (\<lambda>entry. eligible_termination l entry \<noteq> None) [0..<Suc index])"

text \<open>The share of the remaining time; dividing a \<open>Duration\<close> by zero panics.\<close>

definition hook_deadline :: "Instant \<Rightarrow> Instant \<Rightarrow> nat \<Rightarrow> Instant option" where
  "hook_deadline now hard_deadline remaining =
     (if remaining = 0 then None
      else instant_checked_add now
        (saturating_duration_since hard_deadline now div (if remaining < 2 ^ 32 then remaining else 2 ^ 32 - 1)))"

fun terminate_from ::
    "CompiledQueuePipeline \<Rightarrow> (nat \<Rightarrow> cleanup_step) \<Rightarrow> Instant \<Rightarrow> nat
      \<Rightarrow> QueueShutdownBudget \<times> pipeline_state \<Rightarrow> (QueueShutdownBudget \<times> pipeline_state) \<times> unit flow" where
  "terminate_from p env deadline 0 bst = (bst, Returned ())"
| "terminate_from p env deadline (Suc index) (b, st) =
     (case eligible_termination (ledger st) index of
        None \<Rightarrow> terminate_from p env deadline index (b, st)
      | Some normal_exit \<Rightarrow>
          if length (middlewares p) \<le> index then ((b, st), Unwinding)
          else let s = env index; b = foldl install b (step_installs s); h = budget_cap b deadline in
            if h \<le> step_now s then
              (case termination_state (ledger st) index TermBudgetExhausted of
                 None \<Rightarrow> ((b, st), Unwinding)
               | Some l \<Rightarrow> terminate_from p env deadline index (b, st\<lparr>ledger := l\<rparr>))
            else case hook_deadline (step_now s) h (remaining_hooks (ledger st) index) of
                None \<Rightarrow> ((b, st), Unwinding)
              | Some d \<Rightarrow>
                  (case termination_state (ledger st) index TermRunning of
                     None \<Rightarrow> ((b, st), Unwinding)
                   | Some l \<Rightarrow>
                       let st = emit (Terminate index normal_exit d) (st\<lparr>ledger := l\<rparr>) in
                         if step_race s = StillPending then ((b, st), Pending)
                         else case termination_state (ledger st) index
                             (if step_drop_panics s then TermPanicked else race_state (step_race s)) of
                           None \<Rightarrow> ((b, st), Unwinding)
                         | Some l \<Rightarrow> terminate_from p env deadline index (b, st\<lparr>ledger := l\<rparr>)))"

definition terminate_recorded ::
    "CompiledQueuePipeline \<Rightarrow> (nat \<Rightarrow> cleanup_step) \<Rightarrow> Instant
      \<Rightarrow> QueueShutdownBudget \<times> pipeline_state \<Rightarrow> (QueueShutdownBudget \<times> pipeline_state) \<times> unit flow" where
  "terminate_recorded p env deadline bst = terminate_from p env deadline (entered (ledger (snd bst))) bst"

text \<open>
  One call of \<open>close_resources\<close>, up to the close of the scope: its argument, whether the call
  comes from the owner's \<open>drop\<close>, the clock it reads, and the steps of the hooks. The resources
  keep the deadline of the first call, and the deadline of the hooks that it computed: a
  quarter of the remaining time, or the cap, is left for the scope.
\<close>

record cleanup_pass =
  pass_deadline :: Instant
  pass_taken_over :: bool
  pass_now :: Instant
  pass_steps :: "nat \<Rightarrow> cleanup_step"

record cleanup_deadlines =
  cleanup_deadline :: "Instant option"
  termination_deadline :: "Instant option"

abbreviation no_deadlines :: cleanup_deadlines where
  "no_deadlines \<equiv> \<lparr>cleanup_deadline = None, termination_deadline = None\<rparr>"

definition take_over :: "Instant \<Rightarrow> cleanup_deadlines \<Rightarrow> cleanup_deadlines" where
  "take_over deadline ds = ds\<lparr>cleanup_deadline :=
     Some (case cleanup_deadline ds of None \<Rightarrow> deadline | Some old \<Rightarrow> min old deadline)\<rparr>"

definition hook_limit :: "QueueShutdownBudget \<Rightarrow> Instant \<Rightarrow> Instant \<Rightarrow> Instant" where
  "hook_limit b deadline now =
     (let h = budget_cap b deadline; remaining = saturating_duration_since h now
      in option_unwrap_or (instant_checked_sub h (min (remaining div 4) DELIVERY_COOPERATIVE_CAP)) h)"

definition fix_deadlines ::
    "QueueShutdownBudget \<Rightarrow> cleanup_pass \<Rightarrow> cleanup_deadlines \<Rightarrow> cleanup_deadlines \<times> Instant" where
  "fix_deadlines b pass ds =
     (let deadline = option_unwrap_or (cleanup_deadline ds) (pass_deadline pass);
          hook = option_unwrap_or (termination_deadline ds) (hook_limit b deadline (pass_now pass))
      in (\<lparr>cleanup_deadline = Some deadline, termination_deadline = Some hook\<rparr>, hook))"

text \<open>
  One pass over the ledger. A pass whose waiter is dropped is followed by another one: the
  owner's \<open>drop\<close> transfers the same resources to a cleanup task. (The \<open>drop\<close> calls
  \<open>interrupt_exit\<close> as well, which changes nothing the second time.)
\<close>

type_synonym closing = "cleanup_deadlines \<times> QueueShutdownBudget \<times> pipeline_state"

definition close_pass :: "CompiledQueuePipeline \<Rightarrow> cleanup_pass \<Rightarrow> closing \<Rightarrow> closing \<times> unit flow" where
  "close_pass p pass c =
     (let (ds, b, st) = c;
          ds = (if pass_taken_over pass then take_over (pass_deadline pass) ds else ds);
          (ds, hook) = fix_deadlines b pass ds;
          (bst, result) = terminate_recorded p (pass_steps pass) hook (b, ledger_update interrupt_exit st)
      in ((ds, bst), result))"

fun close_passes :: "CompiledQueuePipeline \<Rightarrow> cleanup_pass list \<Rightarrow> closing \<Rightarrow> closing \<times> unit flow" where
  "close_passes p [] c = (c, Pending)"
| "close_passes p (pass # passes) c =
     (case close_pass p pass c of
        (c', Pending) \<Rightarrow> close_passes p passes c'
      | result \<Rightarrow> result)"

section \<open>The ledger tells what was run\<close>

fun is_after :: "nat \<Rightarrow> pipeline_event \<Rightarrow> bool" where
  "is_after i (After j _) = (i = j)"
| "is_after i _ = False"

fun is_terminate :: "nat \<Rightarrow> pipeline_event \<Rightarrow> bool" where
  "is_terminate i (Terminate j _ _) = (i = j)"
| "is_terminate i _ = False"

definition afters :: "nat \<Rightarrow> pipeline_state \<Rightarrow> nat" where
  "afters i st = length (filter (is_after i) (events st))"

definition terminates :: "nat \<Rightarrow> pipeline_state \<Rightarrow> nat" where
  "terminates i st = length (filter (is_terminate i) (events st))"

text \<open>
  The invariant of one entry: its state says how often its exit and its termination hook were
  started, and a termination was only considered when the exit had not finished.
\<close>

definition unfinished :: "MiddlewareExitState \<Rightarrow> bool" where
  "unfinished n \<longleftrightarrow> n \<in> {ExitNotStarted, ExitInterrupted, ExitPanicked}"

definition entry_ok :: "MiddlewareEntry \<Rightarrow> nat \<Rightarrow> nat \<Rightarrow> bool" where
  "entry_ok e a t \<longleftrightarrow>
     a = (if normal e = ExitNotStarted then 0 else 1)
     \<and> t = (if term_state e \<in> {TermNotStarted, TermBudgetExhausted} then 0 else 1)
     \<and> (term_state e \<noteq> TermNotStarted \<longrightarrow> unfinished (normal e))"

definition ledger_ok :: "pipeline_state \<Rightarrow> bool" where
  "ledger_ok st \<longleftrightarrow>
     (\<forall>i < length (ledger st). entry_ok (ledger st ! i) (afters i st) (terminates i st))
     \<and> (\<forall>i \<ge> length (ledger st). afters i st = 0 \<and> terminates i st = 0)"

definition untouched :: "pipeline_state \<Rightarrow> bool" where
  "untouched st \<longleftrightarrow> (\<forall>e\<in>set (ledger st). term_state e = TermNotStarted)"

lemma emit_simps [simp]:
  "ledger (emit e st) = ledger st" "events (emit e st) = events st @ [e]"
  by (simp_all add: emit_def)

lemma afters_emit [simp]:
  "afters i (emit e st) = afters i st + (if is_after i e then 1 else 0)"
  "terminates i (emit e st) = terminates i st + (if is_terminate i e then 1 else 0)"
  by (simp_all add: afters_def terminates_def)

lemma afters_ledger [simp]:
  "afters i (st\<lparr>ledger := l\<rparr>) = afters i st" "terminates i (st\<lparr>ledger := l\<rparr>) = terminates i st"
  by (simp_all add: afters_def terminates_def)

text \<open>
  Every operation updates one entry and emits at most one event for it: this is enough for the
  invariant.
\<close>

lemma ledger_ok_update:
  assumes "ledger_ok st" "i < length (ledger st)"
    and "l = (ledger st)[i := e]" "st' = st\<lparr>ledger := l, events := events st @ evs\<rparr>"
    and "\<forall>ev\<in>set evs. \<forall>j. j \<noteq> i \<longrightarrow> \<not> is_after j ev \<and> \<not> is_terminate j ev"
    and "entry_ok e (afters i st + length (filter (is_after i) evs))
      (terminates i st + length (filter (is_terminate i) evs))"
  shows "ledger_ok st'"
proof -
  have other: "filter (is_after j) evs = []" "filter (is_terminate j) evs = []" if "j \<noteq> i" for j
    using assms(5) that by (auto simp: filter_empty_conv)
  show ?thesis
    using assms(1,2,6) other unfolding ledger_ok_def assms(3,4)
    by (auto simp: afters_def terminates_def nth_list_update)
qed

lemma ledger_ok_emit_neutral:
  "ledger_ok st \<Longrightarrow> \<forall>i. \<not> is_after i e \<and> \<not> is_terminate i e \<Longrightarrow> ledger_ok (emit e st)"
  by (simp add: ledger_ok_def)

lemma ledger_ok_enter:
  assumes "ledger_ok st" "record_enter (ledger st) i = Some l"
  shows "ledger_ok (st\<lparr>ledger := l\<rparr>)"
  using assms
  by (auto simp: ledger_ok_def record_enter_def entry_ok_def nth_append less_Suc_eq split: if_splits)

lemma ledger_ok_interrupt:
  assumes "ledger_ok st"
  shows "ledger_ok (ledger_update interrupt_exit st)"
proof -
  have "entry_ok (interrupt_entry e) a t" if "entry_ok e a t" for e a t
    using that by (auto simp: entry_ok_def interrupt_entry_def unfinished_def)
  moreover have "afters i (ledger_update interrupt_exit st) = afters i st"
    "terminates i (ledger_update interrupt_exit st) = terminates i st" for i
    by (simp_all add: afters_def terminates_def)
  ultimately show ?thesis
    using assms by (simp add: ledger_ok_def interrupt_exit_def)
qed

text \<open>
  The order of the cleanup: the indices of the exits and termination hooks, as they are
  started, never increase. An entry that may still get a hook lies below all of them.
\<close>

fun cleanup_index :: "pipeline_event \<Rightarrow> nat option" where
  "cleanup_index (After i _) = Some i"
| "cleanup_index (Terminate i _ _) = Some i"
| "cleanup_index _ = None"

definition cleanups :: "pipeline_state \<Rightarrow> nat list" where
  "cleanups st = List.map_filter cleanup_index (events st)"

definition may_clean :: "MiddlewareEntry \<Rightarrow> bool" where
  "may_clean e \<longleftrightarrow> normal e \<notin> {ExitCompleted, ExitFailed} \<and> term_state e = TermNotStarted"

definition order_ok :: "pipeline_state \<Rightarrow> bool" where
  "order_ok st \<longleftrightarrow> sorted_wrt (\<ge>) (cleanups st)
     \<and> (\<forall>i < length (ledger st). may_clean (ledger st ! i) \<longrightarrow> (\<forall>j\<in>set (cleanups st). i \<le> j))"

definition closed_above :: "nat \<Rightarrow> ledger \<Rightarrow> bool" where
  "closed_above k l \<longleftrightarrow> (\<forall>i. k \<le> i \<and> i < length l \<longrightarrow> \<not> may_clean (l ! i))"

lemma cleanups_emit: "cleanups (emit e st) = cleanups st @ (case cleanup_index e of None \<Rightarrow> [] | Some i \<Rightarrow> [i])"
  by (simp add: cleanups_def List.map_filter_def split: option.splits)

lemma cleanups_ledger [simp]: "cleanups (st\<lparr>ledger := l\<rparr>) = cleanups st"
  by (simp add: cleanups_def)

lemma order_ok_hook:
  assumes "order_ok st" "i < length (ledger st)" "may_clean (ledger st ! i)"
    and "closed_above (Suc i) (ledger st)" "cleanup_index e = Some i"
  shows "order_ok (emit e (st\<lparr>ledger := (ledger st)[i := x]\<rparr>))"
proof -
  have "i' \<le> i" if "i' < length (ledger st)" "i' \<noteq> i" "may_clean (ledger st ! i')" for i'
    using assms(4) that unfolding closed_above_def by (meson not_less_eq_eq)
  then show ?thesis
    using assms(1-3,5)
    by (auto simp: order_ok_def cleanups_emit sorted_wrt_append nth_list_update)
qed

lemma order_ok_update:
  assumes "order_ok st" "may_clean x \<Longrightarrow> may_clean (ledger st ! i)"
  shows "order_ok (st\<lparr>ledger := (ledger st)[i := x]\<rparr>)"
proof -
  have "may_clean ((ledger st)[i := x] ! k) \<Longrightarrow> k < length (ledger st) \<Longrightarrow> may_clean (ledger st ! k)" for k
    using assms(2) by (cases "k = i") simp_all
  then show ?thesis
    using assms(1) by (auto simp: order_ok_def)
qed

lemma may_clean_interrupt [simp]: "may_clean (interrupt_entry e) \<longleftrightarrow> may_clean e"
  by (auto simp: may_clean_def interrupt_entry_def)

lemma order_ok_interrupt: "order_ok st \<Longrightarrow> order_ok (ledger_update interrupt_exit st)"
  by (simp add: order_ok_def interrupt_exit_def cleanups_def)

lemma closed_above_update:
  "closed_above (Suc i) l \<Longrightarrow> \<not> may_clean x \<Longrightarrow> closed_above i (l[i := x])"
  by (auto simp: closed_above_def nth_list_update)

lemma closed_above_down:
  "closed_above (Suc i) l \<Longrightarrow> i < length l \<longrightarrow> \<not> may_clean (l ! i) \<Longrightarrow> closed_above i l"
  unfolding closed_above_def by (metis Suc_leI le_neq_implies_less)

lemma closed_above_length [simp]: "closed_above (length l) l"
  by (auto simp: closed_above_def)

section \<open>Entering\<close>

abbreviation fresh_entry :: MiddlewareEntry where
  "fresh_entry \<equiv> \<lparr>normal = ExitNotStarted, term_state = TermNotStarted\<rparr>"

abbreviation (input) enters :: "CompiledQueueMiddleware \<Rightarrow> bool" where
  "enters m \<equiv> before m = HookReturns (Ok ())"

lemma hook_cases:
  obtains "h = HookReturns (Ok ())" | e where "h = HookReturns (Err e)" | "h = HookPanics" | "h = HookPending"
  by (metis (full_types) hook.exhaust old.sum.exhaust old.unit.exhaust)

lemma run_normal_hook_ok: "run_normal_hook h = Some (Inr (Inr u)) \<longleftrightarrow> h = HookReturns (Ok ())"
  by (cases h) auto

lemma enter_from_ledger:
  assumes "length (ledger st) = i" "ledger_ok st" "enter_from i ms st = (st', f)"
  shows "ledger st' = ledger st @ replicate (length (takeWhile enters ms)) fresh_entry
    \<and> ledger_ok st' \<and> cleanups st' = cleanups st \<and> f \<noteq> Unwinding
    \<and> (f = Returned (Ok ()) \<longleftrightarrow> list_all enters ms)"
  using assms
proof (induction i ms st rule: enter_from.induct)
  case (2 i m ms st)
  have emitted: "ledger_ok (emit (Before i) st)" "cleanups (emit (Before i) st) = cleanups st"
    using "2.prems"(2) by (simp_all add: ledger_ok_emit_neutral cleanups_emit)
  show ?case
  proof (cases "enters m")
    case True
    define st1 where "st1 = (emit (Before i) st)\<lparr>ledger := ledger st @ [fresh_entry]\<rparr>"
    have enter: "record_enter (ledger (emit (Before i) st)) i = Some (ledger st @ [fresh_entry])"
      using "2.prems"(1) by (simp add: record_enter_def)
    have "ledger_ok st1"
      unfolding st1_def using ledger_ok_enter [OF emitted(1) enter] .
    moreover have "enter_from (Suc i) ms st1 = (st', f)"
      using "2.prems"(3) True enter by (simp add: st1_def)
    ultimately show ?thesis
      using "2.IH" [OF refl _ _ _ _] "2.prems"(1) True enter
      by (auto simp: st1_def emitted(2) Let_def)
  next
    case False
    then show ?thesis
      using "2.prems"(3) emitted
      by (cases "before m" rule: hook_cases) auto
  qed
qed auto

lemma guards_from_ledger:
  assumes "ledger_ok st" "guards_from i gs st = (st', f)"
  shows "ledger st' = ledger st \<and> ledger_ok st' \<and> cleanups st' = cleanups st \<and> f \<noteq> Unwinding
    \<and> (f = Returned (Ok ()) \<longleftrightarrow> list_all (\<lambda>g. g = HookReturns (Ok ())) gs)"
  using assms
proof (induction i gs st rule: guards_from.induct)
  case (2 i g gs st)
  have "ledger_ok (emit (Guard i) st)" "cleanups (emit (Guard i) st) = cleanups st"
    using "2.prems"(1) by (simp_all add: ledger_ok_emit_neutral cleanups_emit)
  then show ?case
    using 2 by (cases g rule: hook_cases) (auto simp: Let_def)
qed auto

lemma resolve_ledger:
  assumes "ledger_ok st" "resolve_handler_service r st = (st', f)"
  shows "ledger st' = ledger st \<and> ledger_ok st' \<and> cleanups st' = cleanups st \<and> f \<noteq> Unwinding
    \<and> (f = Returned (Ok ()) \<longleftrightarrow> r = Resolved)"
  using assms
  by (cases r) (auto simp: resolve_handler_service_def ledger_ok_emit_neutral cleanups_emit)

lemma run_handler_ledger:
  assumes "ledger_ok st" "run_handler h st = (st', f)"
  shows "ledger st' = ledger st \<and> ledger_ok st' \<and> cleanups st' = cleanups st \<and> f \<noteq> Unwinding
    \<and> (f = Returned (Ok ()) \<longleftrightarrow> h = HookReturns (Ok ()))"
  using assms
  by (cases h rule: hook_cases) (auto simp: run_handler_def ledger_ok_emit_neutral cleanups_emit)

section \<open>Unwinding\<close>

lemma ledger_ok_set:
  assumes "ledger_ok st" "i < length (ledger st)" "entry_ok e (afters i st) (terminates i st)"
  shows "ledger_ok (st\<lparr>ledger := (ledger st)[i := e]\<rparr>)"
  using ledger_ok_update [OF assms(1,2) refl refl, where evs = "[]"] assms(3) by simp

lemma ledger_ok_hook:
  assumes "ledger_ok st" "i < length (ledger st)" "cleanup_index ev = Some i"
    and "entry_ok e (afters i st + (if is_after i ev then 1 else 0))
      (terminates i st + (if is_terminate i ev then 1 else 0))"
  shows "ledger_ok (emit ev (st\<lparr>ledger := (ledger st)[i := e]\<rparr>))"
proof -
  have "\<not> is_after j ev \<and> \<not> is_terminate j ev" if "j \<noteq> i" for j
    using assms(3) that by (cases ev) auto
  then show ?thesis
    using assms(4) by (intro ledger_ok_update [OF assms(1,2) refl, where evs = "[ev]" and e = e])
      (auto simp: emit_def)
qed

lemma ledger_okD:
  "ledger_ok st \<Longrightarrow> i < length (ledger st) \<Longrightarrow> entry_ok (ledger st ! i) (afters i st) (terminates i st)"
  by (simp add: ledger_ok_def)

text \<open>What the whole pipeline and each of its cleanup passes keep.\<close>

definition pipeline_ok :: "CompiledQueuePipeline \<Rightarrow> pipeline_state \<Rightarrow> bool" where
  "pipeline_ok p st \<longleftrightarrow> ledger_ok st \<and> order_ok st \<and> length (ledger st) \<le> length (middlewares p)"

lemma begin_exit_step:
  assumes "pipeline_ok p st" "untouched st" "i < length (ledger st)" "ledger st ! i = fresh_entry"
    and "closed_above (Suc i) (ledger st)"
    and "st1 = emit (After i o') (st\<lparr>ledger := (ledger st)[i := fresh_entry\<lparr>normal := ExitRunning\<rparr>]\<rparr>)"
  shows "pipeline_ok p st1" "untouched st1" "afters i st1 = 1" "terminates i st1 = 0"
proof -
  have entry: "afters i st = 0" "terminates i st = 0"
    using ledger_okD [of st i] assms(1,3,4) by (simp_all add: pipeline_ok_def entry_ok_def)
  then show "afters i st1 = 1" "terminates i st1 = 0"
    by (simp_all add: assms(6))
  have "ledger_ok st1"
    unfolding assms(6) using assms(1,3) entry
    by (intro ledger_ok_hook) (simp_all add: pipeline_ok_def entry_ok_def)
  moreover have "order_ok st1"
    unfolding assms(6) using assms
    by (intro order_ok_hook) (simp_all add: pipeline_ok_def may_clean_def)
  ultimately show "pipeline_ok p st1"
    using assms(1) by (simp add: pipeline_ok_def assms(6))
  show "untouched st1"
    using assms(2) by (auto simp: untouched_def assms(6) dest!: set_update_subset_insert [THEN subsetD])
qed

lemma finish_step:
  assumes "pipeline_ok p st" "untouched st" "i < length (ledger st)" "ledger st ! i = x"
    and "x = fresh_entry\<lparr>normal := ExitRunning\<rparr>" "afters i st = 1" "terminates i st = 0" "n \<noteq> ExitNotStarted"
  shows "pipeline_ok p (st\<lparr>ledger := (ledger st)[i := x\<lparr>normal := n\<rparr>]\<rparr>)"
    "untouched (st\<lparr>ledger := (ledger st)[i := x\<lparr>normal := n\<rparr>]\<rparr>)"
proof -
  have "ledger_ok (st\<lparr>ledger := (ledger st)[i := x\<lparr>normal := n\<rparr>]\<rparr>)"
    using assms by (intro ledger_ok_set) (simp_all add: pipeline_ok_def entry_ok_def)
  moreover have "order_ok (st\<lparr>ledger := (ledger st)[i := x\<lparr>normal := n\<rparr>]\<rparr>)"
    using assms by (intro order_ok_update) (simp_all add: pipeline_ok_def may_clean_def)
  ultimately show "pipeline_ok p (st\<lparr>ledger := (ledger st)[i := x\<lparr>normal := n\<rparr>]\<rparr>)"
    using assms(1) by (simp add: pipeline_ok_def)
  show "untouched (st\<lparr>ledger := (ledger st)[i := x\<lparr>normal := n\<rparr>]\<rparr>)"
    using assms(2,5) by (auto simp: untouched_def dest!: set_update_subset_insert [THEN subsetD])
qed

lemma unwind_from_ok:
  assumes "pipeline_ok p st" "untouched st" "k \<le> length (ledger st)"
    and "closed_above k (ledger st)" "\<forall>i<k. ledger st ! i = fresh_entry"
    and "unwind_from p k r st = (st', f)"
  shows "pipeline_ok p st' \<and> untouched st' \<and> length (ledger st') = length (ledger st) \<and> f \<noteq> Unwinding"
  using assms
proof (induction k arbitrary: r st)
  case (Suc i)
  define run where "run = fresh_entry\<lparr>normal := ExitRunning\<rparr>"
  define st1 where "st1 = emit (After i (delivery_outcome r)) (st\<lparr>ledger := (ledger st)[i := run]\<rparr>)"
  have i: "i < length (ledger st)" "ledger st ! i = fresh_entry" "i < length (middlewares p)"
    using Suc.prems(1,3,5) by (simp_all add: pipeline_ok_def)
  have begun: "begin_exit (ledger st) i = ((ledger st)[i := run], True)"
    using i by (simp add: begin_exit_def run_def)
  note st1 = begin_exit_step [OF Suc.prems(1,2) i(1,2) Suc.prems(4) st1_def [unfolded run_def]]
  have l1: "ledger st1 = (ledger st)[i := run]" "ledger st1 ! i = run" "i < length (ledger st1)"
    using i by (simp_all add: st1_def)
  note done' = finish_step [OF st1(1,2) l1(3,2) run_def st1(3,4)]
  have fin: "finish_exit (ledger st1) i b = Some ((ledger st1)[i := run\<lparr>normal := (if b then ExitCompleted else ExitFailed)\<rparr>])" for b
    using l1 by (simp add: finish_exit_def run_def)
  have pan: "panicked_exit (ledger st1) i = Some ((ledger st1)[i := run\<lparr>normal := ExitPanicked\<rparr>])"
    using l1 by (simp add: panicked_exit_def)
  note unwind = Suc.prems(6) [unfolded unwind_from.simps begun Let_def prod.case]
  show ?case
  proof (cases "run_normal_hook (after (middlewares p ! i) (delivery_outcome r))")
    case None
    then have "st' = st1" "f = Pending"
      using unwind i by (simp_all add: st1_def)
    then show ?thesis
      using st1 l1 by simp
  next
    case (Some res)
    show ?thesis
    proof (cases res)
      case (Inl u)
      then show ?thesis
        using unwind i Some pan done' [of ExitPanicked] by (auto simp: st1_def [symmetric] l1(1))
    next
      case (Inr x)
      define st2 where "st2 = st1\<lparr>ledger := (ledger st1)[i := run\<lparr>normal := (if \<not> isl x then ExitCompleted else ExitFailed)\<rparr>]\<rparr>"
      have "unwind_from p i (and_then r (\<lambda>_. x)) st2 = (st', f)"
        using unwind i Some Inr fin by (simp add: st1_def [symmetric] st2_def)
      moreover have "pipeline_ok p st2" "untouched st2" "length (ledger st2) = length (ledger st)"
        using done' [of "if \<not> isl x then ExitCompleted else ExitFailed"] by (simp_all add: st2_def l1)
      moreover have "closed_above i (ledger st2)"
        unfolding st2_def using Suc.prems(4)
        by (simp add: l1 closed_above_update may_clean_def)
      moreover have "\<forall>j<i. ledger st2 ! j = fresh_entry"
        using Suc.prems(5) by (simp add: st2_def l1)
      ultimately show ?thesis
        using Suc.IH [of st2 "and_then r (\<lambda>_. x)"] i by simp
    qed
  qed
qed auto

definition entered_ok :: "CompiledQueuePipeline \<Rightarrow> pipeline_state \<Rightarrow> bool" where
  "entered_ok p st \<longleftrightarrow> ledger st = replicate (length (takeWhile enters (middlewares p))) fresh_entry
     \<and> ledger_ok st \<and> cleanups st = []"

abbreviation start :: pipeline_state where
  "start \<equiv> \<lparr>ledger = [], events = []\<rparr>"

lemma entered_ok_enter:
  assumes "enter_recorded p start = (st', f)"
  shows "entered_ok p st' \<and> f \<noteq> Unwinding \<and> (f = Returned (Ok ()) \<longleftrightarrow> list_all enters (middlewares p))"
proof -
  have "ledger_ok start" "cleanups start = []"
    by (simp_all add: ledger_ok_def afters_def terminates_def cleanups_def List.map_filter_def)
  then show ?thesis
    using enter_from_ledger [OF _ _ assms [unfolded enter_recorded_def]] by (simp add: entered_ok_def)
qed

lemma entered_ok_pipeline:
  assumes "entered_ok p st"
  shows "pipeline_ok p st" "untouched st"
  using assms length_takeWhile_le [of enters "middlewares p"]
  by (simp_all add: entered_ok_def pipeline_ok_def order_ok_def untouched_def)

lemma unwind_recorded_ok:
  assumes "entered_ok p st" "unwind_recorded p r st = (st', f)"
  shows "pipeline_ok p st' \<and> untouched st'
    \<and> length (ledger st') = length (takeWhile enters (middlewares p)) \<and> f \<noteq> Unwinding"
  using unwind_from_ok [OF entered_ok_pipeline [OF assms(1)], of "entered (ledger st)" r st' f] assms
  by (simp add: unwind_recorded_def entered_def entered_ok_def)

definition executed_ok :: "CompiledQueuePipeline \<Rightarrow> pipeline_state \<Rightarrow> (QueueHandlerError, unit) result flow \<Rightarrow> bool" where
  "executed_ok p st f \<longleftrightarrow> pipeline_ok p st \<and> untouched st
     \<and> length (ledger st) = length (takeWhile enters (middlewares p)) \<and> f \<noteq> Unwinding"

lemma entered_ok_executed: "entered_ok p st \<Longrightarrow> executed_ok p st Pending"
  using entered_ok_pipeline by (simp add: executed_ok_def entered_ok_def)

text \<open>
  One awaited stage: the execution stops in it, or the next stage starts from the entered
  state.
\<close>

lemma and_await_executed:
  assumes "and_await stage g = (st', f)"
    and "\<And>st1 f1. stage = (st1, f1) \<Longrightarrow> entered_ok p st1 \<and> f1 \<noteq> Unwinding"
    and "\<And>r st st' f. g r st = (st', f) \<Longrightarrow> entered_ok p st \<Longrightarrow> executed_ok p st' f"
  shows "executed_ok p st' f"
proof -
  obtain st1 f1 where "stage = (st1, f1)"
    by fastforce
  then show ?thesis
    using assms entered_ok_executed [of p st1] by (cases f1) auto
qed

lemma stage_ok:
  assumes "entered_ok p st"
  shows "(if c then (st, Returned r) else evaluate_guards p st) = (st', f) \<Longrightarrow> entered_ok p st' \<and> f \<noteq> Unwinding"
    and "(if c then (st, Returned r) else resolve_handler_service v st) = (st', f) \<Longrightarrow> entered_ok p st' \<and> f \<noteq> Unwinding"
    and "(if c then (st, Returned r) else run_handler h st) = (st', f) \<Longrightarrow> entered_ok p st' \<and> f \<noteq> Unwinding"
  using assms guards_from_ledger [of st 0 "guards p" st' f] resolve_ledger [of st v st' f]
    run_handler_ledger [of st h st' f]
  by (auto simp: entered_ok_def evaluate_guards_def split: if_splits)

lemma run_pipeline_ok:
  assumes "run_pipeline p service handler start = (st', f)"
  shows "executed_ok p st' f"
proof -
  define unwind where "unwind = (\<lambda>r st. unwind_recorded p r st)"
  define handle where "handle = (\<lambda>r st. and_await
    (if isl r then (st, Returned r) else run_handler handler st) unwind)"
  define resolve where "resolve = (\<lambda>r st. and_await
    (if isl r then (st, Returned r) else resolve_handler_service service st) handle)"
  define guard where "guard = (\<lambda>r st. and_await
    (if isl r then (st, Returned r) else evaluate_guards p st) resolve)"
  have unwind: "unwind r st = (st', f) \<Longrightarrow> entered_ok p st \<Longrightarrow> executed_ok p st' f" for r st st' f
    using unwind_recorded_ok by (simp add: unwind_def executed_ok_def)
  have handle: "handle r st = (st', f) \<Longrightarrow> entered_ok p st \<Longrightarrow> executed_ok p st' f" for r st st' f
    unfolding handle_def by (erule and_await_executed) (erule (1) stage_ok(3), erule (1) unwind)
  have resolve: "resolve r st = (st', f) \<Longrightarrow> entered_ok p st \<Longrightarrow> executed_ok p st' f" for r st st' f
    unfolding resolve_def by (erule and_await_executed) (erule (1) stage_ok(2), erule (1) handle)
  have guard: "guard r st = (st', f) \<Longrightarrow> entered_ok p st \<Longrightarrow> executed_ok p st' f" for r st st' f
    unfolding guard_def by (erule and_await_executed) (erule (1) stage_ok(1), erule (1) resolve)
  have "and_await (enter_recorded p start) guard = (st', f)"
    using assms by (simp add: run_pipeline_def guard_def resolve_def handle_def unwind_def)
  then show ?thesis
    by (rule and_await_executed) (use entered_ok_enter guard in blast)+
qed

section \<open>Terminating\<close>

definition no_exit_running :: "ledger \<Rightarrow> bool" where
  "no_exit_running l \<longleftrightarrow> (\<forall>e\<in>set l. normal e \<noteq> ExitRunning)"

definition no_hook_running :: "ledger \<Rightarrow> bool" where
  "no_hook_running l \<longleftrightarrow> (\<forall>e\<in>set l. term_state e \<noteq> TermRunning)"

lemma interrupt_exit_stopped: "no_exit_running (interrupt_exit l)" "no_hook_running (interrupt_exit l)"
  by (auto simp: no_exit_running_def no_hook_running_def interrupt_exit_def interrupt_entry_def)

lemma interrupt_exit_length [simp]: "length (interrupt_exit l) = length l"
  by (simp add: interrupt_exit_def)

text \<open>An entry is eligible exactly if it may still be cleaned up, once no exit is running.\<close>

lemma eligible_iff:
  assumes "no_exit_running l" "i < length l"
  shows "eligible_termination l i \<noteq> None \<longleftrightarrow> may_clean (l ! i)"
proof -
  have "normal (l ! i) \<noteq> ExitRunning"
    using assms by (simp add: no_exit_running_def)
  then show ?thesis
    using assms(2) by (cases "normal (l ! i)") (simp_all add: eligible_termination_def may_clean_def)
qed

lemma may_clean_entry:
  assumes "ledger_ok st" "i < length (ledger st)" "may_clean (ledger st ! i)" "no_exit_running (ledger st)"
  shows "terminates i st = 0" "unfinished (normal (ledger st ! i))"
    "afters i st = (if normal (ledger st ! i) = ExitNotStarted then 0 else 1)"
proof -
  have "normal (ledger st ! i) \<noteq> ExitRunning"
    using assms(2,4) by (simp add: no_exit_running_def)
  then show "unfinished (normal (ledger st ! i))"
    using assms(3) by (cases "normal (ledger st ! i)") (simp_all add: may_clean_def unfinished_def)
  show "terminates i st = 0" "afters i st = (if normal (ledger st ! i) = ExitNotStarted then 0 else 1)"
    using ledger_okD [OF assms(1,2)] assms(3) by (simp_all add: entry_ok_def may_clean_def)
qed

text \<open>One loop round: skipping a hook, and starting one.\<close>

abbreviation set_term :: "nat \<Rightarrow> TerminationState \<Rightarrow> pipeline_state \<Rightarrow> pipeline_state" where
  "set_term i s st \<equiv> st\<lparr>ledger := (ledger st)[i := (ledger st ! i)\<lparr>term_state := s\<rparr>]\<rparr>"

definition terminating :: "CompiledQueuePipeline \<Rightarrow> nat \<Rightarrow> pipeline_state \<Rightarrow> bool" where
  "terminating p k st \<longleftrightarrow> pipeline_ok p st \<and> no_exit_running (ledger st) \<and> closed_above k (ledger st)"

lemma no_exit_running_set: "no_exit_running l \<Longrightarrow> i < length l \<Longrightarrow> no_exit_running (l[i := (l ! i)\<lparr>term_state := s\<rparr>])"
  by (auto simp: no_exit_running_def dest!: set_update_subset_insert [THEN subsetD])

lemma no_hook_running_set:
  "no_hook_running l \<Longrightarrow> s \<noteq> TermRunning \<Longrightarrow> no_hook_running (l[i := (l ! i)\<lparr>term_state := s\<rparr>])"
  by (auto simp: no_hook_running_def dest!: set_update_subset_insert [THEN subsetD])

lemma terminating_skip:
  assumes "terminating p (Suc i) st" "i < length (ledger st)" "may_clean (ledger st ! i)"
  shows "terminating p i (set_term i TermBudgetExhausted st)"
proof -
  note st = assms(1) [unfolded terminating_def pipeline_ok_def]
  have "ledger_ok (set_term i TermBudgetExhausted st)"
    using may_clean_entry [OF _ assms(2,3)] st assms(2)
    by (intro ledger_ok_set) (simp_all add: entry_ok_def)
  moreover have "order_ok (set_term i TermBudgetExhausted st)"
    using st by (intro order_ok_update) (simp_all add: may_clean_def)
  moreover have "closed_above i (ledger (set_term i TermBudgetExhausted st))"
    using st by (simp add: closed_above_update may_clean_def)
  ultimately show ?thesis
    using st assms(2) by (simp add: terminating_def pipeline_ok_def no_exit_running_set)
qed

lemma terminating_start:
  assumes "terminating p (Suc i) st" "i < length (ledger st)" "may_clean (ledger st ! i)"
    and "st1 = emit (Terminate i ne d) (set_term i TermRunning st)"
  shows "terminating p i st1" "terminates i st1 = 1" "unfinished (normal (ledger st1 ! i))"
    "afters i st1 = (if normal (ledger st1 ! i) = ExitNotStarted then 0 else 1)"
proof -
  note st = assms(1) [unfolded terminating_def pipeline_ok_def]
  note entry = may_clean_entry [OF _ assms(2,3)]
  show "terminates i st1 = 1" "unfinished (normal (ledger st1 ! i))"
    "afters i st1 = (if normal (ledger st1 ! i) = ExitNotStarted then 0 else 1)"
    using entry st assms(2) by (simp_all add: assms(4))
  have "ledger_ok st1"
    unfolding assms(4) using entry st assms(2)
    by (intro ledger_ok_hook) (simp_all add: entry_ok_def)
  moreover have "order_ok st1"
    unfolding assms(4) using st assms(2,3) by (intro order_ok_hook) simp_all
  moreover have "closed_above i (ledger st1)"
    using st by (simp add: assms(4) closed_above_update may_clean_def)
  ultimately show "terminating p i st1"
    using st assms(2) by (simp add: assms(4) terminating_def pipeline_ok_def no_exit_running_set)
qed

lemma terminating_end:
  assumes "terminating p i st" "i < length (ledger st)" "terminates i st = 1"
    and "unfinished (normal (ledger st ! i))"
    and "afters i st = (if normal (ledger st ! i) = ExitNotStarted then 0 else 1)"
    and "s \<notin> {TermNotStarted, TermBudgetExhausted}"
  shows "terminating p i (set_term i s st)"
proof -
  note st = assms(1) [unfolded terminating_def pipeline_ok_def]
  have "ledger_ok (set_term i s st)"
    using st assms by (intro ledger_ok_set) (simp_all add: entry_ok_def)
  moreover have "order_ok (set_term i s st)"
    using st assms(6) by (intro order_ok_update) (simp_all add: may_clean_def)
  moreover have "closed_above i (ledger (set_term i s st))"
    using st assms(6) by (auto simp: closed_above_def nth_list_update may_clean_def)
  ultimately show ?thesis
    using st assms(2) by (simp add: terminating_def pipeline_ok_def no_exit_running_set)
qed

lemma termination_state_Some:
  "i < length l \<Longrightarrow> termination_state l i s = Some (l[i := (l ! i)\<lparr>term_state := s\<rparr>])"
  by (simp add: termination_state_def)

lemma race_state_ended: "r \<noteq> StillPending \<Longrightarrow> race_state r \<notin> {TermNotStarted, TermBudgetExhausted, TermRunning}"
  by (cases r rule: race_state.cases) simp_all

text \<open>
  A round that visits an eligible entry skips it, is left pending in its hook, panics, or runs
  the hook to its end.
\<close>

lemma terminate_round:
  assumes "eligible_termination (ledger st) i = Some ne" "i < length (ledger st)"
    and "terminate_from p env dl (Suc i) (b, st) = ((b', st'), f)"
    and b1_def: "b1 = foldl install b (step_installs (env i))"
  shows "terminate_from p env dl i (b1, set_term i TermBudgetExhausted st) = ((b', st'), f)
        \<and> budget_cap b1 dl \<le> step_now (env i)
    \<or> (f = Unwinding \<and> st' = st \<and> b' \<in> {b, b1}
        \<and> (length (middlewares p) \<le> i \<or> step_now (env i) < budget_cap b1 dl
            \<and> hook_deadline (step_now (env i)) (budget_cap b1 dl) (remaining_hooks (ledger st) i) = None))
    \<or> (\<exists>d. f = Pending \<and> st' = emit (Terminate i ne d) (set_term i TermRunning st) \<and> b' = b1
        \<and> step_now (env i) < budget_cap b1 dl
        \<and> hook_deadline (step_now (env i)) (budget_cap b1 dl) (remaining_hooks (ledger st) i) = Some d)
    \<or> (\<exists>d s. s \<notin> {TermNotStarted, TermBudgetExhausted, TermRunning}
        \<and> terminate_from p env dl i (b1, set_term i s (emit (Terminate i ne d) (set_term i TermRunning st)))
          = ((b', st'), f)
        \<and> step_now (env i) < budget_cap b1 dl
        \<and> hook_deadline (step_now (env i)) (budget_cap b1 dl) (remaining_hooks (ledger st) i) = Some d)"
proof -
  define h where "h = budget_cap b1 dl"
  note run = assms(3) [unfolded terminate_from.simps assms(1) option.case Let_def,
      folded b1_def, folded h_def]
  consider (range) "length (middlewares p) \<le> i"
    | (skip) "\<not> length (middlewares p) \<le> i" "h \<le> step_now (env i)"
    | (panic) "\<not> length (middlewares p) \<le> i" "\<not> h \<le> step_now (env i)"
        "hook_deadline (step_now (env i)) h (remaining_hooks (ledger st) i) = None"
    | (hook) d where "\<not> length (middlewares p) \<le> i" "\<not> h \<le> step_now (env i)"
        "hook_deadline (step_now (env i)) h (remaining_hooks (ledger st) i) = Some d"
    by fastforce
  then show ?thesis
  proof cases
    case skip
    then show ?thesis
      using run assms(2) by (auto simp: termination_state_Some h_def)
  next
    case (hook d)
    define st1 where "st1 = emit (Terminate i ne d) (set_term i TermRunning st)"
    define s where "s = (if step_drop_panics (env i) then TermPanicked else race_state (step_race (env i)))"
    have st1: "i < length (ledger st1)"
      using assms(2) by (simp add: st1_def)
    show ?thesis
    proof (cases "step_race (env i) = StillPending")
      case True
      then show ?thesis
        using run hook assms(2) by (auto simp: termination_state_Some h_def)
    next
      case False
      have "terminate_from p env dl i (b1, set_term i s st1) = ((b', st'), f)"
        using run hook assms(2) False termination_state_Some [OF st1, of s]
        by (simp add: termination_state_Some s_def [symmetric] st1_def)
      moreover have "s \<notin> {TermNotStarted, TermBudgetExhausted, TermRunning}"
        using race_state_ended [OF False] by (simp add: s_def)
      ultimately show ?thesis
        using hook unfolding st1_def h_def not_le by blast
    qed
  qed (use run in \<open>auto simp: h_def\<close>)
qed

lemma map_normal_set_term [simp]:
  "map normal (l[i := (l ! i)\<lparr>term_state := s\<rparr>]) = map normal l"
  by (cases "i < length l") (simp_all add: map_update list_update_same_conv list_update_beyond not_less)

lemma terminate_from_ok:
  assumes "terminating p k st" "no_hook_running (ledger st)" "k \<le> length (ledger st)"
    and "terminate_from p env dl k (b, st) = ((b', st'), f)"
  shows "pipeline_ok p st' \<and> map normal (ledger st') = map normal (ledger st)
    \<and> (f = Returned () \<longrightarrow> terminating p 0 st' \<and> no_hook_running (ledger st'))"
  using assms
proof (induction k arbitrary: b st)
  case 0
  then show ?case
    by (auto simp: terminating_def)
next
  case (Suc i)
  have i: "i < length (ledger st)"
    using Suc.prems(3) by simp
  have running: "no_exit_running (ledger st)"
    using Suc.prems(1) by (simp add: terminating_def)
  show ?case
  proof (cases "eligible_termination (ledger st) i")
    case None
    then have "terminating p i st"
      using Suc.prems(1) eligible_iff [OF running i] closed_above_down [of i "ledger st"]
      by (simp add: terminating_def)
    then show ?thesis
      using Suc.IH [of st b] Suc.prems None by simp
  next
    case (Some ne)
    then have clean: "may_clean (ledger st ! i)"
      using eligible_iff [OF running i] by simp
    note skip = terminating_skip [OF Suc.prems(1) i clean]
    note begun = terminating_start [OF Suc.prems(1) i clean refl]
    from terminate_round [OF Some i Suc.prems(4) refl] show ?thesis
    proof (elim disjE exE conjE)
      let ?b1 = "foldl install b (step_installs (env i))"
      assume rest: "terminate_from p env dl i (?b1, set_term i TermBudgetExhausted st) = ((b', st'), f)"
      show ?thesis
        using Suc.IH [OF skip _ _ rest] i Suc.prems(2)
        by (simp add: no_hook_running_set)
    next
      assume "f = Unwinding" "st' = st"
      then show ?thesis
        using Suc.prems(1) by (simp add: terminating_def)
    next
      fix d
      assume "f = Pending" "st' = emit (Terminate i ne d) (set_term i TermRunning st)"
      then show ?thesis
        using begun(1) [of ne d] by (simp add: terminating_def)
    next
      let ?b1 = "foldl install b (step_installs (env i))"
      fix d s
      define st1 where "st1 = emit (Terminate i ne d) (set_term i TermRunning st)"
      assume s: "s \<notin> {TermNotStarted, TermBudgetExhausted, TermRunning}"
        and "terminate_from p env dl i (?b1, set_term i s (emit (Terminate i ne d) (set_term i TermRunning st)))
          = ((b', st'), f)"
      then have rest: "terminate_from p env dl i (?b1, set_term i s st1) = ((b', st'), f)"
        by (simp add: st1_def)
      have l1: "ledger st1 = (ledger st)[i := (ledger st ! i)\<lparr>term_state := TermRunning\<rparr>]"
        by (simp add: st1_def)
      have "terminating p i (set_term i s st1)"
        using begun [of ne d, folded st1_def] s i by (intro terminating_end) (simp_all add: l1)
      moreover have "ledger (set_term i s st1) = (ledger st)[i := (ledger st ! i)\<lparr>term_state := s\<rparr>]"
        using i by (simp add: l1)
      ultimately show ?thesis
        using Suc.IH [OF _ _ _ rest] i Suc.prems(2) s
        by (simp add: no_hook_running_set)
    qed (use Suc.prems(1) in \<open>auto simp: terminating_def\<close>)
  qed
qed

text \<open>A call of \<open>close_resources\<close>: the deadline of the hooks it uses is the one it keeps.\<close>

lemma close_pass_split:
  assumes "close_pass p pass (ds, b, st) = ((ds', b', st'), f)"
  obtains hook where "termination_deadline ds' = Some hook"
    and "\<And>x. termination_deadline ds = Some x \<Longrightarrow> hook = x"
    and "ds = no_deadlines \<Longrightarrow> hook = hook_limit b (pass_deadline pass) (pass_now pass)"
    and "terminate_from p (pass_steps pass) hook (length (ledger st)) (b, ledger_update interrupt_exit st)
      = ((b', st'), f)"
proof -
  define ds1 where "ds1 = (if pass_taken_over pass then take_over (pass_deadline pass) ds else ds)"
  obtain ds2 hook where fixed: "fix_deadlines b pass ds1 = (ds2, hook)"
    by fastforce
  have run: "terminate_from p (pass_steps pass) hook (length (ledger st)) (b, ledger_update interrupt_exit st)
      = ((b', st'), f)" and ds': "ds' = ds2"
    using assms fixed [unfolded ds1_def]
    by (auto simp: close_pass_def terminate_recorded_def entered_def Let_def split: prod.splits)
  have "termination_deadline ds' = Some hook"
    using fixed by (auto simp: ds' fix_deadlines_def Let_def)
  moreover have "hook = x" if "termination_deadline ds = Some x" for x
    using that fixed by (auto simp: fix_deadlines_def Let_def ds1_def take_over_def split: if_splits)
  moreover have "hook = hook_limit b (pass_deadline pass) (pass_now pass)" if "ds = no_deadlines"
    using that fixed by (auto simp: fix_deadlines_def Let_def ds1_def take_over_def split: if_splits)
  ultimately show thesis
    using run that by blast
qed

lemma close_passes_deadline:
  "close_passes p passes (ds, b, st) = ((ds', b', st'), f) \<Longrightarrow> termination_deadline ds = Some x
    \<Longrightarrow> termination_deadline ds' = Some x"
proof (induction passes arbitrary: ds b st)
  case (Cons pass passes)
  obtain ds1 b1 st1 f1 where first: "close_pass p pass (ds, b, st) = ((ds1, b1, st1), f1)"
    by (metis surj_pair)
  have "termination_deadline ds1 = Some x"
    using close_pass_split [OF first] Cons.prems(2) by metis
  then show ?case
    using Cons.IH [of ds1 b1 st1] Cons.prems(1) first by (cases f1) simp_all
qed simp

text \<open>
  Induction over the passes: the first one is the last, or it is left pending and the others
  follow with the deadline it has fixed.
\<close>

lemma close_passes_step:
  assumes "close_passes p (pass # passes) (ds, b, st) = ((ds', b', st'), f)"
    and "termination_deadline ds' = Some dl"
  obtains ds1 b1 st1 f1 where
    "terminate_from p (pass_steps pass) dl (length (ledger st)) (b, ledger_update interrupt_exit st)
      = ((b1, st1), f1)"
    "termination_deadline ds1 = Some dl"
    "ds = no_deadlines \<Longrightarrow> dl = hook_limit b (pass_deadline pass) (pass_now pass)"
    "f1 = Pending \<and> close_passes p passes (ds1, b1, st1) = ((ds', b', st'), f)
      \<or> f1 = f \<and> b' = b1 \<and> st' = st1"
proof -
  obtain ds1 b1 st1 f1 where first: "close_pass p pass (ds, b, st) = ((ds1, b1, st1), f1)"
    by (metis surj_pair)
  obtain hook where hook: "termination_deadline ds1 = Some hook"
    "ds = no_deadlines \<Longrightarrow> hook = hook_limit b (pass_deadline pass) (pass_now pass)"
    "terminate_from p (pass_steps pass) hook (length (ledger st)) (b, ledger_update interrupt_exit st)
      = ((b1, st1), f1)"
    using close_pass_split [OF first] by metis
  have rest: "f1 = Pending \<and> close_passes p passes (ds1, b1, st1) = ((ds', b', st'), f)
      \<or> f1 = f \<and> ds' = ds1 \<and> b' = b1 \<and> st' = st1"
    using assms(1) first by (cases f1) simp_all
  then have "termination_deadline ds' = Some hook"
    using close_passes_deadline [OF _ hook(1)] hook(1) by auto
  then have "hook = dl"
    using assms(2) by simp
  then show thesis
    using that [of b1 st1 f1 ds1] hook rest by auto
qed

lemma close_passes_fixed:
  "close_passes p (pass # passes) c = ((ds', b', st'), f) \<Longrightarrow> \<exists>dl. termination_deadline ds' = Some dl"
proof -
  assume run: "close_passes p (pass # passes) c = ((ds', b', st'), f)"
  obtain ds1 b1 st1 f1 where first: "close_pass p pass c = ((ds1, b1, st1), f1)"
    by (metis surj_pair)
  then obtain hook where "termination_deadline ds1 = Some hook"
    by (cases c) (metis close_pass_split prod_cases3)
  then show ?thesis
    using run first close_passes_deadline [of p passes ds1 b1 st1 ds' b' st' f hook] by (cases f1) auto
qed

lemma interrupted_terminating:
  assumes "pipeline_ok p st" "st1 = ledger_update interrupt_exit st"
  shows "terminating p (length (ledger st)) st1" "no_hook_running (ledger st1)"
    "length (ledger st1) = length (ledger st)"
proof -
  have "pipeline_ok p st1"
    using assms ledger_ok_interrupt order_ok_interrupt by (simp add: pipeline_ok_def)
  moreover have "closed_above (length (ledger st)) (ledger st1)"
    using closed_above_length [of "ledger st1"] by (simp add: assms(2))
  ultimately show "terminating p (length (ledger st)) st1" "no_hook_running (ledger st1)"
    "length (ledger st1) = length (ledger st)"
    by (simp_all add: terminating_def interrupt_exit_stopped assms(2))
qed

lemma close_passes_ok:
  assumes "pipeline_ok p st" "close_passes p passes (ds, b, st) = ((ds', b', st'), f)"
  shows "pipeline_ok p st' \<and> length (ledger st') = length (ledger st)
    \<and> (f = Returned () \<longrightarrow> terminating p 0 st' \<and> no_hook_running (ledger st'))"
  using assms
proof (induction passes arbitrary: ds b st)
  case (Cons pass passes)
  obtain dl where dl: "termination_deadline ds' = Some dl"
    using close_passes_fixed [OF Cons.prems(2)] by blast
  obtain ds1 b1 st1 f1 where first: "terminate_from p (pass_steps pass) dl (length (ledger st))
        (b, ledger_update interrupt_exit st) = ((b1, st1), f1)"
    and rest: "f1 = Pending \<and> close_passes p passes (ds1, b1, st1) = ((ds', b', st'), f)
      \<or> f1 = f \<and> b' = b1 \<and> st' = st1"
    using close_passes_step [OF Cons.prems(2) dl] by metis
  have "pipeline_ok p st1 \<and> map normal (ledger st1) = map normal (interrupt_exit (ledger st))
      \<and> (f1 = Returned () \<longrightarrow> terminating p 0 st1 \<and> no_hook_running (ledger st1))"
    using terminate_from_ok [OF interrupted_terminating(1,2) [OF Cons.prems(1) refl] _ first] by simp
  moreover from this have "length (ledger st1) = length (ledger st)"
    by (metis interrupt_exit_length length_map)
  ultimately show ?case
    using rest Cons.IH [of st1 ds1 b1] by auto
qed simp

text \<open>
  One budget is tighter than another if every deadline it gives out is at most the other's.
\<close>

definition tighter :: "QueueShutdownBudget \<Rightarrow> QueueShutdownBudget \<Rightarrow> bool" where
  "tighter b' b \<longleftrightarrow> (\<forall>local. budget_cap b' local \<le> budget_cap b local)"

lemma tighter_refl [simp]: "tighter b b"
  by (simp add: tighter_def)

lemma tighter_trans: "tighter a b \<Longrightarrow> tighter b c \<Longrightarrow> tighter a c"
  unfolding tighter_def by (meson order_trans)

lemma tighter_installs: "tighter (foldl install b ds) b"
  by (simp add: tighter_def root.limit_foldl)

lemma tighter_both: "tighter b' b \<Longrightarrow> tighter (foldl install b' ds) (foldl install b ds)"
proof (induction ds arbitrary: b b')
  case (Cons d ds)
  then have "tighter (install b' d) (install b d)"
    by (simp add: tighter_def min.coboundedI1)
  then show ?case
    using Cons.IH by simp
qed simp

lemma tighter_more: "tighter b' b \<Longrightarrow> tighter (foldl install b' ds) b"
  using tighter_installs tighter_trans by blast

text \<open>
  The time of an entry had run out when a pass over \<open>n\<close> entries visited it: the clock had
  reached the deadline of the hooks, cut short by the root budgets that had been installed by
  then. Over several passes, in one of them.
\<close>

definition installed_until :: "(nat \<Rightarrow> cleanup_step) \<Rightarrow> nat \<Rightarrow> nat \<Rightarrow> QueueShutdownDeadlines list" where
  "installed_until env n i = concat (map (\<lambda>j. step_installs (env j)) (rev [i..<n]))"

definition late :: "(nat \<Rightarrow> cleanup_step) \<Rightarrow> nat \<Rightarrow> QueueShutdownBudget \<Rightarrow> Instant \<Rightarrow> nat \<Rightarrow> bool" where
  "late env n b dl i \<longleftrightarrow> budget_cap (foldl install b (installed_until env n i)) dl \<le> step_now (env i)"

fun ran_out :: "nat \<Rightarrow> Instant \<Rightarrow> nat \<Rightarrow> QueueShutdownBudget \<Rightarrow> cleanup_pass list \<Rightarrow> bool" where
  "ran_out n dl i b [] \<longleftrightarrow> False"
| "ran_out n dl i b (pass # passes) \<longleftrightarrow> late (pass_steps pass) n b dl i
     \<or> ran_out n dl i (foldl install b (installed_until (pass_steps pass) n 0)) passes"

lemma installed_until_Suc:
  "i \<le> n \<Longrightarrow> installed_until env (Suc n) i = step_installs (env n) @ installed_until env n i"
  by (simp add: installed_until_def)

lemma late_Suc:
  "i < n \<Longrightarrow> late env (Suc n) b dl i \<longleftrightarrow> late env n (foldl install b (step_installs (env n))) dl i"
  by (simp add: late_def installed_until_Suc)

lemma late_visited: "late env (Suc n) b dl n \<longleftrightarrow> budget_cap (foldl install b (step_installs (env n))) dl \<le> step_now (env n)"
  by (simp add: late_def installed_until_def)

abbreviation exhausted :: "pipeline_state \<Rightarrow> nat \<Rightarrow> bool" where
  "exhausted st i \<equiv> term_state (ledger st ! i) = TermBudgetExhausted"

lemma terminate_from_exhausted:
  assumes "tighter B b" "k \<le> length (ledger st)" "terminate_from p env dl k (b, st) = ((b', st'), f)"
  shows "tighter (foldl install B (installed_until env k 0)) b'
    \<and> (\<forall>j<length (ledger st). exhausted st' j \<longrightarrow> exhausted st j \<or> j < k \<and> late env k B dl j)"
  using assms
proof (induction k arbitrary: B b st)
  case 0
  then show ?case
    by (auto simp: installed_until_def)
next
  case (Suc i)
  define B1 where "B1 = foldl install B (step_installs (env i))"
  define b1 where "b1 = foldl install b (step_installs (env i))"
  have i: "i < length (ledger st)"
    using Suc.prems(2) by simp
  have B1: "tighter B1 b1" "tighter B1 b" "foldl install B (installed_until env (Suc i) 0)
      = foldl install B1 (installed_until env i 0)"
    using Suc.prems(1) by (simp_all add: B1_def b1_def tighter_both tighter_more installed_until_Suc)
  have lift: "tighter (foldl install B (installed_until env (Suc i) 0)) b'
      \<and> (\<forall>j<length (ledger st). exhausted st' j \<longrightarrow> exhausted st j \<or> j < Suc i \<and> late env (Suc i) B dl j)"
    if IH: "tighter (foldl install B1 (installed_until env i 0)) b'
        \<and> (\<forall>j<length (ledger st). exhausted st' j \<longrightarrow> exhausted st1 j \<or> j < i \<and> late env i B1 dl j)"
      and same: "\<forall>j<length (ledger st). exhausted st1 j \<longrightarrow> exhausted st j \<or> j = i \<and> late env (Suc i) B dl i"
    for st1
    using that by (auto simp: B1(3) late_Suc [of _ i env B dl, folded B1_def] less_Suc_eq)
  show ?case
  proof (cases "eligible_termination (ledger st) i")
    case None
    then show ?thesis
      using lift [of st] Suc.IH [OF B1(2), of st] Suc.prems by simp
  next
    case (Some ne)
    from terminate_round [OF Some i Suc.prems(3) b1_def] show ?thesis
    proof (elim disjE exE conjE)
      assume rest: "terminate_from p env dl i (b1, set_term i TermBudgetExhausted st) = ((b', st'), f)"
        and "budget_cap b1 dl \<le> step_now (env i)"
      then have "late env (Suc i) B dl i"
        using B1(1) order_trans unfolding late_visited B1_def [symmetric] tighter_def by blast
      then show ?thesis
        using lift [of "set_term i TermBudgetExhausted st"] Suc.IH [OF B1(1) _ rest] i
        by (simp add: nth_list_update)
    next
      assume "st' = st" "b' \<in> {b, b1}"
      then show ?thesis
        using B1 tighter_more by auto
    next
      fix d
      assume "st' = emit (Terminate i ne d) (set_term i TermRunning st)" "b' = b1"
      then show ?thesis
        using B1 tighter_more i by (auto simp: nth_list_update)
    next
      fix d s
      assume "s \<notin> {TermNotStarted, TermBudgetExhausted, TermRunning}"
        and rest: "terminate_from p env dl i (b1, set_term i s (emit (Terminate i ne d) (set_term i TermRunning st)))
          = ((b', st'), f)"
      then show ?thesis
        using lift [of "set_term i s (emit (Terminate i ne d) (set_term i TermRunning st))"]
          Suc.IH [OF B1(1) _ rest] i
        by (simp add: nth_list_update)
    qed (use B1 tighter_more in auto)
  qed
qed

lemma exhausted_interrupt [simp]:
  "i < length l \<Longrightarrow> term_state (interrupt_exit l ! i) = TermBudgetExhausted
    \<longleftrightarrow> term_state (l ! i) = TermBudgetExhausted"
  by (simp add: interrupt_exit_def interrupt_entry_def)

lemma close_passes_exhausted:
  assumes "pipeline_ok p st" "tighter B b" "close_passes p passes (ds, b, st) = ((ds', b', st'), f)"
    and "termination_deadline ds' = Some dl" "i < length (ledger st)" "exhausted st' i"
  shows "exhausted st i \<or> ran_out (length (ledger st)) dl i B passes"
  using assms(1-3,5)
proof (induction passes arbitrary: B ds b st)
  case Nil
  then show ?case
    using assms(6) by simp
next
  case (Cons pass passes)
  let ?n = "length (ledger st)"
  define B1 where "B1 = foldl install B (installed_until (pass_steps pass) ?n 0)"
  obtain ds1 b1 st1 f1 where first: "terminate_from p (pass_steps pass) dl ?n
        (b, ledger_update interrupt_exit st) = ((b1, st1), f1)"
    and rest: "f1 = Pending \<and> close_passes p passes (ds1, b1, st1) = ((ds', b', st'), f)
      \<or> f1 = f \<and> b' = b1 \<and> st' = st1"
    using close_passes_step [OF Cons.prems(3) assms(4)] by metis
  have pass: "tighter B1 b1" "exhausted st1 i \<Longrightarrow> exhausted st i \<or> late (pass_steps pass) ?n B dl i"
    using terminate_from_exhausted [OF Cons.prems(2) _ first] Cons.prems(4) by (simp_all add: B1_def)
  have st1: "pipeline_ok p st1" "length (ledger st1) = ?n"
    using terminate_from_ok [OF interrupted_terminating(1,2) [OF Cons.prems(1) refl] _ first]
    by (simp_all, metis interrupt_exit_length length_map)
  show ?case
    using rest pass Cons.IH [OF st1(1) pass(1), of ds1] assms(6) Cons.prems(4)
    by (auto simp: st1(2) B1_def)
qed

text \<open>The state of an entry once every hook has been visited.\<close>

definition entry_settled :: "MiddlewareEntry \<Rightarrow> bool \<Rightarrow> nat \<Rightarrow> nat \<Rightarrow> bool" where
  "entry_settled e out_of_time a t \<longleftrightarrow>
     (if normal e \<in> {ExitCompleted, ExitFailed} then a = 1 \<and> t = 0 \<and> term_state e = TermNotStarted
      else normal e \<in> {ExitNotStarted, ExitInterrupted, ExitPanicked}
        \<and> a = (if normal e = ExitNotStarted then 0 else 1)
        \<and> term_state e \<notin> {TermNotStarted, TermRunning}
        \<and> t = (if term_state e = TermBudgetExhausted then 0 else 1)
        \<and> (term_state e = TermBudgetExhausted \<longrightarrow> out_of_time))"

lemma terminating_settled:
  assumes "terminating p 0 st" "no_hook_running (ledger st)" "i < length (ledger st)"
    and "exhausted st i \<Longrightarrow> out_of_time"
  shows "entry_settled (ledger st ! i) out_of_time (afters i st) (terminates i st)"
proof -
  have "normal (ledger st ! i) \<noteq> ExitRunning" "term_state (ledger st ! i) \<noteq> TermRunning"
    "\<not> may_clean (ledger st ! i)"
    using assms by (simp_all add: terminating_def no_exit_running_def no_hook_running_def closed_above_def)
  then show ?thesis
    using ledger_okD [OF _ assms(3)] assms(1,4)
    by (cases "normal (ledger st ! i)")
      (auto simp: terminating_def pipeline_ok_def entry_ok_def entry_settled_def may_clean_def unfinished_def)
qed

text \<open>
  C29. Every entered middleware is cleaned up at most once, in reverse order, and is left out
  only if its time was over. Whatever the hooks do (return, fail, panic or hang until the
  execution is dropped) and however often the cleanup itself is dropped and taken over, when a
  cleanup pass returns: the entered middlewares are the longest prefix whose entry hooks
  succeeded; each of them either finished its normal exit, which was started once, and got no
  termination hook, or did not finish it and got exactly one termination hook, unless the clock
  had reached the deadline of the hooks (the one the first pass fixed, cut short by the root
  budgets installed by then) when a pass visited it, in which case it is marked as exhausted
  and got none; a middleware that was not entered got neither; and the sequence of all exits
  and termination hooks goes from the innermost middleware outwards.
\<close>

theorem middleware_cleanup_exact:
  assumes "run_pipeline p service handler start = (st, f)"
    and "close_passes p passes (no_deadlines, b, st) = ((ds, b', st'), Returned ())"
  shows "entered (ledger st') = length (takeWhile (\<lambda>m. before m = HookReturns (Ok ())) (middlewares p))
    \<and> (\<exists>dl. termination_deadline ds = Some dl
        \<and> (\<forall>i. if i < entered (ledger st')
            then entry_settled (ledger st' ! i) (ran_out (entered (ledger st')) dl i b passes)
              (afters i st') (terminates i st')
            else afters i st' = 0 \<and> terminates i st' = 0))
    \<and> sorted_wrt (\<ge>) (cleanups st')"
proof -
  have executed: "executed_ok p st f"
    by (rule run_pipeline_ok [OF assms(1)])
  then have closed: "terminating p 0 st'" "no_hook_running (ledger st')" "pipeline_ok p st"
    "length (ledger st') = length (takeWhile enters (middlewares p))" "length (ledger st) = length (ledger st')"
    using close_passes_ok [OF _ assms(2)] by (simp_all add: executed_ok_def)
  obtain dl where dl: "termination_deadline ds = Some dl"
    using assms(2) close_passes_fixed by (cases passes) (simp, blast)
  have "\<not> exhausted st i" if "i < length (ledger st)" for i
    using executed that by (simp add: executed_ok_def untouched_def)
  then have "ran_out (entered (ledger st')) dl i b passes" if "i < length (ledger st')" "exhausted st' i" for i
    using close_passes_exhausted [OF closed(3) tighter_refl assms(2) dl, of i] that
    by (simp add: closed(5) entered_def)
  note settled = terminating_settled [OF closed(1,2) _ this]
  have "ledger_ok st'" "sorted_wrt (\<ge>) (cleanups st')"
    using closed(1) by (simp_all add: terminating_def pipeline_ok_def order_ok_def)
  then show ?thesis
    using settled closed(4) dl by (simp add: entered_def ledger_ok_def)
qed

definition demo_pipeline :: CompiledQueuePipeline where
  "demo_pipeline = \<lparr>middlewares =
     [\<lparr>before = HookReturns (Ok ()), after = (\<lambda>_. HookReturns (Ok ()))\<rparr>,
      \<lparr>before = HookReturns (Ok ()), after = (\<lambda>_. HookPanics)\<rparr>,
      \<lparr>before = HookReturns (Ok ()), after = (\<lambda>_. HookReturns (Ok ()))\<rparr>],
     guards = [HookReturns (Ok ())]\<rparr>"

abbreviation demo_env :: "nat \<Rightarrow> cleanup_step" where
  "demo_env \<equiv> (\<lambda>_. \<lparr>step_installs = [], step_now = 0, step_race = HookWins (Ok (Ok ())),
     step_drop_panics = False\<rparr>)"

abbreviation demo_pass :: cleanup_pass where
  "demo_pass \<equiv> \<lparr>pass_deadline = 400, pass_taken_over = False, pass_now = 0, pass_steps = demo_env\<rparr>"

lemmas pipeline_eval = run_pipeline_def enter_recorded_def evaluate_guards_def
  resolve_handler_service_def run_handler_def unwind_recorded_def entered_def emit_def
  record_enter_def begin_exit_def finish_exit_def panicked_exit_def close_pass_def
  terminate_recorded_def interrupt_exit_def interrupt_entry_def eligible_termination_def
  termination_state_def hook_deadline_def remaining_hooks_def

lemma demo_run:
  "fst (run_pipeline demo_pipeline Resolved (HookReturns (Ok ())) start)
    = \<lparr>ledger = [fresh_entry, fresh_entry\<lparr>normal := ExitPanicked\<rparr>, fresh_entry\<lparr>normal := ExitCompleted\<rparr>],
       events = [Before 0, Before 1, Before 2, Guard 0, Resolve, Handler,
         After 2 OutcomeSucceeded, After 1 OutcomeSucceeded]\<rparr>"
  by (simp add: demo_pipeline_def pipeline_eval)

lemma demo_limit: "hook_limit default_budget 400 0 = 300"
  by (simp add: hook_limit_def default_budget_def budget_cap_def instant_defs)

lemma demo_close:
  "close_passes demo_pipeline [demo_pass]
    (no_deadlines, default_budget, fst (run_pipeline demo_pipeline Resolved (HookReturns (Ok ())) start))
    = ((\<lparr>cleanup_deadline = Some 400, termination_deadline = Some 300\<rparr>, default_budget,
        \<lparr>ledger = [fresh_entry\<lparr>term_state := TermCompleted\<rparr>,
          fresh_entry\<lparr>normal := ExitPanicked, term_state := TermCompleted\<rparr>,
          fresh_entry\<lparr>normal := ExitCompleted\<rparr>],
        events = [Before 0, Before 1, Before 2, Guard 0, Resolve, Handler,
          After 2 OutcomeSucceeded, After 1 OutcomeSucceeded,
          Terminate 1 NormalPanicked 150, Terminate 0 NormalNotStarted 300]\<rparr>), Returned ())"
proof -
  have "fix_deadlines default_budget demo_pass no_deadlines
      = (\<lparr>cleanup_deadline = Some 400, termination_deadline = Some 300\<rparr>, 300)"
    by (simp add: fix_deadlines_def demo_limit)
  then show ?thesis
    unfolding demo_run
    by (simp add: demo_pipeline_def pipeline_eval default_budget_def budget_cap_def instant_defs;
        simp flip: numeral_2_eq_2)
qed

theorem middleware_cleanup_exact_witness:
  "\<exists>st f ds b' st'. run_pipeline demo_pipeline Resolved (HookReturns (Ok ())) start = (st, f)
    \<and> close_passes demo_pipeline [demo_pass] (no_deadlines, default_budget, st) = ((ds, b', st'), Returned ())
    \<and> cleanups st' = [2, 1, 1, 0] \<and> entered (ledger st') = 3"
proof -
  obtain st f where run: "run_pipeline demo_pipeline Resolved (HookReturns (Ok ())) start = (st, f)"
    by fastforce
  obtain ds b' st' where close: "close_passes demo_pipeline [demo_pass] (no_deadlines, default_budget, st)
      = ((ds, b', st'), Returned ())"
    and "cleanups st' = [2, 1, 1, 0]"
    using demo_close by (simp add: run cleanups_def List.map_filter_def)
  moreover have "entered (ledger st') = 3"
    using middleware_cleanup_exact [OF run close] by (simp add: demo_pipeline_def)
  ultimately show ?thesis
    using run by blast
qed

section \<open>The result of the pipeline\<close>

text \<open>A failure that is present when the unwind starts is the one it returns.\<close>

lemma unwind_from_Err: "unwind_from p k (Err e) st = (st', Returned r) \<Longrightarrow> r = Err e"
proof (induction k arbitrary: st)
  case (Suc i)
  obtain l begun where b: "begin_exit (ledger st) i = (l, begun)"
    by fastforce
  show ?case
    using Suc.prems Suc.IH
    by (cases "run_normal_hook (after (middlewares p ! i) (delivery_outcome (Err e)))")
      (auto simp: b Let_def split: if_splits sum.splits option.splits)
qed auto

text \<open>An unwind that starts with success succeeds exactly if every exit does.\<close>

lemma unwind_from_Ok:
  assumes "\<forall>i<k. ledger st ! i = fresh_entry" "k \<le> length (ledger st)" "k \<le> length (middlewares p)"
  shows "snd (unwind_from p k (Ok ()) st) = Returned (Ok ())
    \<longleftrightarrow> (\<forall>i<k. after (middlewares p ! i) OutcomeSucceeded = HookReturns (Ok ()))"
  using assms
proof (induction k arbitrary: st)
  case (Suc i)
  define run where "run = fresh_entry\<lparr>normal := ExitRunning\<rparr>"
  have i: "i < length (ledger st)" "ledger st ! i = fresh_entry" "i < length (middlewares p)"
    using Suc.prems by simp_all
  have begun: "begin_exit (ledger st) i = ((ledger st)[i := run], True)"
    using i by (simp add: begin_exit_def run_def)
  have fin: "finish_exit ((ledger st)[i := run]) i b
      = Some ((ledger st)[i := run\<lparr>normal := (if b then ExitCompleted else ExitFailed)\<rparr>])" for b
    using i by (simp add: finish_exit_def run_def)
  show ?case
  proof (cases "after (middlewares p ! i) OutcomeSucceeded" rule: hook_cases)
    case 1
    define st2 where "st2 = (emit (After i OutcomeSucceeded) st)\<lparr>ledger := (ledger st)[i := run\<lparr>normal := ExitCompleted\<rparr>]\<rparr>"
    have "unwind_from p (Suc i) (Ok ()) st = unwind_from p i (Ok ()) st2"
      using i 1 fin by (simp add: begun Let_def st2_def emit_def)
    moreover have "\<forall>j<i. ledger st2 ! j = fresh_entry" "i \<le> length (ledger st2)"
      using Suc.prems by (simp_all add: st2_def)
    ultimately show ?thesis
      using Suc.IH [of st2] Suc.prems(3) 1 by (simp add: less_Suc_eq all_conj_distrib imp_conjR)
  next
    case (2 e)
    have "snd (unwind_from p (Suc i) (Ok ()) st) \<noteq> Returned (Ok ())"
      using i 2 fin unwind_from_Err [of p i e] by (auto simp: begun Let_def emit_def)
        (metis prod.collapse sum.distinct(1))
    then show ?thesis
      using 2 by auto
  next
    case 3
    then show ?thesis
      using i by (auto simp: begun Let_def panicked_exit_def)
  next
    case 4
    then show ?thesis
      using i by (auto simp: begun Let_def)
  qed
qed simp

lemma unwind_recorded_Err: "snd (unwind_recorded p (Err e) st) = Returned r \<Longrightarrow> r = Err e"
  unfolding unwind_recorded_def by (metis prod.collapse unwind_from_Err)

lemma unwind_recorded_Ok:
  assumes "entered_ok p st" "list_all enters (middlewares p)"
  shows "snd (unwind_recorded p (Ok ()) st) = Returned (Ok ())
    \<longleftrightarrow> list_all (\<lambda>m. after m OutcomeSucceeded = HookReturns (Ok ())) (middlewares p)"
proof -
  have all: "takeWhile enters (middlewares p) = middlewares p"
    using assms(2) by (simp add: list_all_iff)
  have "ledger st = replicate (length (middlewares p)) fresh_entry"
    using assms(1) by (simp only: entered_ok_def all)
  then show ?thesis
    using unwind_from_Ok [of "length (middlewares p)" st p]
    by (simp add: unwind_recorded_def entered_def list_all_length)
qed

text \<open>
  One stage of the execution: it succeeds and the rest follows, it fails and only the unwind
  follows, or the execution stops in it.
\<close>

lemma flow_cases:
  "f \<noteq> Unwinding \<Longrightarrow> f = Returned (Ok ()) \<or> (\<exists>e. f = Returned (Err e)) \<or> f = Pending"
  by (cases f rule: flow.exhaust; metis old.sum.exhaust old.unit.exhaust)

lemma stage_result:
  assumes "stage = (st1, f1)" "f1 \<noteq> Unwinding" "f1 = Returned (Ok ()) \<longleftrightarrow> good"
    and "\<And>e st. g (Err e) st = unwind_recorded p (Err e) st"
  shows "snd (and_await stage g) = Returned (Ok ()) \<longleftrightarrow> good \<and> snd (g (Ok ()) st1) = Returned (Ok ())"
    and "\<not> good \<Longrightarrow> f1 = Returned r \<Longrightarrow> snd (and_await stage g) = Returned r' \<Longrightarrow> r' = r"
    and "good \<Longrightarrow> and_await stage g = g (Ok ()) st1"
proof -
  note cases = flow_cases [OF assms(2)]
  show "snd (and_await stage g) = Returned (Ok ()) \<longleftrightarrow> good \<and> snd (g (Ok ()) st1) = Returned (Ok ())"
    using cases by (elim disjE exE) (use assms unwind_recorded_Err [of p _ st1 "Ok ()"] in auto)
  show "r' = r" if "\<not> good" "f1 = Returned r" "snd (and_await stage g) = Returned r'"
    using cases by (elim disjE exE) (use that assms unwind_recorded_Err [of p _ st1 r'] in auto)
  show "and_await stage g = g (Ok ()) st1" if "good"
    using that assms by simp
qed

lemma run_handler_result:
  assumes "entered_ok p st" "list_all enters (middlewares p)"
  shows "snd (and_await (run_handler h st) (unwind_recorded p)) = Returned (Ok ())
      \<longleftrightarrow> h = HookReturns (Ok ())
        \<and> list_all (\<lambda>m. after m OutcomeSucceeded = HookReturns (Ok ())) (middlewares p)"
    and "h = HookReturns (Err e) \<Longrightarrow> snd (and_await (run_handler h st) (unwind_recorded p)) \<in> {Pending, Returned (Err e)}"
proof -
  obtain st1 f1 where run: "run_handler h st = (st1, f1)"
    by fastforce
  have st1: "entered_ok p st1" "f1 \<noteq> Unwinding" "f1 = Returned (Ok ()) \<longleftrightarrow> h = HookReturns (Ok ())"
    using run_handler_ledger [OF _ run] assms(1) by (simp_all add: entered_ok_def)
  show "snd (and_await (run_handler h st) (unwind_recorded p)) = Returned (Ok ())
      \<longleftrightarrow> h = HookReturns (Ok ())
        \<and> list_all (\<lambda>m. after m OutcomeSucceeded = HookReturns (Ok ())) (middlewares p)"
    using stage_result(1) [OF run st1(2,3), of "unwind_recorded p" p] unwind_recorded_Ok [OF st1(1) assms(2)]
    by simp
  assume "h = HookReturns (Err e)"
  then have f1: "f1 = Returned (Err e)"
    using run by (auto simp: run_handler_def)
  moreover have "snd (unwind_recorded p (Err e) st1) \<noteq> Unwinding"
    using unwind_recorded_ok [OF st1(1)] by (metis prod.collapse)
  ultimately show "snd (and_await (run_handler h st) (unwind_recorded p)) \<in> {Pending, Returned (Err e)}"
    using run unwind_recorded_Err [of p e st1] by (cases "snd (unwind_recorded p (Err e) st1)") auto
qed

text \<open>
  C30. The pipeline keeps the primary failure and never reports success for a delivery that
  did not succeed: it returns success exactly if every entry hook, every guard, the resolution
  of the handler's service, the handler and every exit hook succeed; and if the handler fails
  after all of the earlier steps succeeded, the result is the handler's own failure, whatever
  the exits do, unless the execution is dropped while an exit is pending.
\<close>

theorem pipeline_result:
  "(snd (run_pipeline p service handler start) = Returned (Ok ())
     \<longleftrightarrow> list_all (\<lambda>m. before m = HookReturns (Ok ())) (middlewares p)
       \<and> list_all (\<lambda>g. g = HookReturns (Ok ())) (guards p)
       \<and> service = Resolved \<and> handler = HookReturns (Ok ())
       \<and> list_all (\<lambda>m. after m OutcomeSucceeded = HookReturns (Ok ())) (middlewares p))
   \<and> (list_all (\<lambda>m. before m = HookReturns (Ok ())) (middlewares p)
       \<and> list_all (\<lambda>g. g = HookReturns (Ok ())) (guards p)
       \<and> service = Resolved \<and> handler = HookReturns (Err e)
     \<longrightarrow> snd (run_pipeline p service handler start) \<in> {Pending, Returned (Err e)})"
proof -
  define handle where "handle = (\<lambda>r st. and_await
    (if isl r then (st, Returned r) else run_handler handler st) (unwind_recorded p))"
  define resolve where "resolve = (\<lambda>r st. and_await
    (if isl r then (st, Returned r) else resolve_handler_service service st) handle)"
  define guard where "guard = (\<lambda>r st. and_await
    (if isl r then (st, Returned r) else evaluate_guards p st) resolve)"
  obtain st1 f1 where enter: "enter_recorded p start = (st1, f1)"
    by fastforce
  obtain st2 f2 where guards: "evaluate_guards p st1 = (st2, f2)"
    by fastforce
  obtain st3 f3 where service: "resolve_handler_service service st2 = (st3, f3)"
    by fastforce
  note e = entered_ok_enter [OF enter]
  have g: "entered_ok p st2" "f2 \<noteq> Unwinding" "f2 = Returned (Ok ()) \<longleftrightarrow> list_all (\<lambda>g. g = HookReturns (Ok ())) (guards p)"
    using guards_from_ledger [OF _ guards [unfolded evaluate_guards_def]] e by (simp_all add: entered_ok_def)
  have s: "entered_ok p st3" "f3 \<noteq> Unwinding" "f3 = Returned (Ok ()) \<longleftrightarrow> service = Resolved"
    using resolve_ledger [OF _ service] g(1) by (simp_all add: entered_ok_def)
  have errs: "handle (Err x) st = unwind_recorded p (Err x) st" "resolve (Err x) st = unwind_recorded p (Err x) st"
    "guard (Err x) st = unwind_recorded p (Err x) st" for x st
    by (simp_all add: handle_def resolve_def guard_def)
  have run: "run_pipeline p service handler start = and_await (enter_recorded p start) guard"
    by (simp add: run_pipeline_def guard_def resolve_def handle_def)
  have stages: "guard (Ok ()) st1 = and_await (st2, f2) resolve" "resolve (Ok ()) st2 = and_await (st3, f3) handle"
    "handle (Ok ()) st3 = and_await (run_handler handler st3) (unwind_recorded p)"
    by (simp_all add: guard_def resolve_def handle_def guards service)
  have e': "f1 \<noteq> Unwinding" "f1 = Returned (Ok ()) \<longleftrightarrow> list_all enters (middlewares p)"
    using e by auto
  note ok1 = stage_result(1,3) [OF refl e' errs(3)]
    and ok2 = stage_result(1,3) [OF refl g(2,3) errs(2), of st2]
    and ok3 = stage_result(1,3) [OF refl s(2,3) errs(1), of st3]
  note handled = run_handler_result [OF s(1), of handler]
  show ?thesis
    unfolding run enter using ok1 [of st1] ok2 ok3 stages handled by auto
qed

theorem pipeline_result_witness:
  "snd (run_pipeline (demo_pipeline\<lparr>middlewares := []\<rparr>) Resolved (HookReturns (Err (retryable ''E''))) start)
     \<in> {Pending, Returned (Err (retryable ''E''))}"
  using pipeline_result [of "demo_pipeline\<lparr>middlewares := []\<rparr>" Resolved
      "HookReturns (Err (retryable ''E''))" "retryable ''E''"]
  by (simp add: demo_pipeline_def)

section \<open>The slots of the termination hooks\<close>

definition budget_in_range :: "QueueShutdownBudget \<Rightarrow> bool" where
  "budget_in_range b \<longleftrightarrow> (case installed b of None \<Rightarrow> True | Some d \<Rightarrow> instant_in_range (hard d))"

definition step_in_range :: "cleanup_step \<Rightarrow> bool" where
  "step_in_range s \<longleftrightarrow> instant_in_range (step_now s) \<and> list_all (\<lambda>d. instant_in_range (hard d)) (step_installs s)"

lemma instant_in_range_min: "instant_in_range a \<Longrightarrow> instant_in_range b \<Longrightarrow> instant_in_range (min a b)"
  by (simp add: min_def)

lemma budget_in_range_install:
  "budget_in_range b \<Longrightarrow> instant_in_range (hard d) \<Longrightarrow> budget_in_range (install b d)"
  by (auto simp: budget_in_range_def install_def deadlines_before_def instant_in_range_min split: option.splits)

lemma budget_in_range_foldl:
  "budget_in_range b \<Longrightarrow> list_all (\<lambda>d. instant_in_range (hard d)) ds \<Longrightarrow> budget_in_range (foldl install b ds)"
  by (induction ds arbitrary: b) (simp_all add: budget_in_range_install)

lemma budget_cap_in_range: "budget_in_range b \<Longrightarrow> instant_in_range i \<Longrightarrow> instant_in_range (budget_cap b i)"
  by (auto simp: budget_in_range_def budget_cap_def deadlines_cap_def instant_in_range_min split: option.splits)

text \<open>
  The number of middlewares up to an entry whose normal exit did not finish: at the visit of
  an eligible entry these are the hooks still to be run, as nothing below it was terminated.
\<close>

definition unfinished_upto :: "ledger \<Rightarrow> nat \<Rightarrow> nat" where
  "unfinished_upto l i = length (filter unfinished (take (Suc i) (map normal l)))"

definition inner_first :: "ledger \<Rightarrow> bool" where
  "inner_first l \<longleftrightarrow>
     (\<forall>i<length l. may_clean (l ! i) \<longrightarrow> (\<forall>j<i. term_state (l ! j) = TermNotStarted))"

lemma inner_first_untouched: "untouched st \<Longrightarrow> inner_first (ledger st)"
  by (simp add: inner_first_def untouched_def)

lemma inner_first_interrupt: "inner_first l \<Longrightarrow> inner_first (interrupt_exit l)"
  by (simp add: inner_first_def interrupt_exit_def) (simp add: interrupt_entry_def)

lemma inner_first_set:
  assumes "inner_first l" "closed_above (Suc i) l" "s \<noteq> TermNotStarted"
  shows "inner_first (l[i := (l ! i)\<lparr>term_state := s\<rparr>])"
  unfolding inner_first_def
proof (intro allI impI)
  fix k j
  assume k: "k < length (l[i := (l ! i)\<lparr>term_state := s\<rparr>])" "may_clean (l[i := (l ! i)\<lparr>term_state := s\<rparr>] ! k)"
    and "j < k"
  have "k \<noteq> i"
    using k assms(3) by (auto simp: may_clean_def)
  then have "may_clean (l ! k)"
    using k by simp
  then have "k < i"
    using k(1) \<open>k \<noteq> i\<close> assms(2) by (cases k i rule: linorder_cases) (auto simp: closed_above_def)
  then show "term_state (l[i := (l ! i)\<lparr>term_state := s\<rparr>] ! j) = TermNotStarted"
    using assms(1) k(1) \<open>j < k\<close> \<open>may_clean (l ! k)\<close> by (simp add: inner_first_def)
qed

lemma remaining_hooks_unfinished:
  assumes "no_exit_running l" "inner_first l" "i < length l" "may_clean (l ! i)"
  shows "remaining_hooks l i = unfinished_upto l i"
proof -
  have same: "eligible_termination l j \<noteq> None \<longleftrightarrow> unfinished (normal (l ! j))" if "j \<in> set [0..<Suc i]" for j
  proof -
    have j: "j < length l" "term_state (l ! j) = TermNotStarted" "normal (l ! j) \<noteq> ExitRunning"
      using assms that by (auto simp: inner_first_def may_clean_def less_Suc_eq no_exit_running_def)
    then show ?thesis
      using eligible_iff [OF assms(1) j(1)]
      by (cases "normal (l ! j)") (simp_all add: may_clean_def unfinished_def)
  qed
  have "take (Suc i) (map normal l) = map (\<lambda>j. normal (l ! j)) [0..<Suc i]"
    using assms(3) by (intro nth_equalityI) (simp_all del: upt_Suc)
  then have "unfinished_upto l i = length (filter (\<lambda>j. unfinished (normal (l ! j))) [0..<Suc i])"
    by (simp only: unfinished_upto_def filter_map length_map comp_def)
  also have "\<dots> = remaining_hooks l i"
    unfolding remaining_hooks_def by (rule arg_cong [where f = length], rule filter_cong) (simp_all only: same)
  finally show ?thesis
    by simp
qed

lemma unfinished_upto_cong: "map normal l = map normal l' \<Longrightarrow> unfinished_upto l i = unfinished_upto l' i"
  by (simp add: unfinished_upto_def)

text \<open>
  The slot of a hook: it starts at the visit, lasts the fair share of the time that is left
  (with a limit between \<open>lo\<close> and \<open>hi\<close>), and does not reach past the limit.
\<close>

fun slot_ok :: "ledger \<Rightarrow> Instant \<Rightarrow> Instant \<Rightarrow> (nat \<Rightarrow> cleanup_step) \<Rightarrow> pipeline_event \<Rightarrow> bool" where
  "slot_ok l lo hi env (Terminate i _ d) \<longleftrightarrow>
     (let now = step_now (env i); n = int (min (unfinished_upto l i) (2 ^ 32 - 1))
      in 0 < n \<and> now \<le> d \<and> d \<le> hi \<and> now + (lo - now) div n \<le> d \<and> d \<le> now + (hi - now) div n)"
| "slot_ok l lo hi env _ \<longleftrightarrow> False"

lemma slot_ok_mono:
  "slot_ok l lo hi env e \<Longrightarrow> lo' \<le> lo \<Longrightarrow> hi \<le> hi' \<Longrightarrow> map normal l' = map normal l
    \<Longrightarrow> slot_ok l' lo' hi' env e"
proof (induction l lo hi env e rule: slot_ok.induct)
  case (1 l lo hi env i ne d)
  define now where "now = step_now (env i)"
  define n where "n = int (min (unfinished_upto l i) (2 ^ 32 - 1))"
  have slot: "0 < n" "now \<le> d" "d \<le> hi" "now + (lo - now) div n \<le> d" "d \<le> now + (hi - now) div n"
    using "1.prems"(1) by (simp_all add: Let_def now_def n_def)
  have "(lo' - now) div n \<le> (lo - now) div n" "(hi - now) div n \<le> (hi' - now) div n"
    using "1.prems"(2,3) slot(1) by (simp_all add: zdiv_mono1)
  then have "0 < n \<and> now \<le> d \<and> d \<le> hi' \<and> now + (lo' - now) div n \<le> d \<and> d \<le> now + (hi' - now) div n"
    using slot "1.prems"(3) by linarith
  then show ?case
    using unfinished_upto_cong [OF "1.prems"(4)] by (simp add: Let_def now_def n_def)
qed simp_all

lemma hook_deadline_share:
  assumes "now < h" "instant_in_range now" "instant_in_range h" "1 \<le> r"
    and n: "n = int (min r (2 ^ 32 - 1))"
  shows "hook_deadline now h r = Some (now + (h - now) div n)"
    and "0 < n" "now \<le> now + (h - now) div n" "now + (h - now) div n \<le> h"
proof -
  have capped: "(if r < 2 ^ 32 then r else 2 ^ 32 - 1) = min r (2 ^ 32 - 1)"
    by (simp add: min_def)
  have share: "int (nat (h - now) div min r (2 ^ 32 - 1)) = (h - now) div n"
    using assms(1) by (simp add: n zdiv_int)
  show "0 < n"
    using assms(4) by (simp add: n)
  then have "0 \<le> (h - now) div n" "(h - now) div n \<le> h - now"
    using assms(1) zdiv_mono2 [of "h - now" 1 n] by (simp_all add: pos_imp_zdiv_nonneg_iff)
  then show bounds: "now \<le> now + (h - now) div n" "now + (h - now) div n \<le> h"
    by simp_all
  then have "instant_in_range (now + (h - now) div n)"
    using assms(2,3) by (simp add: instant_in_range_def)
  then show "hook_deadline now h r = Some (now + (h - now) div n)"
    using assms(4) share
    by (simp only: hook_deadline_def capped instant_checked_add_def saturating_duration_since_def)
      simp
qed

text \<open>What a pass needs of the state it starts from, at any round of its loop.\<close>

definition slots_inv :: "CompiledQueuePipeline \<Rightarrow> nat \<Rightarrow> QueueShutdownBudget \<Rightarrow> ledger \<Rightarrow> bool" where
  "slots_inv p k b l \<longleftrightarrow> budget_in_range b \<and> k \<le> length l \<and> length l \<le> length (middlewares p)
     \<and> no_exit_running l \<and> closed_above k l \<and> inner_first l"

lemma slots_inv_set:
  assumes "slots_inv p (Suc i) b l" "budget_in_range b'" "s \<noteq> TermNotStarted"
  shows "slots_inv p i b' (l[i := (l ! i)\<lparr>term_state := s\<rparr>])"
proof -
  have "i < length l" "closed_above (Suc i) l" "\<not> may_clean ((l ! i)\<lparr>term_state := s\<rparr>)"
    using assms by (simp_all add: slots_inv_def may_clean_def)
  then show ?thesis
    using assms by (simp add: slots_inv_def no_exit_running_set closed_above_update inner_first_set)
qed

definition slots_result ::
    "(nat \<Rightarrow> cleanup_step) \<Rightarrow> Instant \<Rightarrow> QueueShutdownBudget \<times> pipeline_state
      \<Rightarrow> QueueShutdownBudget \<times> pipeline_state \<Rightarrow> unit flow \<Rightarrow> bool" where
  "slots_result env dl bst bst' f \<longleftrightarrow> f \<noteq> Unwinding \<and> budget_in_range (fst bst') \<and> tighter (fst bst') (fst bst)
     \<and> inner_first (ledger (snd bst')) \<and> map normal (ledger (snd bst')) = map normal (ledger (snd bst))
     \<and> (\<exists>new. events (snd bst') = events (snd bst) @ new
          \<and> list_all (slot_ok (ledger (snd bst)) (budget_cap (fst bst') dl) (budget_cap (fst bst) dl) env) new)"

lemma slots_result_step:
  assumes rest: "slots_result env dl (b1, st1) (b', st') f"
    and st1: "map normal (ledger st1) = map normal (ledger st)" "events st1 = events st @ evs" "tighter b1 b"
    and evs: "list_all (slot_ok (ledger st) (budget_cap b1 dl) (budget_cap b dl) env) evs"
  shows "slots_result env dl (b, st) (b', st') f"
proof -
  have lower: "budget_cap b' dl \<le> budget_cap b1 dl" "budget_cap b1 dl \<le> budget_cap b dl"
    using rest st1(3) by (simp_all add: slots_result_def tighter_def)
  obtain new where new: "events st' = events st1 @ new"
    "list_all (slot_ok (ledger st1) (budget_cap b' dl) (budget_cap b1 dl) env) new"
    using rest by (auto simp: slots_result_def)
  have "list_all (slot_ok (ledger st) (budget_cap b' dl) (budget_cap b dl) env) (evs @ new)"
    using evs new(2) slot_ok_mono [OF _ lower(1) order_refl refl] slot_ok_mono [OF _ order_refl lower(2) st1(1) [symmetric]]
    by (auto simp: list_all_iff)
  moreover have "tighter b' b"
    using rest st1(3) tighter_trans by (auto simp: slots_result_def)
  ultimately show ?thesis
    using rest new(1) st1 by (auto simp: slots_result_def)
qed

lemma terminate_from_slots:
  assumes "slots_inv p k b (ledger st)" "\<forall>i. step_in_range (env i)" "instant_in_range dl"
    and "terminate_from p env dl k (b, st) = ((b', st'), f)"
  shows "slots_result env dl (b, st) (b', st') f"
  using assms(1,4)
proof (induction k arbitrary: b st)
  case 0
  then show ?case
    by (auto simp: slots_result_def slots_inv_def)
next
  case (Suc i)
  define b1 where "b1 = foldl install b (step_installs (env i))"
  have b1: "budget_in_range b1" "tighter b1 b" "instant_in_range (budget_cap b1 dl)"
    using Suc.prems(1) assms(2,3) budget_in_range_foldl budget_cap_in_range
    by (simp_all add: b1_def step_in_range_def slots_inv_def tighter_installs)
  note inv = Suc.prems(1) [unfolded slots_inv_def]
  have i: "i < length (ledger st)" "i < length (middlewares p)"
    using inv by simp_all
  show ?case
  proof (cases "eligible_termination (ledger st) i")
    case None
    then have "slots_inv p i b (ledger st)"
      using inv closed_above_down eligible_iff [of "ledger st" i] by (simp add: slots_inv_def)
    then show ?thesis
      using Suc.IH [of b st] Suc.prems None by simp
  next
    case (Some ne)
    then have clean: "may_clean (ledger st ! i)" "1 \<le> remaining_hooks (ledger st) i"
      using eligible_iff [of "ledger st" i] inv i by (simp_all add: remaining_hooks_def)
    let ?h = "budget_cap b1 dl" and ?now = "step_now (env i)"
    have slot: "\<exists>d. hook_deadline ?now ?h (remaining_hooks (ledger st) i) = Some d
        \<and> slot_ok (ledger st) ?h (budget_cap b dl) env (Terminate i ne d)" if "?now < ?h"
    proof -
      note share = hook_deadline_share [OF that _ b1(3) clean(2) refl]
      have "slot_ok (ledger st) ?h ?h env (Terminate i ne
          (?now + (?h - ?now) div int (min (remaining_hooks (ledger st) i) (2 ^ 32 - 1))))"
        using share(2-4) assms(2) inv i clean
        by (simp add: Let_def step_in_range_def remaining_hooks_unfinished)
      then show ?thesis
        using share(1) assms(2) b1(2) slot_ok_mono [OF _ order_refl _ refl]
        by (auto simp: step_in_range_def tighter_def simp del: slot_ok.simps)
    qed
    from terminate_round [OF Some i(1) Suc.prems(2) b1_def] show ?thesis
    proof (elim disjE exE conjE)
      assume rest: "terminate_from p env dl i (b1, set_term i TermBudgetExhausted st) = ((b', st'), f)"
      have "slots_result env dl (b1, set_term i TermBudgetExhausted st) (b', st') f"
        using Suc.IH [OF _ rest] slots_inv_set [OF Suc.prems(1) b1(1)] by simp
      from slots_result_step [OF this _ _ b1(2), of st "[]"] show ?thesis
        by simp
    next
      fix d
      assume "f = Pending" "st' = emit (Terminate i ne d) (set_term i TermRunning st)" "b' = b1" "?now < ?h"
        "hook_deadline ?now ?h (remaining_hooks (ledger st) i) = Some d"
      then show ?thesis
        using slot inv b1 inner_first_set [of "ledger st" i TermRunning] by (simp add: slots_result_def del: slot_ok.simps)
    next
      fix d s
      let ?st1 = "set_term i s (emit (Terminate i ne d) (set_term i TermRunning st))"
      assume s: "s \<notin> {TermNotStarted, TermBudgetExhausted, TermRunning}"
        and rest: "terminate_from p env dl i (b1, ?st1) = ((b', st'), f)"
        and d: "?now < ?h" "hook_deadline ?now ?h (remaining_hooks (ledger st) i) = Some d"
      have "slots_result env dl (b1, ?st1) (b', st') f"
        using Suc.IH [OF _ rest] slots_inv_set [OF Suc.prems(1) b1(1), of s] s i by simp
      from slots_result_step [OF this _ _ b1(2), of st "[Terminate i ne d]"] show ?thesis
        using slot d i by (simp del: slot_ok.simps)
    qed (use i slot in auto)
  qed
qed

text \<open>The same over the passes of a cleanup that is dropped and taken over.\<close>

definition pass_in_range :: "cleanup_pass \<Rightarrow> bool" where
  "pass_in_range pass \<longleftrightarrow> instant_in_range (pass_deadline pass) \<and> (\<forall>i. step_in_range (pass_steps pass i))"

lemma no_exit_running_normal: "no_exit_running l \<longleftrightarrow> ExitRunning \<notin> set (map normal l)"
  by (force simp: no_exit_running_def)

lemma interrupt_exit_normal: "no_exit_running l \<Longrightarrow> map normal (interrupt_exit l) = map normal l"
  by (simp add: no_exit_running_def interrupt_exit_def interrupt_entry_def)

lemma close_passes_slots:
  assumes "budget_in_range b" "length (ledger st) \<le> length (middlewares p)" "inner_first (ledger st)"
    and "list_all pass_in_range passes" "close_passes p passes (ds, b, st) = ((ds', b', st'), f)"
    and dl: "termination_deadline ds' = Some dl" "instant_in_range dl"
  shows "f \<noteq> Unwinding \<and> tighter b' b
    \<and> (no_exit_running (ledger st) \<longrightarrow> map normal (ledger st') = map normal (ledger st))
    \<and> (\<exists>new. events st' = events st @ new \<and> list_all (\<lambda>e. \<exists>pass\<in>set passes.
        slot_ok (ledger st') (budget_cap b' dl) (budget_cap b dl) (pass_steps pass) e) new)"
  using assms(1-5)
proof (induction passes arbitrary: ds b st)
  case (Cons pass passes)
  let ?l = "interrupt_exit (ledger st)"
  obtain ds1 b1 st1 f1 where first: "terminate_from p (pass_steps pass) dl (length (ledger st))
        (b, ledger_update interrupt_exit st) = ((b1, st1), f1)"
    and rest: "f1 = Pending \<and> close_passes p passes (ds1, b1, st1) = ((ds', b', st'), f)
      \<or> f1 = f \<and> b' = b1 \<and> st' = st1"
    using close_passes_step [OF Cons.prems(5) dl(1)] by metis
  have "slots_inv p (length (ledger st)) b ?l"
    using Cons.prems(1-3) closed_above_length [of ?l]
    by (simp add: slots_inv_def inner_first_interrupt interrupt_exit_stopped)
  then have pass: "slots_result (pass_steps pass) dl (b, ledger_update interrupt_exit st) (b1, st1) f1"
    using Cons.prems(4) first dl(2) by (intro terminate_from_slots) (simp_all add: pass_in_range_def)
  then have st1: "f1 \<noteq> Unwinding" "tighter b1 b" "budget_in_range b1" "inner_first (ledger st1)"
    "map normal (ledger st1) = map normal ?l"
    by (simp_all add: slots_result_def)
  have stopped: "no_exit_running (ledger st1)"
    using interrupt_exit_stopped(1) [of "ledger st"] by (simp add: no_exit_running_normal st1(5))
  obtain new where new: "events st1 = events st @ new"
    "list_all (slot_ok (ledger st1) (budget_cap b1 dl) (budget_cap b dl) (pass_steps pass)) new"
    using pass st1(5) slot_ok_mono [OF _ order_refl order_refl st1(5)]
    by (auto simp: slots_result_def list_all_iff simp del: slot_ok.simps)
  show ?case
    using rest
  proof (elim disjE conjE)
    assume "f1 = f" "b' = b1" "st' = st1"
    then show ?thesis
      using st1 new interrupt_exit_normal by (auto simp: list_all_iff)
  next
    assume later: "close_passes p passes (ds1, b1, st1) = ((ds', b', st'), f)"
    have "length (ledger st1) \<le> length (middlewares p)"
      using Cons.prems(2) map_eq_imp_length_eq [OF st1(5)] by simp
    note IH = Cons.IH [OF st1(3) this st1(4) _ later]
    then have later: "f \<noteq> Unwinding" "tighter b' b1" "map normal (ledger st') = map normal (ledger st1)"
      using Cons.prems(4) stopped by simp_all
    have caps: "budget_cap b' dl \<le> budget_cap b1 dl" "budget_cap b1 dl \<le> budget_cap b dl"
      using later(2) st1(2) by (simp_all add: tighter_def)
    obtain new' where new': "events st' = events st1 @ new'" "list_all (\<lambda>e. \<exists>pass\<in>set passes.
        slot_ok (ledger st') (budget_cap b' dl) (budget_cap b1 dl) (pass_steps pass) e) new'"
      using IH Cons.prems(4) by auto
    have "list_all (\<lambda>e. \<exists>pass'\<in>set (pass # passes).
        slot_ok (ledger st') (budget_cap b' dl) (budget_cap b dl) (pass_steps pass') e) (new @ new')"
      using new(2) new'(2) slot_ok_mono [OF _ caps(1) order_refl later(3)]
        slot_ok_mono [OF _ order_refl caps(2) refl]
      unfolding list_all_iff by (metis UnE list.set_intros(1,2) set_append)
    moreover have "tighter b' b"
      using later(2) st1(2) tighter_trans by blast
    ultimately show ?thesis
      using later new(1) new'(1) st1(5) interrupt_exit_normal by auto
  qed
qed simp

lemma hook_limit_bounds:
  assumes "budget_in_range b" "instant_in_range deadline"
  shows "hook_limit b deadline now \<le> budget_cap b deadline" "instant_in_range (hook_limit b deadline now)"
  using budget_cap_in_range [OF assms]
  by (simp_all add: hook_limit_def Let_def instant_checked_sub_def)

text \<open>
  C31. The cleanup never panics, never overspends and shares its time fairly: for a ledger that
  a pipeline execution left behind, and clocks and deadlines in the range of the clock, no
  cleanup pass panics, however often the cleanup is dropped and taken over. The deadline of the
  hooks is fixed by the first pass, from the first pass's own deadline and the root budget; a
  takeover does not move it. Every termination hook, in any pass, gets a slot that begins at the
  time the hook is started, ends at that deadline at the latest, and is the fraction \<open>1/n\<close>
  (rounded down) of the time left, where \<open>n\<close> is the number of middlewares from this one
  outwards whose exit did not finish; root budgets installed while the cleanup runs can only
  shorten it, to no less than the same fraction under the final budget.
\<close>

theorem cleanup_slots_bounded:
  assumes "run_pipeline p service handler start = (st, f)"
    and "budget_in_range b" "list_all pass_in_range (pass # passes)"
    and "close_passes p (pass # passes) (no_deadlines, b, st) = ((ds, b', st'), g)"
    and "limit = hook_limit b (pass_deadline pass) (pass_now pass)"
  shows "g \<noteq> Unwinding \<and> termination_deadline ds = Some limit \<and> limit \<le> budget_cap b (pass_deadline pass)
    \<and> (\<exists>new. events st' = events st @ new \<and> list_all (\<lambda>e. \<exists>visit\<in>set (pass # passes).
        slot_ok (ledger st') (budget_cap b' limit) (budget_cap b limit) (pass_steps visit) e) new)"
proof -
  obtain dl where dl: "termination_deadline ds = Some dl"
    using close_passes_fixed [OF assms(4)] by blast
  then have limit: "dl = limit"
    using close_passes_step [OF assms(4) dl] assms(5) by metis
  have "instant_in_range dl" "limit \<le> budget_cap b (pass_deadline pass)"
    using hook_limit_bounds [OF assms(2)] assms(3) by (simp_all add: limit assms(5) pass_in_range_def)
  moreover have "length (ledger st) \<le> length (middlewares p)" "inner_first (ledger st)"
    using run_pipeline_ok [OF assms(1)] inner_first_untouched by (simp_all add: executed_ok_def pipeline_ok_def)
  ultimately show ?thesis
    using close_passes_slots [OF assms(2) _ _ assms(3,4) dl] dl limit by simp
qed

text \<open>A cleanup that is dropped in its first hook and taken over.\<close>

abbreviation demo_dropped :: cleanup_pass where
  "demo_dropped \<equiv> demo_pass\<lparr>pass_steps := (\<lambda>_. \<lparr>step_installs = [], step_now = 0,
     step_race = StillPending, step_drop_panics = False\<rparr>)\<rparr>"

theorem cleanup_slots_bounded_witness:
  "\<exists>st f ds b' st' g. run_pipeline demo_pipeline Resolved HookPanics start = (st, f)
    \<and> close_passes demo_pipeline [demo_dropped, demo_pass\<lparr>pass_taken_over := True\<rparr>]
        (no_deadlines, default_budget, st) = ((ds, b', st'), g)
    \<and> g \<noteq> Unwinding \<and> termination_deadline ds = Some 300"
proof -
  obtain st f where run: "run_pipeline demo_pipeline Resolved HookPanics start = (st, f)"
    by fastforce
  obtain ds b' st' g where close: "close_passes demo_pipeline [demo_dropped, demo_pass\<lparr>pass_taken_over := True\<rparr>]
      (no_deadlines, default_budget, st) = ((ds, b', st'), g)"
    by (metis surj_pair)
  have "budget_in_range default_budget"
    "list_all pass_in_range [demo_dropped, demo_pass\<lparr>pass_taken_over := True\<rparr>]"
    by (simp_all add: budget_in_range_def default_budget_def instant_in_range_def step_in_range_def pass_in_range_def)
  then have "g \<noteq> Unwinding \<and> termination_deadline ds = Some 300"
    using cleanup_slots_bounded [OF run _ _ close refl] by (simp add: demo_limit)
  then show ?thesis
    using run close by blast
qed

end
