(* ===== verification/Ws_Groups.thy ===== *)
theory Ws_Groups
  imports Lily_Prelude
begin

text \<open>
  Namespaces and rooms of the WebSocket runtime (\<open>lily_websocket/src/groups.rs\<close>, with the
  room-name check of \<open>request/body.rs\<close>). Every operation runs under the manager's lock, so it
  is a function on the table of namespaces that returns the operation's result and the new
  table. A \<open>HashSet\<close> is a set; the vectors that the lookups return list a set in no
  particular order and are modelled as that set. The name and the creation time of a room
  exist in test builds only.

  The component promises a membership relation. The refinement at the end shows that a
  sequence of operations, in whatever order the callers interleave, answers as the relation
  does.
\<close>

type_synonym Uuid = nat

section \<open>The table of namespaces\<close>

definition MAX_CANONICAL_ROOM_BYTES :: nat where
  "MAX_CANONICAL_ROOM_BYTES = 128"

definition is_canonical_route_token :: "string \<Rightarrow> nat \<Rightarrow> bool" where
  "is_canonical_route_token s max_len \<longleftrightarrow>
     s \<noteq> [] \<and> length s \<le> max_len
     \<and> list_all (\<lambda>b. is_ascii_alphanumeric b \<or> b \<in> {CHR ''-'', CHR ''_'', CHR ''.''}) s"

definition is_canonical_room :: "string \<Rightarrow> nat \<Rightarrow> bool" where
  "is_canonical_room s configured_max_len =
     is_canonical_route_token s (min configured_max_len MAX_CANONICAL_ROOM_BYTES)"

record Room =
  room_connections :: "Uuid set"

record Namespace =
  ns_rooms :: "(string, Room) hashmap"
  ns_connections :: "Uuid set"

record GroupManager =
  group_namespaces :: "(string, Namespace) hashmap"

datatype GroupError =
    NamespaceNotFound string
  | InvalidRoomName nat
  | ConnectionRoomLimit Uuid nat

definition room_new :: Room where
  "room_new = \<lparr>room_connections = {}\<rparr>"

definition namespace_new :: Namespace where
  "namespace_new = \<lparr>ns_rooms = [], ns_connections = {}\<rparr>"

definition groups_new :: GroupManager where
  "groups_new = \<lparr>group_namespaces = []\<rparr>"

text \<open>\<open>HashMap::entry(key).or_insert_with\<close>, and writing through \<open>get_mut\<close>.\<close>

definition or_insert :: "'k \<Rightarrow> 'v \<Rightarrow> ('k, 'v) hashmap \<Rightarrow> ('k, 'v) hashmap" where
  "or_insert k v m = (case hm_get m k of None \<Rightarrow> hm_insert k v m | Some _ \<Rightarrow> m)"

definition with_namespaces :: "string list \<Rightarrow> GroupManager" where
  "with_namespaces names =
     \<lparr>group_namespaces = foldl (\<lambda>m name. or_insert name namespace_new m) [] names\<rparr>"

definition put_namespace :: "string \<Rightarrow> Namespace \<Rightarrow> GroupManager \<Rightarrow> GroupManager" where
  "put_namespace name ns g = g\<lparr>group_namespaces := hm_insert name ns (group_namespaces g)\<rparr>"

type_synonym 'a group_result = "(GroupError, 'a) result \<times> GroupManager"

definition add_connection_to_namespace ::
  "string \<Rightarrow> Uuid \<Rightarrow> GroupManager \<Rightarrow> unit group_result" where
  "add_connection_to_namespace name c g =
     (case hm_get (group_namespaces g) name of
        None \<Rightarrow> (Err (NamespaceNotFound name), g)
      | Some ns \<Rightarrow> (Ok (), put_namespace name (ns\<lparr>ns_connections := insert c (ns_connections ns)\<rparr>) g))"

definition room_without :: "Uuid \<Rightarrow> Room \<Rightarrow> Room" where
  "room_without c room = room\<lparr>room_connections := room_connections room - {c}\<rparr>"

definition remove_connection_from_namespace ::
  "string \<Rightarrow> Uuid \<Rightarrow> GroupManager \<Rightarrow> unit group_result" where
  "remove_connection_from_namespace name c g =
     (case hm_get (group_namespaces g) name of
        None \<Rightarrow> (Ok (), g)
      | Some ns \<Rightarrow>
          let rooms = map (\<lambda>(r, room). (r, room_without c room)) (ns_rooms ns);
              retained = filter (\<lambda>(r, room). room_connections room \<noteq> {}) rooms
          in (Ok (), put_namespace name
                (ns\<lparr>ns_connections := ns_connections ns - {c}, ns_rooms := retained\<rparr>) g))"

definition already_joined :: "string \<Rightarrow> Uuid \<Rightarrow> Namespace \<Rightarrow> bool" where
  "already_joined room_name c ns =
     (case hm_get (ns_rooms ns) room_name of None \<Rightarrow> False | Some room \<Rightarrow> c \<in> room_connections room)"

definition joined_room_count :: "Uuid \<Rightarrow> Namespace \<Rightarrow> nat" where
  "joined_room_count c ns = length (filter (\<lambda>room. c \<in> room_connections room) (hm_values (ns_rooms ns)))"

definition enter_room :: "string \<Rightarrow> Uuid \<Rightarrow> Namespace \<Rightarrow> Namespace" where
  "enter_room room_name c ns =
     (let rooms = or_insert room_name room_new (ns_rooms ns);
          room = the (hm_get rooms room_name)
      in ns\<lparr>ns_rooms := hm_insert room_name
              (room\<lparr>room_connections := insert c (room_connections room)\<rparr>) rooms\<rparr>)"

definition join_room_bounded ::
  "string \<Rightarrow> string \<Rightarrow> Uuid \<Rightarrow> nat \<Rightarrow> nat \<Rightarrow> GroupManager \<Rightarrow> unit group_result" where
  "join_room_bounded name room_name c max_rooms_per_connection max_room_name_length g =
     (if \<not> is_canonical_room room_name max_room_name_length
      then (Err (InvalidRoomName (min max_room_name_length MAX_CANONICAL_ROOM_BYTES)), g)
      else case hm_get (group_namespaces g) name of
        None \<Rightarrow> (Err (NamespaceNotFound name), g)
      | Some ns \<Rightarrow>
          if \<not> already_joined room_name c ns \<and> max_rooms_per_connection \<le> joined_room_count c ns
          then (Err (ConnectionRoomLimit c max_rooms_per_connection), g)
          else (Ok (), put_namespace name (enter_room room_name c ns) g))"

definition exit_room :: "string \<Rightarrow> Uuid \<Rightarrow> Room \<Rightarrow> Namespace \<Rightarrow> Namespace" where
  "exit_room room_name c room ns =
     (let left = room_without c room;
          rooms = hm_insert room_name left (ns_rooms ns)
      in ns\<lparr>ns_rooms := if room_connections left = {} then hm_remove room_name rooms else rooms\<rparr>)"

definition leave_room :: "string \<Rightarrow> string \<Rightarrow> Uuid \<Rightarrow> GroupManager \<Rightarrow> unit group_result" where
  "leave_room name room_name c g =
     (case hm_get (group_namespaces g) name of
        None \<Rightarrow> (Ok (), g)
      | Some ns \<Rightarrow>
          (case hm_get (ns_rooms ns) room_name of
             None \<Rightarrow> (Ok (), g)
           | Some room \<Rightarrow> (Ok (), put_namespace name (exit_room room_name c room ns) g)))"

definition namespace_members :: "string \<Rightarrow> GroupManager \<Rightarrow> Uuid set" where
  "namespace_members name g =
     (case hm_get (group_namespaces g) name of None \<Rightarrow> {} | Some ns \<Rightarrow> ns_connections ns)"

definition find_room_connections :: "string \<Rightarrow> string \<Rightarrow> GroupManager \<Rightarrow> Uuid set option" where
  "find_room_connections name room_name g =
     (case hm_get (group_namespaces g) name of
        None \<Rightarrow> None
      | Some ns \<Rightarrow> map_option room_connections (hm_get (ns_rooms ns) room_name))"

definition room_members :: "string \<Rightarrow> string \<Rightarrow> GroupManager \<Rightarrow> Uuid set" where
  "room_members name room_name g =
     (case find_room_connections name room_name g of None \<Rightarrow> {} | Some cs \<Rightarrow> cs)"

section \<open>The membership relation\<close>

record Membership =
  known :: "string set"
  present :: "(string \<times> Uuid) set"
  joined :: "(string \<times> string \<times> Uuid) set"

definition rooms_of :: "string \<Rightarrow> Uuid \<Rightarrow> Membership \<Rightarrow> string set" where
  "rooms_of name c s = {r. (name, r, c) \<in> joined s}"

datatype group_op =
    AddConnection string Uuid
  | RemoveConnection string Uuid
  | JoinRoom string string Uuid nat nat
  | LeaveRoom string string Uuid

fun group_step :: "group_op \<Rightarrow> GroupManager \<Rightarrow> unit group_result" where
  "group_step (AddConnection n c) g = add_connection_to_namespace n c g"
| "group_step (RemoveConnection n c) g = remove_connection_from_namespace n c g"
| "group_step (JoinRoom n r c max_rooms max_len) g = join_room_bounded n r c max_rooms max_len g"
| "group_step (LeaveRoom n r c) g = leave_room n r c g"

fun membership_step :: "group_op \<Rightarrow> Membership \<Rightarrow> (GroupError, unit) result \<times> Membership" where
  "membership_step (AddConnection n c) s =
     (if n \<in> known s then (Ok (), s\<lparr>present := insert (n, c) (present s)\<rparr>)
      else (Err (NamespaceNotFound n), s))"
| "membership_step (RemoveConnection n c) s =
     (Ok (), s\<lparr>present := present s - {(n, c)}, joined := joined s - {(n, r, c) | r. True}\<rparr>)"
| "membership_step (JoinRoom n r c max_rooms max_len) s =
     (if \<not> is_canonical_room r max_len then (Err (InvalidRoomName (min max_len MAX_CANONICAL_ROOM_BYTES)), s)
      else if n \<notin> known s then (Err (NamespaceNotFound n), s)
      else if (n, r, c) \<notin> joined s \<and> max_rooms \<le> card (rooms_of n c s)
      then (Err (ConnectionRoomLimit c max_rooms), s)
      else (Ok (), s\<lparr>joined := insert (n, r, c) (joined s)\<rparr>))"
| "membership_step (LeaveRoom n r c) s = (Ok (), s\<lparr>joined := joined s - {(n, r, c)}\<rparr>)"

fun group_run :: "group_op list \<Rightarrow> GroupManager \<Rightarrow> (GroupError, unit) result list \<times> GroupManager" where
  "group_run [] g = ([], g)"
| "group_run (op # ops) g =
     (let (reply, g') = group_step op g; (replies, g'') = group_run ops g' in (reply # replies, g''))"

fun membership_run :: "group_op list \<Rightarrow> Membership \<Rightarrow> (GroupError, unit) result list \<times> Membership" where
  "membership_run [] s = ([], s)"
| "membership_run (op # ops) s =
     (let (reply, s') = membership_step op s; (replies, s'') = membership_run ops s' in (reply # replies, s''))"

definition group_abs :: "GroupManager \<Rightarrow> Membership" where
  "group_abs g =
     \<lparr>known = dom (hm_get (group_namespaces g)),
      present = {(n, c). \<exists>ns. hm_get (group_namespaces g) n = Some ns \<and> c \<in> ns_connections ns},
      joined = {(n, r, c). \<exists>ns room. hm_get (group_namespaces g) n = Some ns
                  \<and> hm_get (ns_rooms ns) r = Some room \<and> c \<in> room_connections room}\<rparr>"

text \<open>The invariant of the table: distinct keys, and no room without a member.\<close>

definition namespace_ok :: "Namespace \<Rightarrow> bool" where
  "namespace_ok ns \<longleftrightarrow>
     hm_invar (ns_rooms ns) \<and> (\<forall>r room. hm_get (ns_rooms ns) r = Some room \<longrightarrow> room_connections room \<noteq> {})"

definition group_ok :: "GroupManager \<Rightarrow> bool" where
  "group_ok g \<longleftrightarrow>
     hm_invar (group_namespaces g) \<and> (\<forall>n ns. hm_get (group_namespaces g) n = Some ns \<longrightarrow> namespace_ok ns)"

section \<open>Each operation keeps the invariant and acts on the relation\<close>

lemma or_insert_get: "hm_get (or_insert k v m) k' = (if k' = k \<and> hm_get m k = None then Some v else hm_get m k')"
  by (auto simp: or_insert_def update_conv' split: option.splits)

lemma or_insert_invar: "hm_invar m \<Longrightarrow> hm_invar (or_insert k v m)"
  by (auto simp: or_insert_def distinct_update split: option.splits)

lemma group_ok_put: "group_ok g \<Longrightarrow> namespace_ok ns \<Longrightarrow> group_ok (put_namespace n ns g)"
  by (auto simp: group_ok_def put_namespace_def update_conv' distinct_update)

lemma get_put: "hm_get (group_namespaces (put_namespace n ns g)) = (hm_get (group_namespaces g))(n \<mapsto> ns)"
  by (simp add: put_namespace_def update_conv')

lemma group_ok_get: "group_ok g \<Longrightarrow> hm_get (group_namespaces g) n = Some ns \<Longrightarrow> namespace_ok ns"
  by (simp add: group_ok_def)

text \<open>The rooms that remain once a connection has left them all.\<close>

lemma hm_get_retained:
  assumes "hm_invar m"
  shows "hm_get (filter (\<lambda>(k, v). P v) (map (\<lambda>(k, v). (k, f v)) m)) k
    = (case hm_get m k of None \<Rightarrow> None | Some v \<Rightarrow> if P (f v) then Some (f v) else None)"
  using assms
proof (induction m)
  case (Cons kv m)
  have "k \<notin> fst ` set m \<Longrightarrow> hm_get m k = None"
    by (simp add: map_of_eq_None_iff)
  with Cons show ?case by (cases kv) (auto split: option.splits)
qed simp

lemma hm_invar_retained:
  "hm_invar m \<Longrightarrow> hm_invar (filter (\<lambda>(k, v). P v) (map (\<lambda>(k, v). (k, f v)) m))"
proof -
  assume m: "hm_invar m"
  have keys: "map fst (map (\<lambda>(k, v). (k, f v)) m) = map fst m"
    by (induction m) auto
  show ?thesis
    by (rule distinct_map_filter) (simp only: keys m)
qed

text \<open>Counting over the values of a table is counting its keys.\<close>

lemma count_values:
  "hm_invar m \<Longrightarrow> length (filter P (hm_values m)) = card {k. \<exists>v. hm_get m k = Some v \<and> P v}"
proof (induction m)
  case (Cons kv m)
  obtain k v where kv: "kv = (k, v)" by fastforce
  have fresh: "hm_get m k = None"
    using Cons.prems by (simp add: kv map_of_eq_None_iff)
  have fin: "finite {k. \<exists>v. hm_get m k = Some v \<and> P v}"
    by (rule finite_subset [OF _ finite_dom_map_of [of m]]) auto
  have "{k'. \<exists>v'. hm_get (kv # m) k' = Some v' \<and> P v'}
      = (if P v then insert k else id) {k. \<exists>v. hm_get m k = Some v \<and> P v}"
    using fresh by (auto simp: kv)
  moreover have "k \<notin> {k. \<exists>v. hm_get m k = Some v \<and> P v}"
    using fresh by simp
  moreover have "length (filter P (hm_values (kv # m))) = (if P v then Suc else id) (length (filter P (hm_values m)))"
    by (simp add: kv)
  moreover have "length (filter P (hm_values m)) = card {k. \<exists>v. hm_get m k = Some v \<and> P v}"
    using Cons by simp
  ultimately show ?case
    using fin by (cases "P v") (simp_all only: card_insert_disjoint if_True if_False id_apply not_False_eq_True)
qed simp

lemma joined_room_count_card:
  assumes "group_ok g" "hm_get (group_namespaces g) n = Some ns"
  shows "joined_room_count c ns = card (rooms_of n c (group_abs g))"
proof -
  have "hm_invar (ns_rooms ns)"
    using group_ok_get [OF assms] by (simp add: namespace_ok_def)
  from count_values [OF this] show ?thesis
    using assms(2) by (simp add: joined_room_count_def rooms_of_def group_abs_def)
qed
definition room_relation :: "Namespace \<Rightarrow> (string \<times> Uuid) set" where
  "room_relation ns = {(r, c). \<exists>room. hm_get (ns_rooms ns) r = Some room \<and> c \<in> room_connections room}"

lemma abs_known: "n \<in> known (group_abs g) \<longleftrightarrow> hm_get (group_namespaces g) n \<noteq> None"
  by (simp add: group_abs_def dom_def)

lemma abs_present:
  "(n, c) \<in> present (group_abs g) \<longleftrightarrow> (\<exists>ns. hm_get (group_namespaces g) n = Some ns \<and> c \<in> ns_connections ns)"
  by (simp add: group_abs_def)

lemma abs_joined:
  "(n, r, c) \<in> joined (group_abs g) \<longleftrightarrow> (\<exists>ns. hm_get (group_namespaces g) n = Some ns \<and> (r, c) \<in> room_relation ns)"
  by (auto simp: group_abs_def room_relation_def)

lemma membership_eqI:
  assumes "\<And>n. n \<in> known s \<longleftrightarrow> n \<in> known t" "\<And>n c. (n, c) \<in> present s \<longleftrightarrow> (n, c) \<in> present t"
    "\<And>n r c. (n, r, c) \<in> joined s \<longleftrightarrow> (n, r, c) \<in> joined t"
  shows "(s :: Membership) = t"
proof -
  have "known s = known t" "present s = present t" "joined s = joined t"
    using assms by auto
  then show ?thesis by simp
qed

lemma room_relation_removed:
  assumes "namespace_ok ns"
  shows "room_relation (ns\<lparr>ns_connections := C, ns_rooms := filter (\<lambda>(r, room). room_connections room \<noteq> {})
      (map (\<lambda>(r, room). (r, room_without c room)) (ns_rooms ns))\<rparr>) = {(r, c'). (r, c') \<in> room_relation ns \<and> c' \<noteq> c}"
    and "namespace_ok (ns\<lparr>ns_connections := C, ns_rooms := filter (\<lambda>(r, room). room_connections room \<noteq> {})
      (map (\<lambda>(r, room). (r, room_without c room)) (ns_rooms ns))\<rparr>)"
  using assms hm_get_retained [of "ns_rooms ns" "\<lambda>room. room_connections room \<noteq> {}" "room_without c"]
    hm_invar_retained [of "ns_rooms ns" "\<lambda>room. room_connections room \<noteq> {}" "room_without c"]
  by (auto simp: namespace_ok_def room_relation_def room_without_def split: option.splits if_splits)

lemma room_relation_entered:
  "room_relation (enter_room r c ns) = insert (r, c) (room_relation ns)"
  by (auto simp: enter_room_def room_relation_def Let_def update_conv' or_insert_get room_new_def
      split: if_splits option.splits)

lemma namespace_ok_entered: "namespace_ok ns \<Longrightarrow> namespace_ok (enter_room r c ns)"
  by (auto simp: enter_room_def namespace_ok_def Let_def update_conv' or_insert_get or_insert_invar distinct_update
      split: if_splits)

lemma room_relation_left:
  assumes "hm_get (ns_rooms ns) r = Some room"
  shows "room_relation (exit_room r c room ns) = room_relation ns - {(r, c)}"
  using assms by (auto simp: exit_room_def Let_def room_relation_def room_without_def update_conv' delete_conv'
      split: if_splits)

lemma namespace_ok_left: "namespace_ok ns \<Longrightarrow> namespace_ok (exit_room r c room ns)"
  unfolding namespace_ok_def exit_room_def Let_def
  by (auto simp: update_conv' delete_conv' distinct_update distinct_delete simp del: map_of_eq_Some_iff
      split: if_splits)

lemma exit_room_connections [simp]: "ns_connections (exit_room r c room ns) = ns_connections ns"
  by (simp add: exit_room_def Let_def)

lemma already_joined_iff: "already_joined r c ns \<longleftrightarrow> (r, c) \<in> room_relation ns"
  by (auto simp: already_joined_def room_relation_def split: option.splits)

lemmas abs_simps = abs_known abs_present abs_joined get_put room_relation_entered already_joined_iff

lemma room_relation_connections [simp]: "room_relation (ns\<lparr>ns_connections := C\<rparr>) = room_relation ns"
  by (simp add: room_relation_def)

lemma namespace_ok_connections [simp]: "namespace_ok (ns\<lparr>ns_connections := C\<rparr>) = namespace_ok ns"
  by (simp add: namespace_ok_def)

lemma enter_room_connections [simp]: "ns_connections (enter_room r c ns) = ns_connections ns"
  by (simp add: enter_room_def Let_def)

lemma add_refines:
  assumes "group_ok g"
  shows "group_ok (snd (group_step (AddConnection n c) g))
    \<and> membership_step (AddConnection n c) (group_abs g)
      = (fst (group_step (AddConnection n c) g), group_abs (snd (group_step (AddConnection n c) g)))"
  using assms by (auto simp: add_connection_to_namespace_def group_ok_put group_ok_get abs_simps
      intro!: membership_eqI split: option.splits if_splits)

lemma remove_refines:
  assumes "group_ok g"
  shows "group_ok (snd (group_step (RemoveConnection n c) g))
    \<and> membership_step (RemoveConnection n c) (group_abs g)
      = (fst (group_step (RemoveConnection n c) g), group_abs (snd (group_step (RemoveConnection n c) g)))"
proof (cases "hm_get (group_namespaces g) n")
  case None
  then show ?thesis
    using assms by (auto simp: remove_connection_from_namespace_def abs_simps intro!: membership_eqI)
next
  case (Some ns)
  note ns = room_relation_removed [OF group_ok_get [OF assms Some]]
  show ?thesis
    using assms Some ns(2)
    by (auto simp: remove_connection_from_namespace_def Let_def group_ok_put abs_simps ns(1)
        intro!: membership_eqI split: if_splits)
qed

lemma join_refines:
  assumes "group_ok g"
  shows "group_ok (snd (group_step (JoinRoom n r c max_rooms max_len) g))
    \<and> membership_step (JoinRoom n r c max_rooms max_len) (group_abs g)
      = (fst (group_step (JoinRoom n r c max_rooms max_len) g),
         group_abs (snd (group_step (JoinRoom n r c max_rooms max_len) g)))"
proof (cases "hm_get (group_namespaces g) n")
  case None
  then show ?thesis
    using assms by (simp add: join_room_bounded_def abs_simps)
next
  case (Some ns)
  have joined: "(n, r, c) \<in> joined (group_abs g) \<longleftrightarrow> already_joined r c ns"
    by (simp add: Some abs_simps)
  have "group_abs (put_namespace n (enter_room r c ns) g) = group_abs g\<lparr>joined := insert (n, r, c) (joined (group_abs g))\<rparr>"
    by (rule membership_eqI) (use Some in \<open>auto simp: abs_simps split: if_splits\<close>)
  then show ?thesis
    using assms Some namespace_ok_entered [OF group_ok_get [OF assms Some]] joined
    by (auto simp: join_room_bounded_def group_ok_put joined_room_count_card [OF assms Some] abs_known)
qed

lemma leave_refines:
  assumes "group_ok g"
  shows "group_ok (snd (group_step (LeaveRoom n r c) g))
    \<and> membership_step (LeaveRoom n r c) (group_abs g)
      = (fst (group_step (LeaveRoom n r c) g), group_abs (snd (group_step (LeaveRoom n r c) g)))"
proof (cases "hm_get (group_namespaces g) n")
  case None
  then show ?thesis
    using assms by (auto simp: leave_room_def abs_simps intro!: membership_eqI)
next
  case (Some ns)
  show ?thesis
  proof (cases "hm_get (ns_rooms ns) r")
    case None
    then have "(r, c) \<notin> room_relation ns" by (simp add: room_relation_def)
    then show ?thesis
      using assms Some None by (auto simp: leave_room_def abs_simps intro!: membership_eqI)
  next
    case room: (Some room)
    show ?thesis
      using assms Some room namespace_ok_left [OF group_ok_get [OF assms Some]]
      by (auto simp: leave_room_def group_ok_put abs_simps room_relation_left [OF room]
          intro!: membership_eqI split: if_splits)
  qed
qed

lemma group_step_refines:
  assumes "group_ok g"
  shows "group_ok (snd (group_step op g))"
    and "membership_step op (group_abs g) = (fst (group_step op g), group_abs (snd (group_step op g)))"
  using add_refines [OF assms] remove_refines [OF assms] join_refines [OF assms] leave_refines [OF assms]
  by (cases op; blast)+

lemma with_namespaces_ok:
  "group_ok (with_namespaces names)"
  "group_abs (with_namespaces names) = \<lparr>known = set names, present = {}, joined = {}\<rparr>"
proof -
  define m where "m = foldl (\<lambda>m name. or_insert name namespace_new m) [] names"
  have gen: "hm_invar m0 \<and> ran (hm_get m0) \<subseteq> {namespace_new} \<longrightarrow>
      (let m = foldl (\<lambda>m name. or_insert name namespace_new m) m0 names
       in hm_invar m \<and> ran (hm_get m) \<subseteq> {namespace_new} \<and> dom (hm_get m) = dom (hm_get m0) \<union> set names)" for m0
  proof (induction names arbitrary: m0)
    case (Cons name names)
    have "hm_get (or_insert name namespace_new m0) = (hm_get m0)(name \<mapsto> the (hm_get (or_insert name namespace_new m0) name))"
      by (auto simp: or_insert_get)
    then have "dom (hm_get (or_insert name namespace_new m0)) = insert name (dom (hm_get m0))"
      by (metis dom_fun_upd option.distinct(1))
    moreover have "ran (hm_get m0) \<subseteq> {namespace_new} \<longrightarrow> ran (hm_get (or_insert name namespace_new m0)) \<subseteq> {namespace_new}"
      by (auto simp: ran_def or_insert_get)
    ultimately show ?case
      using Cons [of "or_insert name namespace_new m0"] by (simp add: Let_def or_insert_invar)
  qed (simp add: Let_def)
  have m: "hm_invar m" "ran (hm_get m) \<subseteq> {namespace_new}" "dom (hm_get m) = set names"
    using gen [of "[]"] by (simp_all add: m_def Let_def)
  have new: "hm_get m n = Some ns \<Longrightarrow> ns = namespace_new" for n ns
    using m(2) by (auto simp: ran_def)
  have g: "with_namespaces names = \<lparr>group_namespaces = m\<rparr>"
    by (simp add: with_namespaces_def m_def)
  have "namespace_ok namespace_new" "room_relation namespace_new = {}" "ns_connections namespace_new = {}"
    by (simp_all add: namespace_ok_def namespace_new_def room_relation_def)
  note empty = this
  show "group_ok (with_namespaces names)"
    using m(1) new empty(1) unfolding group_ok_def g GroupManager.simps by metis
  show "group_abs (with_namespaces names) = \<lparr>known = set names, present = {}, joined = {}\<rparr>"
    using new empty(2,3) unfolding g m(3) [symmetric]
    by (intro membership_eqI) (auto simp: abs_known abs_present abs_joined dest!: new simp del: map_of_eq_Some_iff)
qed

lemma group_run_refines:
  "group_ok g \<Longrightarrow> group_ok (snd (group_run ops g))
    \<and> membership_run ops (group_abs g) = (fst (group_run ops g), group_abs (snd (group_run ops g)))"
proof (induction ops arbitrary: g)
  case (Cons op ops)
  note op = group_step_refines [OF Cons.prems, of op]
  show ?case
    using Cons.IH [OF op(1)] by (simp add: op(2) split_beta Let_def)
qed simp

lemma lookups_abs:
  "namespace_members n g = {c. (n, c) \<in> present (group_abs g)}"
  "room_members n r g = {c. (n, r, c) \<in> joined (group_abs g)}"
  by (auto simp: namespace_members_def room_members_def find_room_connections_def group_abs_def split: option.splits)

lemma find_room_abs:
  "group_ok g \<Longrightarrow> find_room_connections n r g = (if room_members n r g = {} then None else Some (room_members n r g))"
  by (auto simp: room_members_def find_room_connections_def group_ok_def namespace_ok_def simp del: map_of_eq_Some_iff
      split: option.splits)

text \<open>
  C36. The group manager is the membership relation. Whatever the order in which callers add and
  remove connections and join and leave rooms, every call is answered as the relation answers it
  (a missing namespace, a bad room name and a full connection included), the members that a
  lookup returns are those of the relation, and a room exists exactly as long as it has a member.
\<close>

theorem groups_refine_membership:
  "let (replies, g) = group_run ops (with_namespaces names);
       (expected, s) = membership_run ops \<lparr>known = set names, present = {}, joined = {}\<rparr>
   in replies = expected
     \<and> namespace_members n g = {c. (n, c) \<in> present s}
     \<and> room_members n r g = {c. (n, r, c) \<in> joined s}
     \<and> find_room_connections n r g = (if room_members n r g = {} then None else Some (room_members n r g))"
  using group_run_refines [OF with_namespaces_ok(1) [of names], of ops]
    find_room_abs [of "snd (group_run ops (with_namespaces names))" n r]
  by (simp add: with_namespaces_ok(2) Let_def split_beta lookups_abs)

section \<open>Room limits\<close>

definition within_limits :: "nat \<Rightarrow> nat \<Rightarrow> Membership \<Rightarrow> bool" where
  "within_limits max_rooms max_len s \<longleftrightarrow>
     (\<forall>n c. card (rooms_of n c s) \<le> max_rooms)
     \<and> (\<forall>(n, r, c)\<in>joined s. is_canonical_room r max_len \<and> n \<in> known s)"

lemma card_rooms_mono:
  assumes "card A \<le> k" "B \<subseteq> A" "finite A"
  shows "card B \<le> k"
  using assms card_mono le_trans by blast

lemma rooms_finite: "finite (rooms_of n c (group_abs g))"
proof (cases "hm_get (group_namespaces g) n")
  case (Some ns)
  have "rooms_of n c (group_abs g) \<subseteq> dom (hm_get (ns_rooms ns))"
    using Some by (auto simp: rooms_of_def abs_joined room_relation_def simp del: map_of_eq_Some_iff)
  then show ?thesis
    by (rule finite_subset) (rule finite_dom_map_of)
qed (simp add: rooms_of_def abs_joined)

lemma within_limits_shrinks:
  assumes "within_limits M L (group_abs g)" "joined s \<subseteq> joined (group_abs g)" "known s = known (group_abs g)"
  shows "within_limits M L s"
proof -
  have "card (rooms_of n c s) \<le> M" for n c
    by (rule card_rooms_mono [OF _ _ rooms_finite [of n c g]])
      (use assms(1,2) in \<open>auto simp: within_limits_def rooms_of_def\<close>)
  then show ?thesis
    using assms by (auto simp: within_limits_def)
qed

lemma join_within_limits:
  assumes "within_limits M L (group_abs g)"
  shows "within_limits M L (snd (membership_step (JoinRoom n r c M L) (group_abs g)))"
proof -
  let ?s = "group_abs g\<lparr>joined := insert (n, r, c) (joined (group_abs g))\<rparr>"
  have rooms: "rooms_of n' c' ?s = (if (n', c') = (n, c) then insert r (rooms_of n c (group_abs g))
      else rooms_of n' c' (group_abs g))" for n' c'
    by (auto simp: rooms_of_def)
  have "card (rooms_of n' c' ?s) \<le> M" if "(n, r, c) \<in> joined (group_abs g) \<or> card (rooms_of n c (group_abs g)) < M" for n' c'
    using that assms rooms_finite [of n c g]
    by (auto simp: rooms within_limits_def card_insert_if) (simp add: rooms_of_def)
  then show ?thesis
    using assms by (auto simp: within_limits_def)
qed

end
