(* ===== verification/Ws_Registry.thy ===== *)
theory Ws_Registry
  imports Ws_Groups
begin

text \<open>
  The node-local registry of WebSocket connections (\<open>lily_websocket/src/connection.rs\<close>): the
  versioned identity of a connection, its close slot and outbound byte budget, the registry with
  its index of principals, and the operations of \<open>ConnectionManager\<close> that change them.

  An operation that holds the registry's write lock is a function on the manager's state. Values
  that the code shares through \<open>Arc\<close> (byte budgets, control channels) live in a store of the
  state and are named by their position in it, so that \<open>Arc::ptr_eq\<close> is equality of positions.
  Clock readings and the outcome of a channel send are arguments. The data sender, the peer's
  address and the transport class of a connection are left out, as are the metrics: no operation
  here reads them.
\<close>

section \<open>Identities\<close>

definition MAX_PRINCIPAL_ID_BYTES :: nat where
  "MAX_PRINCIPAL_ID_BYTES = 256"

datatype PrincipalIdError =
  PrincipalEmpty | PrincipalTooLong | PrincipalSurroundingWhitespace | PrincipalControlCharacter

definition principal_id_try_new :: "string \<Rightarrow> (PrincipalIdError, string) result" where
  "principal_id_try_new value =
     (if value = [] then Err PrincipalEmpty
      else if MAX_PRINCIPAL_ID_BYTES < length value then Err PrincipalTooLong
      else if \<not> is_trimmed value then Err PrincipalSurroundingWhitespace
      else if has_control value then Err PrincipalControlCharacter
      else Ok value)"

text \<open>Of the application's principal only the subject is kept.\<close>

record AuthenticatedWebSocketIdentity =
  auth_subject :: string
  auth_principal_id :: string
  auth_expires_at :: "nat option"

definition identity_try_new :: "string \<Rightarrow> (PrincipalIdError, AuthenticatedWebSocketIdentity) result" where
  "identity_try_new subject =
     and_then (principal_id_try_new subject) (\<lambda>principal_id.
       Ok \<lparr>auth_subject = subject, auth_principal_id = principal_id, auth_expires_at = None\<rparr>)"

definition expires_at :: "nat \<Rightarrow> AuthenticatedWebSocketIdentity \<Rightarrow> AuthenticatedWebSocketIdentity" where
  "expires_at deadline identity = identity\<lparr>auth_expires_at := Some deadline\<rparr>"

type_synonym WebSocketIdentityRevision = u64

definition revision_next :: "WebSocketIdentityRevision \<Rightarrow> WebSocketIdentityRevision option" where
  "revision_next revision = checked_add revision 1"

record WebSocketIdentitySnapshot =
  snap_revision :: WebSocketIdentityRevision
  snap_authenticated :: "AuthenticatedWebSocketIdentity option"

definition snapshot_anonymous :: WebSocketIdentitySnapshot where
  "snapshot_anonymous = \<lparr>snap_revision = 0, snap_authenticated = None\<rparr>"

definition snapshot_authenticated :: "AuthenticatedWebSocketIdentity \<Rightarrow> WebSocketIdentitySnapshot" where
  "snapshot_authenticated identity = \<lparr>snap_revision = 0, snap_authenticated = Some identity\<rparr>"

definition snapshot_principal_id :: "WebSocketIdentitySnapshot \<Rightarrow> string option" where
  "snapshot_principal_id snapshot = map_option auth_principal_id (snap_authenticated snapshot)"

definition snapshot_expiry :: "WebSocketIdentitySnapshot \<Rightarrow> nat option" where
  "snapshot_expiry snapshot = Option.bind (snap_authenticated snapshot) auth_expires_at"

definition with_replacement ::
  "AuthenticatedWebSocketIdentity \<Rightarrow> WebSocketIdentitySnapshot \<Rightarrow> WebSocketIdentitySnapshot option" where
  "with_replacement replacement snapshot =
     map_option (\<lambda>revision. \<lparr>snap_revision = revision, snap_authenticated = Some replacement\<rparr>)
       (revision_next (snap_revision snapshot))"

text \<open>\<open>is_some_and(|deadline| deadline <= now)\<close>.\<close>

definition elapsed :: "nat \<Rightarrow> nat option \<Rightarrow> bool" where
  "elapsed now deadline = (case deadline of None \<Rightarrow> False | Some d \<Rightarrow> d \<le> now)"

section \<open>Close requests\<close>

datatype CloseCode = CodeNormal | CodeProtocol | CodePolicy | CodeAgain | CodeError | CodeAway

datatype WsCloseReason =
    ReasonApplication | ReasonInvalidEnvelope | ReasonUnsupportedVersion | ReasonUnsupportedMessageKind
  | ReasonPolicyViolation | ReasonIdentityExpired | ReasonSlowConsumer | ReasonInternalFailure
  | ReasonServerShutdown | ReasonIdleTimeout

fun close_code :: "WsCloseReason \<Rightarrow> CloseCode" where
  "close_code ReasonApplication = CodeNormal"
| "close_code ReasonInvalidEnvelope = CodeProtocol"
| "close_code ReasonUnsupportedVersion = CodeProtocol"
| "close_code ReasonUnsupportedMessageKind = CodeProtocol"
| "close_code ReasonPolicyViolation = CodePolicy"
| "close_code ReasonIdentityExpired = CodePolicy"
| "close_code ReasonSlowConsumer = CodeAgain"
| "close_code ReasonInternalFailure = CodeError"
| "close_code ReasonServerShutdown = CodeAway"
| "close_code ReasonIdleTimeout = CodeAway"

fun close_reason :: "WsCloseReason \<Rightarrow> string" where
  "close_reason ReasonApplication = ''lily.v2.application_close''"
| "close_reason ReasonInvalidEnvelope = ''lily.v2.invalid_envelope''"
| "close_reason ReasonUnsupportedVersion = ''lily.v2.unsupported_version''"
| "close_reason ReasonUnsupportedMessageKind = ''lily.v2.unsupported_message_kind''"
| "close_reason ReasonPolicyViolation = ''lily.v2.policy_violation''"
| "close_reason ReasonIdentityExpired = ''lily.v2.identity_expired''"
| "close_reason ReasonSlowConsumer = ''lily.v2.slow_consumer''"
| "close_reason ReasonInternalFailure = ''lily.v2.internal_failure''"
| "close_reason ReasonServerShutdown = ''lily.v2.server_shutdown''"
| "close_reason ReasonIdleTimeout = ''lily.v2.idle_timeout''"

record CloseFrame =
  frame_code :: CloseCode
  frame_reason :: string

definition close_frame :: "WsCloseReason \<Rightarrow> CloseFrame" where
  "close_frame reason = \<lparr>frame_code = close_code reason, frame_reason = close_reason reason\<rparr>"

datatype WsConnectionCloseCategory =
    CategoryNormalPeer | CategoryApplication | CategoryReset | CategoryWriteTimeout | CategoryIdleTimeout
  | CategoryServerShutdown | CategoryProtocolError | CategoryPolicyRejected | CategoryIdentityExpired
  | CategorySlowConsumer | CategoryHandlerError | CategoryMiddlewareError | CategoryCancelled
  | CategoryInternalError

text \<open>The frame of \<open>Message::Close\<close> with the category it is published under.\<close>

record ConnectionCloseRequest =
  close_message :: "CloseFrame option"
  close_category :: WsConnectionCloseCategory

datatype CloseRequestOutcome = CloseRequested | CloseAlreadyClosing

text \<open>
  The close slot: the flag that the first requester wins, and the requests handed to the
  \<open>watch\<close> channel so far. Whether the channel still has a receiver is the argument \<open>sent\<close>.
\<close>

record ConnectionControlSender =
  close_requested :: bool
  close_slot :: "ConnectionCloseRequest list"

definition control_new :: ConnectionControlSender where
  "control_new = \<lparr>close_requested = False, close_slot = []\<rparr>"

definition request_close ::
  "CloseFrame option \<Rightarrow> WsConnectionCloseCategory \<Rightarrow> bool \<Rightarrow> ConnectionControlSender
    \<Rightarrow> (unit, CloseRequestOutcome) result \<times> ConnectionControlSender" where
  "request_close message category sent control =
     (if close_requested control then (Ok CloseAlreadyClosing, control)
      else if sent
      then (Ok CloseRequested, control\<lparr>close_requested := True,
              close_slot := close_slot control @ [\<lparr>close_message = message, close_category = category\<rparr>]\<rparr>)
      else (Err (), control\<lparr>close_requested := True\<rparr>))"
section \<open>Outbound byte budgets\<close>

record OutboundByteBudget =
  budget_limit :: nat
  budget_used :: nat
  budget_closed :: bool

definition budget_new :: "nat \<Rightarrow> OutboundByteBudget" where
  "budget_new limit = \<lparr>budget_limit = limit, budget_used = 0, budget_closed = False\<rparr>"

definition budget_close :: "OutboundByteBudget \<Rightarrow> OutboundByteBudget" where
  "budget_close b = b\<lparr>budget_closed := True\<rparr>"

text \<open>Dropping a reservation.\<close>

definition budget_release :: "nat \<Rightarrow> OutboundByteBudget \<Rightarrow> OutboundByteBudget" where
  "budget_release bytes b = b\<lparr>budget_used := budget_used b - bytes\<rparr>"

text \<open>
  The attempt that ends the loop: an exchange that fails only reads the counter again. The
  budget may be closed between the exchange and the second look at the flag.
\<close>

definition try_reserve :: "nat \<Rightarrow> bool \<Rightarrow> OutboundByteBudget \<Rightarrow> bool \<times> OutboundByteBudget" where
  "try_reserve bytes closed_meanwhile b =
     (if budget_closed b then (False, b)
      else if 2 ^ 64 \<le> budget_used b + bytes \<or> budget_limit b < budget_used b + bytes then (False, b)
      else let reserved = b\<lparr>budget_used := budget_used b + bytes\<rparr>
        in if closed_meanwhile then (False, budget_release bytes (budget_close reserved)) else (True, reserved))"

section \<open>Connections and the registry\<close>

datatype ConnectionState = Connecting | Connected | Closing | Closed

record Connection =
  conn_id :: Uuid
  conn_outbound_budget :: nat
  conn_control_sender :: nat
  conn_metadata :: "(string, string) hashmap"
  conn_namespace :: string
  conn_identity :: "WebSocketIdentitySnapshot option"
  conn_state :: ConnectionState
  conn_created_at :: nat
  conn_last_liveness_at :: nat
  conn_last_application_activity_at :: nat

definition identity_expired :: "nat \<Rightarrow> Connection \<Rightarrow> bool" where
  "identity_expired now connection = elapsed now (Option.bind (conn_identity connection) snapshot_expiry)"

record PrincipalTargetKey =
  key_namespace :: string
  key_principal_id :: string

record ConnectionRegistry =
  connections :: "(Uuid, Connection) hashmap"
  principal_index :: "(PrincipalTargetKey, Uuid set) hashmap option"

definition registry_new :: "bool \<Rightarrow> ConnectionRegistry" where
  "registry_new identity_index_enabled =
     \<lparr>connections = [], principal_index = (if identity_index_enabled then Some [] else None)\<rparr>"

definition remove_principal_membership_parts ::
  "string \<Rightarrow> Uuid \<Rightarrow> WebSocketIdentitySnapshot option \<Rightarrow> ConnectionRegistry \<Rightarrow> ConnectionRegistry" where
  "remove_principal_membership_parts namespace c identity registry =
     (case Option.bind identity snapshot_principal_id of
        None \<Rightarrow> registry
      | Some principal_id \<Rightarrow>
          (let key = \<lparr>key_namespace = namespace, key_principal_id = principal_id\<rparr>
           in case principal_index registry of
             None \<Rightarrow> registry
           | Some index \<Rightarrow>
               (case hm_get index key of
                  None \<Rightarrow> registry
                | Some ids \<Rightarrow>
                    let left = ids - {c}; index' = hm_insert key left index
                    in registry\<lparr>principal_index := Some (if left = {} then hm_remove key index' else index')\<rparr>)))"

definition remove_principal_membership :: "Connection \<Rightarrow> ConnectionRegistry \<Rightarrow> ConnectionRegistry" where
  "remove_principal_membership connection =
     remove_principal_membership_parts (conn_namespace connection) (conn_id connection) (conn_identity connection)"

definition add_principal_membership_parts ::
  "string \<Rightarrow> Uuid \<Rightarrow> WebSocketIdentitySnapshot option \<Rightarrow> ConnectionRegistry \<Rightarrow> ConnectionRegistry" where
  "add_principal_membership_parts namespace c identity registry =
     (case Option.bind identity snapshot_principal_id of
        None \<Rightarrow> registry
      | Some principal_id \<Rightarrow>
          (let key = \<lparr>key_namespace = namespace, key_principal_id = principal_id\<rparr>
           in case principal_index registry of
             None \<Rightarrow> registry
           | Some index \<Rightarrow>
               let entry = or_insert key {} index
               in registry\<lparr>principal_index :=
                    Some (hm_insert key (insert c (the (hm_get entry key))) entry)\<rparr>))"

definition add_principal_membership :: "Connection \<Rightarrow> ConnectionRegistry \<Rightarrow> ConnectionRegistry" where
  "add_principal_membership connection =
     add_principal_membership_parts (conn_namespace connection) (conn_id connection) (conn_identity connection)"

text \<open>Writing through \<open>connections.get_mut\<close>.\<close>

definition put_connection :: "Uuid \<Rightarrow> Connection \<Rightarrow> ConnectionRegistry \<Rightarrow> ConnectionRegistry" where
  "put_connection c connection registry =
     registry\<lparr>connections := hm_insert c connection (connections registry)\<rparr>"

section \<open>Errors\<close>

datatype ConnectionMetadataError = MetadataInvalidKey | MetadataInvalidValue | MetadataTooManyEntries

datatype ConnectionOperationError =
    MissingNamespace
  | DuplicateConnection Uuid
  | InvalidApplicationFrame
  | InvalidProtocolFrame
  | DispatcherNotAccepting
  | InvalidBackplaneTarget
  | BackplaneTargetLimitExceeded
  | BackplaneExclusionLimitExceeded
  | IdentityLifecycleUnavailable
  | IdentityExpired
  | IdentityRevisionExhausted
  | OutboundMessageTooLarge

text \<open>The variants that the operations below return.\<close>

datatype ConnectionError =
    ConnectionNotFound Uuid
  | ConnectionClosed Uuid
  | Backpressure Uuid
  | MetadataFailure ConnectionMetadataError
  | GroupFailure GroupError
  | InvalidOperation ConnectionOperationError

section \<open>The connection manager\<close>

record ConnectionManager =
  mgr_registry :: ConnectionRegistry
  mgr_groups :: GroupManager
  mgr_identity_index_enabled :: bool
  mgr_max_rooms_per_connection :: nat
  mgr_max_room_name_length :: nat
  mgr_outbound_queue_max_bytes :: nat
  mgr_budgets :: "OutboundByteBudget list"
  mgr_controls :: "ConnectionControlSender list"

definition manager_new :: "nat \<Rightarrow> nat \<Rightarrow> string list \<Rightarrow> bool \<Rightarrow> nat \<Rightarrow> ConnectionManager" where
  "manager_new max_rooms_per_connection max_room_name_length namespaces identity_index_enabled outbound_queue_max_bytes =
     \<lparr>mgr_registry = registry_new identity_index_enabled,
      mgr_groups = with_namespaces namespaces,
      mgr_identity_index_enabled = identity_index_enabled,
      mgr_max_rooms_per_connection = max_rooms_per_connection,
      mgr_max_room_name_length = max_room_name_length,
      mgr_outbound_queue_max_bytes = outbound_queue_max_bytes,
      mgr_budgets = [], mgr_controls = []\<rparr>"

abbreviation get_connection :: "Uuid \<Rightarrow> ConnectionManager \<Rightarrow> Connection option" where
  "get_connection c m \<equiv> hm_get (connections (mgr_registry m)) c"

abbreviation on_registry :: "(ConnectionRegistry \<Rightarrow> ConnectionRegistry) \<Rightarrow> ConnectionManager \<Rightarrow> ConnectionManager" where
  "on_registry f m \<equiv> m\<lparr>mgr_registry := f (mgr_registry m)\<rparr>"

definition close_budget :: "nat \<Rightarrow> ConnectionManager \<Rightarrow> ConnectionManager" where
  "close_budget a m = m\<lparr>mgr_budgets := (mgr_budgets m)[a := budget_close (mgr_budgets m ! a)]\<rparr>"

definition send_close ::
  "nat \<Rightarrow> CloseFrame option \<Rightarrow> WsConnectionCloseCategory \<Rightarrow> bool \<Rightarrow> ConnectionManager
    \<Rightarrow> (unit, CloseRequestOutcome) result \<times> ConnectionManager" where
  "send_close a message category sent m =
     (let (outcome, control) = request_close message category sent (mgr_controls m ! a)
      in (outcome, m\<lparr>mgr_controls := (mgr_controls m)[a := control]\<rparr>))"

text \<open>A new control channel, made by the transport before admission.\<close>

definition connection_control_channel :: "ConnectionManager \<Rightarrow> nat \<times> ConnectionManager" where
  "connection_control_channel m = (length (mgr_controls m), m\<lparr>mgr_controls := mgr_controls m @ [control_new]\<rparr>)"

type_synonym 'a manager_result = "(ConnectionError, 'a) result \<times> ConnectionManager"

definition MAX_CANONICAL_NAMESPACE_BYTES :: nat where
  "MAX_CANONICAL_NAMESPACE_BYTES = 128"

definition is_canonical_namespace :: "string \<Rightarrow> bool" where
  "is_canonical_namespace namespace = is_canonical_route_token namespace MAX_CANONICAL_NAMESPACE_BYTES"

definition validate_broadcast_namespace :: "string \<Rightarrow> (ConnectionOperationError, unit) result" where
  "validate_broadcast_namespace namespace =
     (if is_canonical_namespace namespace \<and> is_canonical_route_token namespace MAX_CANONICAL_NAMESPACE_BYTES
      then Ok () else Err InvalidBackplaneTarget)"

text \<open>
  Admission. The first part runs before the group manager is called and decides what will be
  published; the registry's write lock is held until the second part has ended.
\<close>

definition admission_begin ::
  "Uuid \<Rightarrow> nat \<Rightarrow> string option \<Rightarrow> WebSocketIdentitySnapshot option \<Rightarrow> nat \<Rightarrow> nat \<Rightarrow> ConnectionManager
    \<Rightarrow> Connection manager_result" where
  "admission_begin c control namespace identity instant now m =
     (case namespace of
        None \<Rightarrow> (Err (InvalidOperation MissingNamespace), m)
      | Some ns \<Rightarrow>
          if (identity \<noteq> None) \<noteq> mgr_identity_index_enabled m
          then (Err (InvalidOperation IdentityLifecycleUnavailable), m)
          else if elapsed instant (Option.bind identity snapshot_expiry)
          then (Err (InvalidOperation IdentityExpired), m)
          else
            let a = length (mgr_budgets m);
                m' = m\<lparr>mgr_budgets := mgr_budgets m @ [budget_new (mgr_outbound_queue_max_bytes m)]\<rparr>;
                connection = \<lparr>conn_id = c, conn_outbound_budget = a, conn_control_sender = control,
                  conn_metadata = [], conn_namespace = ns, conn_identity = identity, conn_state = Connected,
                  conn_created_at = now, conn_last_liveness_at = now, conn_last_application_activity_at = now\<rparr>
            in if get_connection c m \<noteq> None
               then (Err (InvalidOperation (DuplicateConnection c)), m')
               else (Ok connection, m'))"

definition admission_commit :: "Connection \<Rightarrow> ConnectionManager \<Rightarrow> unit manager_result" where
  "admission_commit connection m =
     (case add_connection_to_namespace (conn_namespace connection) (conn_id connection) (mgr_groups m) of
        (Inl e, groups) \<Rightarrow> (Err (GroupFailure e), m\<lparr>mgr_groups := groups\<rparr>)
      | (Inr _, groups) \<Rightarrow>
          (Ok (), on_registry (put_connection (conn_id connection) connection \<circ> add_principal_membership connection)
             (m\<lparr>mgr_groups := groups\<rparr>)))"

definition add_connection ::
  "Uuid \<Rightarrow> nat \<Rightarrow> string option \<Rightarrow> WebSocketIdentitySnapshot option \<Rightarrow> nat \<Rightarrow> nat \<Rightarrow> ConnectionManager
    \<Rightarrow> unit manager_result" where
  "add_connection c control namespace identity instant now m =
     (case admission_begin c control namespace identity instant now m of
        (Inl e, m') \<Rightarrow> (Err e, m')
      | (Inr connection, m') \<Rightarrow> admission_commit connection m')"

text \<open>
  Removal. The registry lock is released between the two parts: the first takes the connection
  out of the registry, the second takes it out of its namespace.
\<close>

definition removal_begin :: "Uuid \<Rightarrow> ConnectionManager \<Rightarrow> Connection option \<times> ConnectionManager" where
  "removal_begin c m =
     (case get_connection c m of
        None \<Rightarrow> (None, m)
      | Some connection \<Rightarrow>
          (Some connection,
           close_budget (conn_outbound_budget connection)
             (on_registry (remove_principal_membership connection
                \<circ> (\<lambda>r. r\<lparr>connections := hm_remove c (connections r)\<rparr>)) m)))"

definition removal_finish :: "string \<Rightarrow> Uuid \<Rightarrow> ConnectionManager \<Rightarrow> unit manager_result" where
  "removal_finish namespace c m =
     (case remove_connection_from_namespace namespace c (mgr_groups m) of
        (Inl e, groups) \<Rightarrow> (Err (GroupFailure e), m\<lparr>mgr_groups := groups\<rparr>)
      | (Inr _, groups) \<Rightarrow> (Ok (), m\<lparr>mgr_groups := groups\<rparr>))"

definition remove_connection :: "Uuid \<Rightarrow> ConnectionManager \<Rightarrow> unit manager_result" where
  "remove_connection c m =
     (case removal_begin c m of
        (None, m') \<Rightarrow> (Ok (), m')
      | (Some connection, m') \<Rightarrow> removal_finish (conn_namespace connection) c m')"

definition remove_all_connections :: "ConnectionManager \<Rightarrow> nat \<times> ConnectionManager" where
  "remove_all_connections m =
     (let ids = hm_keys (connections (mgr_registry m))
      in (length ids, foldl (\<lambda>m c. snd (remove_connection c m)) m ids))"

text \<open>
  Joining and leaving a room. The registry's read lock is held from the check to the end of the
  group operation.
\<close>

definition room_check :: "string \<Rightarrow> Uuid \<Rightarrow> ConnectionManager \<Rightarrow> (ConnectionError, unit) result" where
  "room_check namespace c m =
     (case validate_broadcast_namespace namespace of
        Inl e \<Rightarrow> Err (InvalidOperation e)
      | Inr _ \<Rightarrow>
          (case get_connection c m of
             None \<Rightarrow> Err (ConnectionNotFound c)
           | Some connection \<Rightarrow>
               if conn_namespace connection = namespace then Ok () else Err (ConnectionNotFound c)))"

definition on_groups :: "unit group_result \<Rightarrow> ConnectionManager \<Rightarrow> unit manager_result" where
  "on_groups r m =
     ((case fst r of Inl e \<Rightarrow> Err (GroupFailure e) | Inr _ \<Rightarrow> Ok ()), m\<lparr>mgr_groups := snd r\<rparr>)"

definition join_commit :: "string \<Rightarrow> Uuid \<Rightarrow> string \<Rightarrow> ConnectionManager \<Rightarrow> unit manager_result" where
  "join_commit namespace c room m =
     on_groups (join_room_bounded namespace room c (mgr_max_rooms_per_connection m)
       (mgr_max_room_name_length m) (mgr_groups m)) m"

definition leave_commit :: "string \<Rightarrow> Uuid \<Rightarrow> string \<Rightarrow> ConnectionManager \<Rightarrow> unit manager_result" where
  "leave_commit namespace c room m = on_groups (leave_room namespace room c (mgr_groups m)) m"

definition manager_join_room :: "string \<Rightarrow> Uuid \<Rightarrow> string \<Rightarrow> ConnectionManager \<Rightarrow> unit manager_result" where
  "manager_join_room namespace c room m =
     (case room_check namespace c m of Inl e \<Rightarrow> (Err e, m) | Inr _ \<Rightarrow> join_commit namespace c room m)"

definition manager_leave_room :: "string \<Rightarrow> Uuid \<Rightarrow> string \<Rightarrow> ConnectionManager \<Rightarrow> unit manager_result" where
  "manager_leave_room namespace c room m =
     (case room_check namespace c m of Inl e \<Rightarrow> (Err e, m) | Inr _ \<Rightarrow> leave_commit namespace c room m)"

section \<open>Activity and metadata\<close>

definition record_liveness :: "Uuid \<Rightarrow> nat \<Rightarrow> ConnectionManager \<Rightarrow> unit manager_result" where
  "record_liveness c now m =
     (case get_connection c m of
        None \<Rightarrow> (Err (ConnectionNotFound c), m)
      | Some connection \<Rightarrow> (Ok (), on_registry (put_connection c (connection\<lparr>conn_last_liveness_at := now\<rparr>)) m))"

definition record_application_activity :: "Uuid \<Rightarrow> nat \<Rightarrow> ConnectionManager \<Rightarrow> unit manager_result" where
  "record_application_activity c now m =
     (case get_connection c m of
        None \<Rightarrow> (Err (ConnectionNotFound c), m)
      | Some connection \<Rightarrow>
          (Ok (), on_registry (put_connection c
             (connection\<lparr>conn_last_liveness_at := now, conn_last_application_activity_at := now\<rparr>)) m))"

definition MAX_CONNECTION_METADATA_ENTRIES :: nat where
  "MAX_CONNECTION_METADATA_ENTRIES = 32"

definition MAX_CONNECTION_METADATA_KEY_BYTES :: nat where
  "MAX_CONNECTION_METADATA_KEY_BYTES = 128"

definition MAX_CONNECTION_METADATA_VALUE_BYTES :: nat where
  "MAX_CONNECTION_METADATA_VALUE_BYTES = 1024"

definition validate_connection_metadata :: "string \<Rightarrow> string \<Rightarrow> (ConnectionMetadataError, unit) result" where
  "validate_connection_metadata key value =
     (if key = [] \<or> MAX_CONNECTION_METADATA_KEY_BYTES < length key \<or> list_ex is_ascii_control key
      then Err MetadataInvalidKey
      else if MAX_CONNECTION_METADATA_VALUE_BYTES < length value \<or> list_ex (\<lambda>b. byte b = 0) value
      then Err MetadataInvalidValue
      else Ok ())"

definition set_connection_metadata ::
  "string \<Rightarrow> Uuid \<Rightarrow> string \<Rightarrow> string \<Rightarrow> ConnectionManager \<Rightarrow> unit manager_result" where
  "set_connection_metadata namespace c key value m =
     (case validate_broadcast_namespace namespace of
        Inl e \<Rightarrow> (Err (InvalidOperation e), m)
      | Inr _ \<Rightarrow>
          (case validate_connection_metadata key value of
             Inl e \<Rightarrow> (Err (MetadataFailure e), m)
           | Inr _ \<Rightarrow>
               (case get_connection c m of
                  None \<Rightarrow> (Err (ConnectionNotFound c), m)
                | Some connection \<Rightarrow>
                    if conn_namespace connection \<noteq> namespace then (Err (ConnectionNotFound c), m)
                    else if hm_get (conn_metadata connection) key = None
                      \<and> MAX_CONNECTION_METADATA_ENTRIES \<le> length (conn_metadata connection)
                    then (Err (MetadataFailure MetadataTooManyEntries), m)
                    else (Ok (), on_registry (put_connection c
                      (connection\<lparr>conn_metadata := hm_insert key value (conn_metadata connection)\<rparr>)) m))))"

definition connection_count :: "ConnectionManager \<Rightarrow> nat" where
  "connection_count m = length (connections (mgr_registry m))"

definition namespace_connection_count :: "string \<Rightarrow> ConnectionManager \<Rightarrow> nat" where
  "namespace_connection_count namespace m =
     length (filter (\<lambda>connection. conn_namespace connection = namespace) (hm_values (connections (mgr_registry m))))"

section \<open>Identity changes\<close>

datatype WebSocketIdentityUpdateOutcome =
    IdentityUpdated WebSocketIdentityRevision
  | IdentityStale WebSocketIdentityRevision
  | IdentityAlreadyClosing

text \<open>The clock is read once for the current identity and once for its replacement.\<close>

definition reauthenticate ::
  "Uuid \<Rightarrow> WebSocketIdentityRevision \<Rightarrow> AuthenticatedWebSocketIdentity \<Rightarrow> nat \<Rightarrow> nat \<Rightarrow> ConnectionManager
    \<Rightarrow> WebSocketIdentityUpdateOutcome manager_result" where
  "reauthenticate c expected_revision replacement now now' m =
     (case get_connection c m of
        None \<Rightarrow> (Err (ConnectionNotFound c), m)
      | Some connection \<Rightarrow>
          (case conn_identity connection of
             None \<Rightarrow> (Err (InvalidOperation IdentityLifecycleUnavailable), m)
           | Some current \<Rightarrow>
               if conn_state connection \<noteq> Connected then (Ok IdentityAlreadyClosing, m)
               else if snap_revision current \<noteq> expected_revision
               then (Ok (IdentityStale (snap_revision current)), m)
               else if elapsed now (snapshot_expiry current) \<or> elapsed now' (auth_expires_at replacement)
               then (Err (InvalidOperation IdentityExpired), m)
               else (case with_replacement replacement current of
                  None \<Rightarrow> (Err (InvalidOperation IdentityRevisionExhausted), m)
                | Some next_snapshot \<Rightarrow>
                    (Ok (IdentityUpdated (snap_revision next_snapshot)),
                     on_registry
                       (add_principal_membership_parts (conn_namespace connection) c (Some next_snapshot)
                        \<circ> put_connection c (connection\<lparr>conn_identity := Some next_snapshot\<rparr>)
                        \<circ> remove_principal_membership_parts (conn_namespace connection) c (Some current)) m))))"

definition expired_identity_revision ::
  "Uuid \<Rightarrow> nat \<Rightarrow> ConnectionManager \<Rightarrow> (ConnectionError, WebSocketIdentityRevision option) result" where
  "expired_identity_revision c now m =
     (case get_connection c m of
        None \<Rightarrow> Err (ConnectionNotFound c)
      | Some connection \<Rightarrow>
          Ok (case conn_identity connection of
                None \<Rightarrow> None
              | Some snapshot \<Rightarrow>
                  if elapsed now (snapshot_expiry snapshot) then Some (snap_revision snapshot) else None))"

datatype IdentityExpiryClaim = ExpirySuperseded | ExpiryClosing CloseRequestOutcome

text \<open>The entry leaves the principal index; a connected one starts to close.\<close>

definition withdraw :: "Uuid \<Rightarrow> Connection \<Rightarrow> ConnectionManager \<Rightarrow> ConnectionManager" where
  "withdraw c connection =
     on_registry (put_connection c (connection\<lparr>conn_state := Closing\<rparr>)
       \<circ> remove_principal_membership_parts (conn_namespace connection) c (conn_identity connection))"

definition claim_identity_expiry_for_generation ::
  "Uuid \<Rightarrow> WebSocketIdentityRevision \<Rightarrow> nat option \<Rightarrow> nat \<Rightarrow> bool \<Rightarrow> ConnectionManager
    \<Rightarrow> IdentityExpiryClaim manager_result" where
  "claim_identity_expiry_for_generation c revision expected_budget now sent m =
     (case get_connection c m of
        None \<Rightarrow> (Err (if expected_budget \<noteq> None then ConnectionClosed c else ConnectionNotFound c), m)
      | Some connection \<Rightarrow>
          if expected_budget \<noteq> None \<and> expected_budget \<noteq> Some (conn_outbound_budget connection)
          then (Err (ConnectionClosed c), m)
          else (case conn_identity connection of
             None \<Rightarrow> (Err (InvalidOperation IdentityLifecycleUnavailable), m)
           | Some current \<Rightarrow>
               if \<not> (snap_revision current = revision \<and> elapsed now (snapshot_expiry current))
               then (Ok ExpirySuperseded, m)
               else
                 let m1 = (if conn_state connection = Connected then withdraw c connection m
                           else on_registry (remove_principal_membership_parts (conn_namespace connection) c
                             (Some current)) m);
                     (outcome, m2) = send_close (conn_control_sender connection)
                       (Some (close_frame ReasonIdentityExpired)) CategoryIdentityExpired sent
                       (close_budget (conn_outbound_budget connection) m1)
                 in (case outcome of
                       Inl _ \<Rightarrow> (Err (ConnectionClosed c), m2)
                     | Inr requested \<Rightarrow> (Ok (ExpiryClosing requested), m2))))"

definition claim_identity_expiry ::
  "Uuid \<Rightarrow> WebSocketIdentityRevision \<Rightarrow> nat \<Rightarrow> bool \<Rightarrow> ConnectionManager \<Rightarrow> IdentityExpiryClaim manager_result" where
  "claim_identity_expiry c revision now sent m = claim_identity_expiry_for_generation c revision None now sent m"

section \<open>Closing\<close>

definition mark_closing :: "Uuid \<Rightarrow> ConnectionManager \<Rightarrow> bool manager_result" where
  "mark_closing c m =
     (case get_connection c m of
        None \<Rightarrow> (Err (ConnectionNotFound c), m)
      | Some connection \<Rightarrow>
          if conn_state connection \<in> {Closing, Closed} then (Ok False, m)
          else (Ok True, close_budget (conn_outbound_budget connection) (withdraw c connection m)))"

record ConnectionAdmissionTarget =
  target_connection_id :: Uuid
  target_budget :: nat

definition close_slow_consumer ::
  "ConnectionAdmissionTarget \<Rightarrow> bool \<Rightarrow> ConnectionManager \<Rightarrow> bool \<times> ConnectionManager" where
  "close_slow_consumer target sent m =
     (case get_connection (target_connection_id target) m of
        None \<Rightarrow> (False, m)
      | Some connection \<Rightarrow>
          if conn_outbound_budget connection \<noteq> target_budget target \<or> conn_state connection \<noteq> Connected
          then (False, m)
          else (True, snd (send_close (conn_control_sender connection) (Some (close_frame ReasonSlowConsumer))
                 CategorySlowConsumer sent
                 (close_budget (conn_outbound_budget connection) (withdraw (target_connection_id target) connection m)))))"

definition request_close_frame ::
  "Uuid \<Rightarrow> CloseFrame option \<Rightarrow> WsConnectionCloseCategory \<Rightarrow> nat \<Rightarrow> bool \<Rightarrow> ConnectionManager
    \<Rightarrow> CloseRequestOutcome manager_result" where
  "request_close_frame c frame category now sent m =
     (case get_connection c m of
        None \<Rightarrow> (Err (ConnectionNotFound c), m)
      | Some connection \<Rightarrow>
          let m1 = (if conn_state connection = Connected then withdraw c connection m else m);
              (message, category') =
                (if identity_expired now connection
                 then (Some (close_frame ReasonIdentityExpired), CategoryIdentityExpired)
                 else (frame, category));
              (outcome, m2) = send_close (conn_control_sender connection) message category' sent
                (close_budget (conn_outbound_budget connection) m1)
          in (case outcome of
                Inl _ \<Rightarrow> (Err (ConnectionClosed c), m2)
              | Inr requested \<Rightarrow> (Ok requested, m2)))"

text \<open>\<open>now.duration_since(last).is_ok_and(|elapsed| elapsed > timeout)\<close>.\<close>

definition is_stale :: "nat \<Rightarrow> nat \<Rightarrow> Connection \<Rightarrow> bool" where
  "is_stale now timeout connection \<longleftrightarrow>
     conn_state connection = Connected
     \<and> conn_last_application_activity_at connection \<le> now
     \<and> timeout < now - conn_last_application_activity_at connection"

definition claim_stale :: "Uuid \<Rightarrow> ConnectionManager \<Rightarrow> ConnectionManager" where
  "claim_stale c m =
     (case get_connection c m of
        None \<Rightarrow> m
      | Some connection \<Rightarrow> close_budget (conn_outbound_budget connection) (withdraw c connection m))"

text \<open>The part under the write lock: the claimed connections with their control senders.\<close>

definition claim_inactive_connections ::
  "nat \<Rightarrow> nat \<Rightarrow> ConnectionManager \<Rightarrow> (Uuid \<times> nat) list \<times> ConnectionManager" where
  "claim_inactive_connections now timeout m =
     (let stale = filter (\<lambda>(c, connection). is_stale now timeout connection) (connections (mgr_registry m))
      in (map (\<lambda>(c, connection). (c, conn_control_sender connection)) stale,
          foldl (\<lambda>m c. claim_stale c m) m (hm_keys stale)))"

record InactiveConnectionCleanupClaim =
  claimed_ids :: "Uuid list"
  close_not_queued_ids :: "Uuid list"

text \<open>The part after the lock: the idle close is requested of every claimed connection.\<close>

fun request_idle_closes ::
  "(Uuid \<Rightarrow> bool) \<Rightarrow> (Uuid \<times> nat) list \<Rightarrow> ConnectionManager
    \<Rightarrow> InactiveConnectionCleanupClaim \<times> ConnectionManager" where
  "request_idle_closes sent [] m = (\<lparr>claimed_ids = [], close_not_queued_ids = []\<rparr>, m)"
| "request_idle_closes sent ((c, control) # rest) m =
     (let (outcome, m1) = send_close control (Some (close_frame ReasonIdleTimeout)) CategoryIdleTimeout (sent c) m;
          (claim, m2) = request_idle_closes sent rest m1
      in (\<lparr>claimed_ids = c # claimed_ids claim,
           close_not_queued_ids = (case outcome of Inl _ \<Rightarrow> [c] | Inr _ \<Rightarrow> []) @ close_not_queued_ids claim\<rparr>, m2))"

definition cleanup_inactive_connections ::
  "nat \<Rightarrow> nat \<Rightarrow> (Uuid \<Rightarrow> bool) \<Rightarrow> ConnectionManager \<Rightarrow> InactiveConnectionCleanupClaim \<times> ConnectionManager" where
  "cleanup_inactive_connections now timeout sent m =
     (let (stale, m') = claim_inactive_connections now timeout m in request_idle_closes sent stale m')"

section \<open>Outbound admission\<close>

datatype ConnectionTargetFilter = NamespaceFilter string | PrincipalFilter PrincipalTargetKey

fun target_matches :: "ConnectionTargetFilter \<Rightarrow> Connection \<Rightarrow> bool" where
  "target_matches (NamespaceFilter namespace) connection = (conn_namespace connection = namespace)"
| "target_matches (PrincipalFilter expected) connection =
     (conn_namespace connection = key_namespace expected
      \<and> Option.bind (conn_identity connection) snapshot_principal_id = Some (key_principal_id expected))"

datatype OutboundAdmissionWaitError = WaitTimedOut | WaitClosed

datatype OutboundAdmissionFailure =
    AdmissionTimedOut | AdmissionClosed | AdmissionMissing
  | AdmissionIdentityExpired WebSocketIdentityRevision | AdmissionTargetChanged

text \<open>
  The outcomes of the two waits for capacity are arguments. The registry is looked at again
  once both have succeeded.
\<close>

fun wait_failure :: "OutboundAdmissionWaitError \<Rightarrow> OutboundAdmissionFailure" where
  "wait_failure WaitTimedOut = AdmissionTimedOut"
| "wait_failure WaitClosed = AdmissionClosed"

definition revalidate ::
  "ConnectionAdmissionTarget \<Rightarrow> nat \<Rightarrow> ConnectionTargetFilter \<Rightarrow> ConnectionManager
    \<Rightarrow> (OutboundAdmissionFailure, unit) result" where
  "revalidate target now target_filter m =
     (case get_connection (target_connection_id target) m of
        None \<Rightarrow> Err AdmissionMissing
      | Some connection \<Rightarrow>
          if conn_outbound_budget connection \<noteq> target_budget target \<or> conn_state connection \<noteq> Connected
          then Err AdmissionClosed
          else if \<not> target_matches target_filter connection then Err AdmissionTargetChanged
          else (case conn_identity connection of
             None \<Rightarrow> Ok ()
           | Some snapshot \<Rightarrow>
               if elapsed now (snapshot_expiry snapshot)
               then Err (AdmissionIdentityExpired (snap_revision snapshot)) else Ok ()))"

definition admit_outbound_application_frame ::
  "(OutboundAdmissionWaitError, unit) result \<Rightarrow> (OutboundAdmissionWaitError, unit) result
    \<Rightarrow> ConnectionAdmissionTarget \<Rightarrow> nat \<Rightarrow> ConnectionTargetFilter \<Rightarrow> ConnectionManager
    \<Rightarrow> (OutboundAdmissionFailure, unit) result" where
  "admit_outbound_application_frame reservation permit target now target_filter m =
     (case reservation of
        Inl e \<Rightarrow> Err (wait_failure e)
      | Inr _ \<Rightarrow>
          (case permit of
             Inl e \<Rightarrow> Err (wait_failure e)
           | Inr _ \<Rightarrow> revalidate target now target_filter m))"

end
