(* ===== verification/Ws_Manager.thy ===== *)
theory Ws_Manager
  imports Ws_Registry
begin

text \<open>
  The connection manager as a concurrent system. The registry and the group table have a lock
  each. A join or a leave holds the registry for reading while it waits for the groups, an
  admission holds it for writing, and a removal releases it before it touches the groups. The
  step relation below lets every such part interleave with the parts of other tasks wherever the
  locks allow it. The invariants say what a well-formed manager is, that the index of principals
  is exact, and that no room keeps a member that has left.
\<close>

section \<open>Well-formed managers\<close>

definition principal_key :: "string \<Rightarrow> WebSocketIdentitySnapshot option \<Rightarrow> PrincipalTargetKey option" where
  "principal_key namespace identity =
     map_option (\<lambda>p. \<lparr>key_namespace = namespace, key_principal_id = p\<rparr>) (Option.bind identity snapshot_principal_id)"

definition index_rel :: "ConnectionRegistry \<Rightarrow> (PrincipalTargetKey \<times> Uuid) set" where
  "index_rel r = {(key, c). \<exists>index ids. principal_index r = Some index \<and> hm_get index key = Some ids \<and> c \<in> ids}"

definition live_rel :: "ConnectionRegistry \<Rightarrow> (PrincipalTargetKey \<times> Uuid) set" where
  "live_rel r = {(key, c). \<exists>connection. hm_get (connections r) c = Some connection
     \<and> conn_state connection = Connected
     \<and> principal_key (conn_namespace connection) (conn_identity connection) = Some key}"

definition index_ok :: "ConnectionRegistry \<Rightarrow> bool" where
  "index_ok r \<longleftrightarrow> (\<forall>index. principal_index r = Some index \<longrightarrow>
     hm_invar index \<and> (\<forall>key ids. hm_get index key = Some ids \<longrightarrow> ids \<noteq> {}))"

definition metadata_ok :: "Connection \<Rightarrow> bool" where
  "metadata_ok connection \<longleftrightarrow>
     hm_invar (conn_metadata connection)
     \<and> length (conn_metadata connection) \<le> MAX_CONNECTION_METADATA_ENTRIES
     \<and> (\<forall>key value. hm_get (conn_metadata connection) key = Some value
          \<longrightarrow> validate_connection_metadata key value = Ok ())"

text \<open>A connection is open exactly while its byte budget is.\<close>

definition connection_ok :: "bool \<Rightarrow> OutboundByteBudget list \<Rightarrow> Connection \<Rightarrow> bool" where
  "connection_ok enabled budgets connection \<longleftrightarrow>
     (conn_identity connection \<noteq> None) = enabled
     \<and> conn_state connection \<in> {Connected, Closing}
     \<and> conn_outbound_budget connection < length budgets
     \<and> budget_closed (budgets ! conn_outbound_budget connection) = (conn_state connection = Closing)
     \<and> metadata_ok connection"

text \<open>The first close request wins: nothing is published after it.\<close>

definition control_ok :: "ConnectionControlSender \<Rightarrow> bool" where
  "control_ok control \<longleftrightarrow> length (close_slot control) \<le> 1 \<and> (\<not> close_requested control \<longrightarrow> close_slot control = [])"

definition registry_wf :: "bool \<Rightarrow> OutboundByteBudget list \<Rightarrow> ConnectionRegistry \<Rightarrow> bool" where
  "registry_wf enabled budgets r \<longleftrightarrow>
     hm_invar (connections r)
     \<and> (\<forall>c connection. hm_get (connections r) c = Some connection \<longrightarrow>
          conn_id connection = c \<and> connection_ok enabled budgets connection)
     \<and> (\<forall>c c' x y. hm_get (connections r) c = Some x \<and> hm_get (connections r) c' = Some y
          \<and> conn_outbound_budget x = conn_outbound_budget y \<longrightarrow> c = c')
     \<and> (principal_index r \<noteq> None) = enabled
     \<and> index_ok r \<and> index_rel r = live_rel r"

definition groups_wf :: "nat \<Rightarrow> nat \<Rightarrow> GroupManager \<Rightarrow> bool" where
  "groups_wf max_rooms max_len g \<longleftrightarrow> group_ok g \<and> within_limits max_rooms max_len (group_abs g)"

definition manager_wf :: "ConnectionManager \<Rightarrow> bool" where
  "manager_wf m \<longleftrightarrow>
     registry_wf (mgr_identity_index_enabled m) (mgr_budgets m) (mgr_registry m)
     \<and> groups_wf (mgr_max_rooms_per_connection m) (mgr_max_room_name_length m) (mgr_groups m)
     \<and> list_all control_ok (mgr_controls m)"

section \<open>The principal index\<close>

lemma principal_key_None: "principal_key ns identity = None \<longleftrightarrow> Option.bind identity snapshot_principal_id = None"
  by (simp add: principal_key_def)

lemma remove_parts_index:
  assumes "index_ok r"
  shows "index_rel (remove_principal_membership_parts ns c identity r)
      = {(key, c') \<in> index_rel r. \<not> (c' = c \<and> principal_key ns identity = Some key)}"
    and "index_ok (remove_principal_membership_parts ns c identity r)"
proof -
  have "index_rel (remove_principal_membership_parts ns c identity r)
      = {(key, c') \<in> index_rel r. \<not> (c' = c \<and> principal_key ns identity = Some key)}
    \<and> index_ok (remove_principal_membership_parts ns c identity r)"
  proof (cases "Option.bind identity snapshot_principal_id")
    case None
    then show ?thesis
      using assms by (simp add: remove_principal_membership_parts_def principal_key_def)
  next
    case (Some p)
    define key where "key = \<lparr>key_namespace = ns, key_principal_id = p\<rparr>"
    have pk: "principal_key ns identity = Some key"
      by (simp add: principal_key_def Some key_def)
    show ?thesis
    proof (cases "principal_index r")
      case None
      then show ?thesis
        using Some assms by (auto simp: remove_principal_membership_parts_def index_rel_def)
    next
      case index: (Some index)
      then have index_ok: "hm_invar index" "\<And>k ids. hm_get index k = Some ids \<Longrightarrow> ids \<noteq> {}"
        using assms by (auto simp: index_ok_def simp del: map_of_eq_Some_iff)
      show ?thesis
      proof (cases "hm_get index key")
        case None
        then show ?thesis
          using Some index assms pk
          by (auto simp: remove_principal_membership_parts_def index_rel_def key_def simp del: map_of_eq_Some_iff)
      next
        case ids: (Some ids)
        let ?r = "remove_principal_membership_parts ns c identity r"
        define i where "i = (if ids - {c} = {} then hm_remove key (hm_insert key (ids - {c}) index)
          else hm_insert key (ids - {c}) index)"
        have r: "principal_index ?r = Some i"
          using Some index ids by (simp add: remove_principal_membership_parts_def key_def Let_def i_def)
        have get: "hm_get i k = (if k = key then if ids - {c} = {} then None else Some (ids - {c}) else hm_get index k)" for k
          by (simp add: update_conv' delete_conv' i_def)
        have "hm_invar i"
          using index_ok(1) by (simp add: distinct_update distinct_delete i_def)
        moreover have "ids' \<noteq> {}" if "hm_get i k = Some ids'" for k ids'
          using that index_ok(2) unfolding get by (auto simp del: map_of_eq_Some_iff split: if_splits)
        ultimately have "index_ok ?r"
          unfolding index_ok_def r option.inject by blast
        moreover have "(k, c') \<in> index_rel ?r \<longleftrightarrow> (k, c') \<in> index_rel r \<and> \<not> (c' = c \<and> key = k)" for k c'
          unfolding index_rel_def r index by (auto simp: get ids simp del: map_of_eq_Some_iff split: if_splits)
        then have "index_rel ?r = {(k, c') \<in> index_rel r. \<not> (c' = c \<and> principal_key ns identity = Some k)}"
          unfolding pk option.inject by blast
        ultimately show ?thesis by blast
      qed
    qed
  qed
  then show "index_rel (remove_principal_membership_parts ns c identity r)
      = {(key, c') \<in> index_rel r. \<not> (c' = c \<and> principal_key ns identity = Some key)}"
    and "index_ok (remove_principal_membership_parts ns c identity r)"
    by blast+
qed

lemma add_parts_index:
  assumes "index_ok r"
  shows "index_rel (add_principal_membership_parts ns c identity r)
      = index_rel r \<union> {(key, c) | key. principal_key ns identity = Some key \<and> principal_index r \<noteq> None}"
    and "index_ok (add_principal_membership_parts ns c identity r)"
  using assms
  by (auto simp: add_principal_membership_parts_def index_rel_def index_ok_def principal_key_def Let_def update_conv'
      or_insert_get or_insert_invar distinct_update simp del: map_of_eq_Some_iff split: option.splits if_splits)

lemma parts_keep [simp]:
  "connections (remove_principal_membership_parts ns c identity r) = connections r"
  "connections (add_principal_membership_parts ns c identity r) = connections r"
  "(principal_index (remove_principal_membership_parts ns c identity r) = None) = (principal_index r = None)"
  "(principal_index (add_principal_membership_parts ns c identity r) = None) = (principal_index r = None)"
  by (auto simp: remove_principal_membership_parts_def add_principal_membership_parts_def Let_def split: option.splits)

lemma put_connection_keep [simp]:
  "principal_index (put_connection c x r) = principal_index r"
  "index_rel (put_connection c x r) = index_rel r"
  "index_ok (put_connection c x r) = index_ok r"
  by (simp_all add: put_connection_def index_rel_def index_ok_def)

lemma put_connection_get [simp]:
  "hm_get (connections (put_connection c x r)) = (hm_get (connections r))(c \<mapsto> x)"
  "hm_invar (connections r) \<Longrightarrow> hm_invar (connections (put_connection c x r))"
  by (simp_all add: put_connection_def update_conv' distinct_update)

lemma live_rel_put:
  "live_rel (put_connection c x r) = {(key, c') \<in> live_rel r. c' \<noteq> c}
    \<union> {(key, c) | key. conn_state x = Connected \<and> principal_key (conn_namespace x) (conn_identity x) = Some key}"
  by (auto simp: live_rel_def split: if_splits)

lemma live_rel_connections: "connections r = connections r' \<Longrightarrow> live_rel r = live_rel r'"
  by (simp add: live_rel_def)
section \<open>Operations on the registry\<close>

lemma registry_wf_connection:
  assumes "registry_wf enabled budgets r" "hm_get (connections r) c = Some x"
  shows "conn_id x = c" "connection_ok enabled budgets x"
  using assms unfolding registry_wf_def by blast+

lemma registry_wf_inj:
  assumes "registry_wf enabled budgets r" "hm_get (connections r) c = Some x" "hm_get (connections r) c' = Some y"
    "conn_outbound_budget x = conn_outbound_budget y"
  shows "c = c'"
  using assms unfolding registry_wf_def by blast

lemma registry_wf_index:
  assumes "registry_wf enabled budgets r"
  shows "index_ok r" "index_rel r = live_rel r" "(principal_index r \<noteq> None) = enabled" "hm_invar (connections r)"
  using assms unfolding registry_wf_def by blast+

lemma registry_wfI:
  assumes "hm_invar (connections r)" "(principal_index r \<noteq> None) = enabled" "index_ok r" "index_rel r = live_rel r"
    "\<And>c x. hm_get (connections r) c = Some x \<Longrightarrow> conn_id x = c \<and> connection_ok enabled budgets x"
    "\<And>c c' x y. hm_get (connections r) c = Some x \<Longrightarrow> hm_get (connections r) c' = Some y
      \<Longrightarrow> conn_outbound_budget x = conn_outbound_budget y \<Longrightarrow> c = c'"
  shows "registry_wf enabled budgets r"
  using assms unfolding registry_wf_def by blast

text \<open>What the live relation says of one connection.\<close>

lemma live_rel_at:
  "hm_get (connections r) c = Some x \<Longrightarrow>
    (key, c) \<in> live_rel r \<longleftrightarrow> conn_state x = Connected \<and> principal_key (conn_namespace x) (conn_identity x) = Some key"
  by (auto simp: live_rel_def)

text \<open>Replacing a connection by one with the same budget.\<close>

lemma registry_wf_put:
  assumes wf: "registry_wf enabled budgets r" and get: "hm_get (connections r) c = Some x"
    and y: "conn_id y = c" "conn_outbound_budget y = conn_outbound_budget x" "connection_ok enabled budgets' y"
    and r': "connections r' = connections r" "(principal_index r' = None) = (principal_index r = None)" "index_ok r'"
    and rel: "index_rel r' = live_rel (put_connection c y r)"
    and budgets: "\<And>a. a < length budgets \<Longrightarrow> a \<noteq> conn_outbound_budget x \<Longrightarrow> a < length budgets' \<and> budgets' ! a = budgets ! a"
  shows "registry_wf enabled budgets' (put_connection c y r')"
proof (rule registry_wfI)
  have live: "live_rel (put_connection c y r') = live_rel (put_connection c y r)"
    by (rule live_rel_connections) (simp add: put_connection_def r'(1))
  show "hm_invar (connections (put_connection c y r'))"
    using registry_wf_index(4) [OF wf] by (simp add: r'(1))
  show "(principal_index (put_connection c y r') \<noteq> None) = enabled"
    using registry_wf_index(3) [OF wf] by (simp add: r'(2))
  show "index_ok (put_connection c y r')" "index_rel (put_connection c y r') = live_rel (put_connection c y r')"
    using r'(3) rel live by simp_all
  fix d z
  assume z: "hm_get (connections (put_connection c y r')) d = Some z"
  show "conn_id z = d \<and> connection_ok enabled budgets' z"
  proof (cases "d = c")
    case False
    with z have old: "hm_get (connections r) d = Some z"
      by (simp add: r'(1))
    from registry_wf_connection [OF wf old] have ok: "conn_id z = d" "connection_ok enabled budgets z" .
    moreover have "conn_outbound_budget z \<noteq> conn_outbound_budget x"
      using registry_wf_inj [OF wf old get] False by blast
    ultimately show ?thesis
      using budgets [of "conn_outbound_budget z"] by (simp add: connection_ok_def)
  qed (use z y in simp)
next
  fix d d' u v
  assume "hm_get (connections (put_connection c y r')) d = Some u" "hm_get (connections (put_connection c y r')) d' = Some v"
    "conn_outbound_budget u = conn_outbound_budget v"
  then show "d = d'"
    using registry_wf_inj [OF wf get] registry_wf_inj [OF wf _ get] registry_wf_inj [OF wf] y(2)
    by (simp add: r'(1) split: if_splits)
qed

text \<open>Activity and metadata: nothing the index depends on changes.\<close>

lemma registry_wf_same:
  assumes wf: "registry_wf enabled budgets r" and get: "hm_get (connections r) c = Some x"
    and y: "conn_id y = conn_id x" "conn_outbound_budget y = conn_outbound_budget x" "conn_state y = conn_state x"
      "conn_identity y = conn_identity x" "conn_namespace y = conn_namespace x" "metadata_ok y"
  shows "registry_wf enabled budgets (put_connection c y r)"
proof (rule registry_wf_put [OF wf get])
  show "conn_id y = c" "conn_outbound_budget y = conn_outbound_budget x" "connection_ok enabled budgets y"
    using registry_wf_connection [OF wf get] y by (simp_all add: connection_ok_def)
  show "index_rel r = live_rel (put_connection c y r)"
    using registry_wf_index(2) [OF wf] live_rel_at [OF get] y(3-5) by (auto simp: live_rel_put)
qed (use registry_wf_index [OF wf] in auto)

text \<open>Withdrawing a connection and closing its budget.\<close>

lemma registry_wf_withdraw:
  assumes wf: "registry_wf enabled budgets r" and get: "hm_get (connections r) c = Some x"
  shows "registry_wf enabled (budgets[conn_outbound_budget x := budget_close (budgets ! conn_outbound_budget x)])
    (put_connection c (x\<lparr>conn_state := Closing\<rparr>)
      (remove_principal_membership_parts (conn_namespace x) c (conn_identity x) r))"
proof (rule registry_wf_put [OF wf get])
  note ok = registry_wf_connection [OF wf get]
  show "conn_id (x\<lparr>conn_state := Closing\<rparr>) = c"
    using ok(1) by simp
  show "connection_ok enabled (budgets[conn_outbound_budget x := budget_close (budgets ! conn_outbound_budget x)])
      (x\<lparr>conn_state := Closing\<rparr>)"
    using ok(2) by (auto simp: connection_ok_def metadata_ok_def budget_close_def)
  show "index_rel (remove_principal_membership_parts (conn_namespace x) c (conn_identity x) r)
      = live_rel (put_connection c (x\<lparr>conn_state := Closing\<rparr>) r)"
    using remove_parts_index(1) [OF registry_wf_index(1) [OF wf]] registry_wf_index(2) [OF wf] live_rel_at [OF get]
    by (auto simp: live_rel_put)
qed (use registry_wf_index [OF wf] remove_parts_index(2) in auto)

lemma registry_wf_remove:
  assumes wf: "registry_wf enabled budgets r" and get: "hm_get (connections r) c = Some x"
  shows "registry_wf enabled (budgets[conn_outbound_budget x := budget_close (budgets ! conn_outbound_budget x)])
    (remove_principal_membership x (r\<lparr>connections := hm_remove c (connections r)\<rparr>))"
proof (rule registry_wfI)
  let ?r = "r\<lparr>connections := hm_remove c (connections r)\<rparr>"
  note ok = registry_wf_connection [OF wf get]
  have get': "hm_get (connections (remove_principal_membership x ?r)) = (hm_get (connections r))(c := None)"
    by (simp add: remove_principal_membership_def delete_conv')
  have index: "index_ok ?r" "index_rel ?r = live_rel r"
    using registry_wf_index [OF wf] by (simp_all add: index_ok_def index_rel_def)
  show "hm_invar (connections (remove_principal_membership x ?r))"
    using registry_wf_index(4) [OF wf] by (simp add: remove_principal_membership_def distinct_delete)
  show "(principal_index (remove_principal_membership x ?r) \<noteq> None) = enabled"
    using registry_wf_index(3) [OF wf] by (simp add: remove_principal_membership_def)
  show "index_ok (remove_principal_membership x ?r)"
    using remove_parts_index(2) [OF index(1)] by (simp add: remove_principal_membership_def)
  have "live_rel (remove_principal_membership x ?r) = {(key, c') \<in> live_rel r. c' \<noteq> c}"
    unfolding live_rel_def get' by auto
  then show "index_rel (remove_principal_membership x ?r) = live_rel (remove_principal_membership x ?r)"
    using remove_parts_index(1) [OF index(1)] index(2) live_rel_at [OF get] ok(1)
    by (auto simp: remove_principal_membership_def)
  fix d z
  assume "hm_get (connections (remove_principal_membership x ?r)) d = Some z"
  then have old: "hm_get (connections r) d = Some z" "d \<noteq> c"
    unfolding get' by (auto split: if_splits)
  moreover have "conn_outbound_budget z \<noteq> conn_outbound_budget x"
    using registry_wf_inj [OF wf old(1) get] old(2) by blast
  ultimately show "conn_id z = d \<and> connection_ok enabled
      (budgets[conn_outbound_budget x := budget_close (budgets ! conn_outbound_budget x)]) z"
    using registry_wf_connection [OF wf old(1)] by (simp add: connection_ok_def)
next
  fix d d' u v
  assume "hm_get (connections (remove_principal_membership x (r\<lparr>connections := hm_remove c (connections r)\<rparr>))) d = Some u"
    "hm_get (connections (remove_principal_membership x (r\<lparr>connections := hm_remove c (connections r)\<rparr>))) d' = Some v"
    "conn_outbound_budget u = conn_outbound_budget v"
  then show "d = d'"
    using registry_wf_inj [OF wf]
    by (auto simp: remove_principal_membership_def delete_conv' simp del: map_of_eq_Some_iff split: if_splits)
qed

lemma add_parts_put:
  "add_principal_membership_parts ns c identity (put_connection d y r)
    = put_connection d y (add_principal_membership_parts ns c identity r)"
  by (auto simp: add_principal_membership_parts_def put_connection_def Let_def split: option.splits)

lemma registry_wf_reauthenticate:
  assumes wf: "registry_wf enabled budgets r" and get: "hm_get (connections r) c = Some x"
    and x: "conn_state x = Connected" "conn_identity x = Some current"
  shows "registry_wf enabled budgets
    (add_principal_membership_parts (conn_namespace x) c (Some snapshot)
      (put_connection c (x\<lparr>conn_identity := Some snapshot\<rparr>)
        (remove_principal_membership_parts (conn_namespace x) c (Some current) r)))"
proof -
  let ?y = "x\<lparr>conn_identity := Some snapshot\<rparr>"
  let ?removed = "remove_principal_membership_parts (conn_namespace x) c (Some current) r"
  let ?added = "add_principal_membership_parts (conn_namespace x) c (Some snapshot) ?removed"
  note ok = registry_wf_connection [OF wf get]
  note index = registry_wf_index [OF wf]
  note removed = remove_parts_index [OF index(1)]
  note added = add_parts_index [OF removed(2)]
  have enabled: "principal_index r \<noteq> None"
    using ok(2) index(3) x(2) by (simp add: connection_ok_def)
  have "registry_wf enabled budgets (put_connection c ?y ?added)"
  proof (rule registry_wf_put [OF wf get])
    show "conn_id ?y = c" "conn_outbound_budget ?y = conn_outbound_budget x" "connection_ok enabled budgets ?y"
      using ok x(2) by (simp_all add: connection_ok_def metadata_ok_def)
    show "index_ok ?added"
      by (rule added(2))
    show "index_rel ?added = live_rel (put_connection c ?y r)"
      using index(2) live_rel_at [OF get] x enabled by (auto simp: added(1) removed(1) live_rel_put)
  qed auto
  then show ?thesis
    unfolding add_parts_put .
qed

text \<open>A connection that is about to be published.\<close>

definition admissible :: "ConnectionManager \<Rightarrow> Connection \<Rightarrow> bool" where
  "admissible m x \<longleftrightarrow>
     get_connection (conn_id x) m = None \<and> conn_state x = Connected
     \<and> connection_ok (mgr_identity_index_enabled m) (mgr_budgets m) x
     \<and> (\<forall>c y. get_connection c m = Some y \<longrightarrow> conn_outbound_budget y \<noteq> conn_outbound_budget x)"

lemma registry_wf_admit:
  assumes wf: "registry_wf (mgr_identity_index_enabled m) (mgr_budgets m) (mgr_registry m)" and x: "admissible m x"
  shows "registry_wf (mgr_identity_index_enabled m) (mgr_budgets m)
    (put_connection (conn_id x) x (add_principal_membership x (mgr_registry m)))"
proof (rule registry_wfI)
  let ?r = "mgr_registry m"
  let ?r' = "put_connection (conn_id x) x (add_principal_membership x ?r)"
  note index = registry_wf_index [OF wf]
  note added = add_parts_index [OF index(1)]
  have get': "hm_get (connections ?r') = (hm_get (connections ?r))(conn_id x \<mapsto> x)"
    by (simp add: add_principal_membership_def)
  have fresh: "hm_get (connections ?r) (conn_id x) = None" and ok: "connection_ok (mgr_identity_index_enabled m) (mgr_budgets m) x"
    and budget: "\<And>c y. hm_get (connections ?r) c = Some y \<Longrightarrow> conn_outbound_budget y \<noteq> conn_outbound_budget x"
    and state: "conn_state x = Connected"
    using x unfolding admissible_def by blast+
  show "hm_invar (connections ?r')"
    using index(4) by (simp add: add_principal_membership_def)
  show "(principal_index ?r' \<noteq> None) = mgr_identity_index_enabled m" "index_ok ?r'"
    using index(3) added(2) by (simp_all add: add_principal_membership_def)
  have "live_rel ?r' = live_rel ?r \<union> {(key, conn_id x) | key. principal_key (conn_namespace x) (conn_identity x) = Some key}"
    using fresh state unfolding live_rel_def get' by (auto simp del: map_of_eq_Some_iff split: if_splits)
  moreover have "principal_index ?r \<noteq> None" if "principal_key (conn_namespace x) (conn_identity x) = Some key" for key
    using that ok index(3) by (auto simp: principal_key_def connection_ok_def)
  ultimately show "index_rel ?r' = live_rel ?r'"
    using index(2) added(1) by (auto simp: add_principal_membership_def)
  show "conn_id z = d \<and> connection_ok (mgr_identity_index_enabled m) (mgr_budgets m) z"
    if "hm_get (connections ?r') d = Some z" for d z
    using that registry_wf_connection [OF wf] ok unfolding get' by (auto simp del: map_of_eq_Some_iff split: if_splits)
  show "d = d'" if "hm_get (connections ?r') d = Some u" "hm_get (connections ?r') d' = Some v"
    "conn_outbound_budget u = conn_outbound_budget v" for d d' u v
    using that registry_wf_inj [OF wf] budget unfolding get'
    by (metis fun_upd_def option.inject)
qed

section \<open>Operations on the manager\<close>

lemma control_ok_request: "control_ok control \<Longrightarrow> control_ok (snd (request_close message category sent control))"
  by (simp add: control_ok_def request_close_def)

lemma send_close_keep [simp]:
  "mgr_registry (snd (send_close a message category sent m)) = mgr_registry m"
  "mgr_groups (snd (send_close a message category sent m)) = mgr_groups m"
  "mgr_budgets (snd (send_close a message category sent m)) = mgr_budgets m"
  "mgr_identity_index_enabled (snd (send_close a message category sent m)) = mgr_identity_index_enabled m"
  by (simp_all add: send_close_def split_beta)

lemma manager_wf_send_close: "manager_wf m \<Longrightarrow> manager_wf (snd (send_close a message category sent m))"
  using control_ok_request
  by (cases "a < length (mgr_controls m)")
    (auto simp: manager_wf_def send_close_def split_beta list_all_length nth_list_update)

lemma manager_wf_registry:
  assumes "manager_wf m" "mgr_groups m' = mgr_groups m" "mgr_controls m' = mgr_controls m"
    "mgr_max_rooms_per_connection m' = mgr_max_rooms_per_connection m"
    "mgr_max_room_name_length m' = mgr_max_room_name_length m"
    "registry_wf (mgr_identity_index_enabled m') (mgr_budgets m') (mgr_registry m')"
  shows "manager_wf m'"
  using assms by (simp add: manager_wf_def)

lemma manager_wf_withdraw:
  assumes "manager_wf m" "get_connection c m = Some x"
  shows "manager_wf (close_budget (conn_outbound_budget x) (withdraw c x m))"
  using assms registry_wf_withdraw [of _ _ "mgr_registry m" c x]
  by (intro manager_wf_registry [OF assms(1)]) (simp_all add: close_budget_def withdraw_def manager_wf_def)

text \<open>The budget of a connection that is closing is closed already.\<close>

lemma close_budget_closing:
  assumes "manager_wf m" "get_connection c m = Some x" "conn_state x \<noteq> Connected"
  shows "close_budget (conn_outbound_budget x) m = m"
proof -
  have "connection_ok (mgr_identity_index_enabled m) (mgr_budgets m) x"
    using assms(1,2) registry_wf_connection(2) unfolding manager_wf_def by blast
  then have "budget_close (mgr_budgets m ! conn_outbound_budget x) = mgr_budgets m ! conn_outbound_budget x"
    using assms(3) by (auto simp: connection_ok_def budget_close_def)
  then show ?thesis
    by (simp add: close_budget_def list_update_id)
qed

lemma manager_wf_put:
  assumes "manager_wf m" "get_connection c m = Some x" "conn_id y = conn_id x"
    "conn_outbound_budget y = conn_outbound_budget x" "conn_state y = conn_state x"
    "conn_identity y = conn_identity x" "conn_namespace y = conn_namespace x" "metadata_ok y"
  shows "manager_wf (on_registry (put_connection c y) m)"
  using assms registry_wf_same [of _ _ "mgr_registry m" c x y]
  by (intro manager_wf_registry [OF assms(1)]) (simp_all add: manager_wf_def)

lemma manager_wf_connection:
  "manager_wf m \<Longrightarrow> get_connection c m = Some x \<Longrightarrow>
     conn_id x = c \<and> connection_ok (mgr_identity_index_enabled m) (mgr_budgets m) x"
  using registry_wf_connection unfolding manager_wf_def by blast

section \<open>Operations under the write lock\<close>

text \<open>The namespace a connection is registered in.\<close>

definition namespace_of :: "ConnectionManager \<Rightarrow> Uuid \<Rightarrow> string option" where
  "namespace_of m c = map_option conn_namespace (get_connection c m)"

text \<open>An operation that keeps every registration, the groups and the configuration.\<close>

definition keeps :: "ConnectionManager \<Rightarrow> ConnectionManager \<Rightarrow> bool" where
  "keeps m m' \<longleftrightarrow> namespace_of m' = namespace_of m \<and> mgr_groups m' = mgr_groups m"

lemma keeps_refl [simp]: "keeps m m"
  by (simp add: keeps_def)

lemma keeps_trans: "keeps m m' \<Longrightarrow> keeps m' m'' \<Longrightarrow> keeps m m''"
  by (simp add: keeps_def)

lemma keeps_send_close [simp]: "keeps m (snd (send_close a message category sent m'')) = keeps m m''"
  by (simp add: keeps_def namespace_of_def fun_eq_iff)

lemma keeps_close_budget [simp]: "keeps m (close_budget a m'') = keeps m m''"
  by (simp add: keeps_def namespace_of_def close_budget_def fun_eq_iff)

lemma keeps_put:
  "get_connection c m = Some x \<Longrightarrow> conn_namespace y = conn_namespace x \<Longrightarrow> keeps m (on_registry (put_connection c y) m)"
  by (auto simp: keeps_def namespace_of_def fun_eq_iff)

lemma keeps_withdraw: "get_connection c m = Some x \<Longrightarrow> keeps m (withdraw c x m)"
  by (auto simp: keeps_def namespace_of_def withdraw_def fun_eq_iff)

lemma keeps_remove_parts [simp]: "keeps m (on_registry (remove_principal_membership_parts ns c identity) m)"
  by (simp add: keeps_def namespace_of_def fun_eq_iff)

datatype write_op =
    RecordLiveness Uuid nat
  | RecordActivity Uuid nat
  | SetMetadata string Uuid string string
  | Reauthenticate Uuid WebSocketIdentityRevision AuthenticatedWebSocketIdentity nat nat
  | ClaimExpiry Uuid WebSocketIdentityRevision "nat option" nat bool
  | MarkClosing Uuid
  | CloseSlowConsumer ConnectionAdmissionTarget bool
  | RequestClose Uuid "CloseFrame option" WsConnectionCloseCategory nat bool
  | ClaimInactive nat nat

fun apply_write_op :: "write_op \<Rightarrow> ConnectionManager \<Rightarrow> ConnectionManager" where
  "apply_write_op (RecordLiveness c now) m = snd (record_liveness c now m)"
| "apply_write_op (RecordActivity c now) m = snd (record_application_activity c now m)"
| "apply_write_op (SetMetadata ns c key value) m = snd (set_connection_metadata ns c key value m)"
| "apply_write_op (Reauthenticate c revision replacement now now') m =
     snd (reauthenticate c revision replacement now now' m)"
| "apply_write_op (ClaimExpiry c revision budget now sent) m =
     snd (claim_identity_expiry_for_generation c revision budget now sent m)"
| "apply_write_op (MarkClosing c) m = snd (mark_closing c m)"
| "apply_write_op (CloseSlowConsumer target sent) m = snd (close_slow_consumer target sent m)"
| "apply_write_op (RequestClose c frame category now sent) m = snd (request_close_frame c frame category now sent m)"
| "apply_write_op (ClaimInactive now timeout) m = snd (claim_inactive_connections now timeout m)"

lemma metadata_ok_insert:
  assumes "metadata_ok x" "validate_connection_metadata key value = Ok ()"
    "\<not> (hm_get (conn_metadata x) key = None \<and> MAX_CONNECTION_METADATA_ENTRIES \<le> length (conn_metadata x))"
  shows "metadata_ok (x\<lparr>conn_metadata := hm_insert key value (conn_metadata x)\<rparr>)"
proof -
  have len: "length (hm_insert k v m) = (if hm_get m k = None then Suc (length m) else length m)" for k v and m :: "(string, string) hashmap"
    by (induction m) auto
  show ?thesis
    using assms unfolding metadata_ok_def
    by (auto simp: len update_conv' distinct_update simp del: map_of_eq_Some_iff)
qed

lemma metadata_ok_connection: "manager_wf m \<Longrightarrow> get_connection c m = Some x \<Longrightarrow> metadata_ok x"
  using manager_wf_connection by (auto simp: connection_ok_def)

lemma metadata_ok_times [simp]:
  "metadata_ok (x\<lparr>conn_last_liveness_at := t\<rparr>) = metadata_ok x"
  "metadata_ok (x\<lparr>conn_last_liveness_at := t, conn_last_application_activity_at := u\<rparr>) = metadata_ok x"
  by (simp_all add: metadata_ok_def)

lemma write_activity:
  assumes "manager_wf m"
  shows "manager_wf (snd (record_liveness c now m)) \<and> keeps m (snd (record_liveness c now m))"
    and "manager_wf (snd (record_application_activity c now m)) \<and> keeps m (snd (record_application_activity c now m))"
  using assms manager_wf_put [OF assms] keeps_put metadata_ok_connection [OF assms]
  by (auto simp: record_liveness_def record_application_activity_def split: option.splits)

lemma write_metadata:
  assumes "manager_wf m"
  shows "manager_wf (snd (set_connection_metadata ns c key value m)) \<and> keeps m (snd (set_connection_metadata ns c key value m))"
proof (cases "get_connection c m")
  case (Some x)
  let ?y = "x\<lparr>conn_metadata := hm_insert key value (conn_metadata x)\<rparr>"
  have "manager_wf (on_registry (put_connection c ?y) m) \<and> keeps m (on_registry (put_connection c ?y) m)"
    if "validate_connection_metadata key value = Ok ()"
      "\<not> (hm_get (conn_metadata x) key = None \<and> MAX_CONNECTION_METADATA_ENTRIES \<le> length (conn_metadata x))"
    using manager_wf_put [OF assms Some, of ?y] keeps_put [OF Some, of ?y]
      metadata_ok_insert [OF metadata_ok_connection [OF assms Some] that] by simp
  then show ?thesis
    using assms Some by (simp add: set_connection_metadata_def split: sum.splits)
qed (use assms in \<open>simp add: set_connection_metadata_def split: sum.splits\<close>)

lemma write_reauthenticate:
  assumes "manager_wf m"
  shows "manager_wf (snd (reauthenticate c revision replacement now now' m))
    \<and> keeps m (snd (reauthenticate c revision replacement now now' m))"
proof (cases "get_connection c m")
  case (Some x)
  have "manager_wf (on_registry
        (add_principal_membership_parts (conn_namespace x) c (Some snapshot)
          \<circ> put_connection c (x\<lparr>conn_identity := Some snapshot\<rparr>)
          \<circ> remove_principal_membership_parts (conn_namespace x) c (Some current)) m)"
    if "conn_state x = Connected" "conn_identity x = Some current" for current snapshot
    using assms registry_wf_reauthenticate [OF _ Some that, of _ _ snapshot]
    by (intro manager_wf_registry [OF assms]) (simp_all add: manager_wf_def)
  moreover have "keeps m (on_registry
        (add_principal_membership_parts (conn_namespace x) c (Some snapshot)
          \<circ> put_connection c (x\<lparr>conn_identity := Some snapshot\<rparr>)
          \<circ> remove_principal_membership_parts (conn_namespace x) c (Some current)) m)" for current snapshot
    using Some by (auto simp: keeps_def namespace_of_def fun_eq_iff)
  ultimately show ?thesis
    using assms Some by (auto simp: reauthenticate_def simp del: comp_apply split: option.splits)
qed (use assms in \<open>simp add: reauthenticate_def\<close>)

text \<open>A connection that is closing is not in the index, so removing its membership changes nothing.\<close>

lemma manager_wf_remove_parts:
  assumes "manager_wf m" "get_connection c m = Some x" "conn_state x \<noteq> Connected"
  shows "manager_wf (on_registry (remove_principal_membership_parts ns c identity) m)"
proof (rule manager_wf_registry [OF assms(1)])
  have wf: "registry_wf (mgr_identity_index_enabled m) (mgr_budgets m) (mgr_registry m)"
    using assms(1) by (simp add: manager_wf_def)
  note index = registry_wf_index [OF wf]
  have "index_rel (remove_principal_membership_parts ns c identity (mgr_registry m)) = live_rel (mgr_registry m)"
    using remove_parts_index(1) [OF index(1)] index(2) live_rel_at [OF assms(2)] assms(3) by auto
  then have "registry_wf (mgr_identity_index_enabled m) (mgr_budgets m)
      (remove_principal_membership_parts ns c identity (mgr_registry m))"
    using wf remove_parts_index(2) [OF index(1)] live_rel_connections [OF parts_keep(1)]
    unfolding registry_wf_def parts_keep by blast
  then show "registry_wf (mgr_identity_index_enabled (on_registry (remove_principal_membership_parts ns c identity) m))
      (mgr_budgets (on_registry (remove_principal_membership_parts ns c identity) m))
      (mgr_registry (on_registry (remove_principal_membership_parts ns c identity) m))"
    by simp
qed simp_all

lemma manager_wf_close_removed:
  assumes "manager_wf m" "get_connection c m = Some x" "conn_state x \<noteq> Connected"
  shows "manager_wf (close_budget (conn_outbound_budget x)
    (on_registry (remove_principal_membership_parts ns c identity) m))"
  using close_budget_closing [OF manager_wf_remove_parts [OF assms], where c = c and x = x] assms
    manager_wf_remove_parts [OF assms] by simp

lemma write_claim_expiry:
  assumes "manager_wf m"
  shows "manager_wf (snd (claim_identity_expiry_for_generation c revision budget now sent m))
    \<and> keeps m (snd (claim_identity_expiry_for_generation c revision budget now sent m))"
proof (cases "get_connection c m")
  case (Some x)
  note facts = assms Some manager_wf_send_close keeps_withdraw [OF Some] manager_wf_withdraw [OF assms Some]
    manager_wf_close_removed [OF assms Some]
  show ?thesis
    using facts
    by (auto simp: claim_identity_expiry_for_generation_def Let_def split_beta split: option.splits sum.splits)
qed (use assms in \<open>simp add: claim_identity_expiry_for_generation_def\<close>)

lemma write_mark_closing:
  assumes "manager_wf m"
  shows "manager_wf (snd (mark_closing c m)) \<and> keeps m (snd (mark_closing c m))"
  using assms manager_wf_withdraw [OF assms] keeps_withdraw by (auto simp: mark_closing_def split: option.splits)

lemma write_slow_consumer:
  assumes "manager_wf m"
  shows "manager_wf (snd (close_slow_consumer target sent m)) \<and> keeps m (snd (close_slow_consumer target sent m))"
proof (cases "get_connection (target_connection_id target) m")
  case (Some x)
  show ?thesis
  proof (cases "conn_outbound_budget x = target_budget target \<and> conn_state x = Connected")
    case True
    then show ?thesis
      using Some manager_wf_send_close [OF manager_wf_withdraw [OF assms Some]] keeps_withdraw [OF Some]
      by (auto simp: close_slow_consumer_def)
  qed (use assms Some in \<open>auto simp: close_slow_consumer_def\<close>)
qed (use assms in \<open>simp add: close_slow_consumer_def\<close>)

lemma write_request_close:
  assumes "manager_wf m"
  shows "manager_wf (snd (request_close_frame c frame category now sent m))
    \<and> keeps m (snd (request_close_frame c frame category now sent m))"
proof (cases "get_connection c m")
  case (Some x)
  have closing: "conn_state x \<noteq> Connected \<Longrightarrow> manager_wf (close_budget (conn_outbound_budget x) m)"
    using close_budget_closing [OF assms Some] assms by simp
  show ?thesis
    using assms Some manager_wf_send_close keeps_withdraw [OF Some] manager_wf_withdraw [OF assms Some] closing
    by (auto simp: request_close_frame_def Let_def split_beta split: sum.splits)
qed (use assms in \<open>simp add: request_close_frame_def\<close>)

lemma write_claim_stale:
  assumes "manager_wf m"
  shows "manager_wf (claim_stale c m) \<and> keeps m (claim_stale c m)"
  using assms manager_wf_withdraw [OF assms] keeps_withdraw by (auto simp: claim_stale_def split: option.splits)

lemma write_claim_all_stale:
  "manager_wf m \<Longrightarrow> manager_wf (foldl (\<lambda>m c. claim_stale c m) m cs) \<and> keeps m (foldl (\<lambda>m c. claim_stale c m) m cs)"
proof (induction cs arbitrary: m)
  case (Cons c cs)
  note stale = write_claim_stale [OF Cons.prems, of c]
  show ?case
    using Cons.IH [of "claim_stale c m"] stale keeps_trans by auto
qed simp

lemma write_op_wf:
  assumes "manager_wf m"
  shows "manager_wf (apply_write_op op m)" and "keeps m (apply_write_op op m)"
  using write_activity [OF assms] write_metadata [OF assms] write_reauthenticate [OF assms]
    write_claim_expiry [OF assms] write_mark_closing [OF assms] write_slow_consumer [OF assms]
    write_request_close [OF assms] write_claim_all_stale [OF assms]
  by (cases op; simp add: claim_inactive_connections_def Let_def)+

section \<open>Admission, removal and rooms\<close>

lemma admission_begin_wf:
  assumes "manager_wf m" "admission_begin c control ns identity instant now m = (r, m')"
  shows "manager_wf m' \<and> keeps m m' \<and> (\<forall>x. r = Ok x \<longrightarrow> admissible m' x)"
proof -
  let ?m = "m\<lparr>mgr_budgets := mgr_budgets m @ [budget_new (mgr_outbound_queue_max_bytes m)]\<rparr>"
  have ok: "connection_ok e (bs @ bs') x" if "connection_ok e bs x" for e bs bs' x
    using that by (simp add: connection_ok_def nth_append)
  have wf: "registry_wf (mgr_identity_index_enabled m) (mgr_budgets m) (mgr_registry m)"
    using assms(1) by (simp add: manager_wf_def)
  have "registry_wf (mgr_identity_index_enabled m) (mgr_budgets m @ bs) (mgr_registry m)" for bs
    using wf ok unfolding registry_wf_def by blast
  then have "manager_wf ?m"
    by (intro manager_wf_registry [OF assms(1)]) simp_all
  moreover have "keeps m ?m"
    by (simp add: keeps_def namespace_of_def fun_eq_iff)
  moreover have "conn_outbound_budget y \<noteq> length (mgr_budgets m)" if "get_connection d m = Some y" for d y
    using manager_wf_connection [OF assms(1) that] by (simp add: connection_ok_def)
  ultimately show ?thesis
    using assms
    by (auto simp: admission_begin_def Let_def admissible_def connection_ok_def metadata_ok_def budget_new_def
        MAX_CONNECTION_METADATA_ENTRIES_def simp del: map_of_eq_Some_iff split: option.splits if_splits)
qed

lemma groups_wf_step:
  assumes "groups_wf M L g" "case op of JoinRoom _ _ _ max_rooms max_len \<Rightarrow> max_rooms = M \<and> max_len = L | _ \<Rightarrow> True"
  shows "groups_wf M L (snd (group_step op g))"
proof -
  have g: "group_ok g" "within_limits M L (group_abs g)"
    using assms(1) by (simp_all add: groups_wf_def)
  note refines = group_step_refines [OF g(1), of op]
  have "within_limits M L (group_abs (snd (group_step op g)))"
  proof (cases op)
    case (JoinRoom n r c max_rooms max_len)
    then have "op = JoinRoom n r c M L"
      using assms(2) by simp
    then have "within_limits M L (snd (membership_step op (group_abs g)))"
      using join_within_limits [OF g(2)] by blast
    then show ?thesis by (simp only: refines(2) snd_conv)
  next
    case (AddConnection n c)
    have "within_limits M L (snd (membership_step op (group_abs g)))"
      by (rule within_limits_shrinks [OF g(2)]) (simp_all add: AddConnection)
    then show ?thesis by (simp only: refines(2) snd_conv)
  next
    case (RemoveConnection n c)
    have "within_limits M L (snd (membership_step op (group_abs g)))"
      by (rule within_limits_shrinks [OF g(2)]) (auto simp: RemoveConnection)
    then show ?thesis by (simp only: refines(2) snd_conv)
  next
    case (LeaveRoom n r c)
    have "within_limits M L (snd (membership_step op (group_abs g)))"
      by (rule within_limits_shrinks [OF g(2)]) (auto simp: LeaveRoom)
    then show ?thesis by (simp only: refines(2) snd_conv)
  qed
  then show ?thesis
    using refines(1) by (simp add: groups_wf_def)
qed

lemma manager_wf_groups:
  assumes "manager_wf m" "groups_wf (mgr_max_rooms_per_connection m) (mgr_max_room_name_length m) g"
  shows "manager_wf (m\<lparr>mgr_groups := g\<rparr>)"
  using assms by (simp add: manager_wf_def)

text \<open>Each of the parts below is one group operation.\<close>

lemma room_parts:
  "snd (join_commit n c r m) = m\<lparr>mgr_groups := snd (group_step
     (JoinRoom n r c (mgr_max_rooms_per_connection m) (mgr_max_room_name_length m)) (mgr_groups m))\<rparr>"
  "snd (leave_commit n c r m) = m\<lparr>mgr_groups := snd (group_step (LeaveRoom n r c) (mgr_groups m))\<rparr>"
  "snd (removal_finish n c m) = m\<lparr>mgr_groups := snd (group_step (RemoveConnection n c) (mgr_groups m))\<rparr>"
  by (simp_all add: join_commit_def leave_commit_def on_groups_def removal_finish_def split: prod.splits sum.splits)

lemma room_parts_wf:
  assumes "manager_wf m"
  shows "manager_wf (snd (join_commit n c r m))" "manager_wf (snd (leave_commit n c r m))"
    "manager_wf (snd (removal_finish n c m))"
proof -
  have "groups_wf (mgr_max_rooms_per_connection m) (mgr_max_room_name_length m) (mgr_groups m)"
    using assms by (simp add: manager_wf_def)
  note step = manager_wf_groups [OF assms groups_wf_step [OF this]]
  show "manager_wf (snd (join_commit n c r m))" "manager_wf (snd (leave_commit n c r m))"
    "manager_wf (snd (removal_finish n c m))"
    unfolding room_parts by (rule step, simp)+
qed

lemma admission_commit_wf:
  assumes "manager_wf m" "admissible m x"
  shows "manager_wf (snd (admission_commit x m))"
proof (cases "add_connection_to_namespace (conn_namespace x) (conn_id x) (mgr_groups m)")
  case (Pair reply g)
  have "groups_wf (mgr_max_rooms_per_connection m) (mgr_max_room_name_length m)
      (snd (group_step (AddConnection (conn_namespace x) (conn_id x)) (mgr_groups m)))"
    by (rule groups_wf_step) (use assms(1) in \<open>simp_all add: manager_wf_def\<close>)
  then have g: "groups_wf (mgr_max_rooms_per_connection m) (mgr_max_room_name_length m) g"
    by (simp add: Pair)
  have "registry_wf (mgr_identity_index_enabled m) (mgr_budgets m)
      (put_connection (conn_id x) x (add_principal_membership x (mgr_registry m)))"
    by (rule registry_wf_admit) (use assms in \<open>simp_all add: manager_wf_def\<close>)
  then show ?thesis
    using assms(1) g by (auto simp: admission_commit_def Pair manager_wf_def split: sum.splits)
qed

lemma removal_begin_wf:
  assumes "manager_wf m" "removal_begin c m = (Some x, m')"
  shows "manager_wf m'" "get_connection c m = Some x" "mgr_groups m' = mgr_groups m"
    "namespace_of m' = (namespace_of m)(c := None)"
proof -
  show get: "get_connection c m = Some x" and "mgr_groups m' = mgr_groups m"
    using assms(2) by (auto simp: removal_begin_def close_budget_def split: option.splits)
  show "namespace_of m' = (namespace_of m)(c := None)"
    using assms(2) by (auto simp: removal_begin_def close_budget_def namespace_of_def remove_principal_membership_def
        delete_conv' fun_eq_iff simp del: map_of_eq_Some_iff split: option.splits)
  show "manager_wf m'"
    using assms registry_wf_remove [of _ _ "mgr_registry m" c x]
    by (intro manager_wf_registry [OF assms(1)])
      (auto simp: removal_begin_def close_budget_def manager_wf_def split: option.splits)
qed

section \<open>Interleaving\<close>

text \<open>
  The tasks in flight: joins and leaves that hold the registry for reading, at most one admission
  that holds it for writing, and removals that have left the registry and not yet the groups.
  A task can be dropped while it waits for the groups: a join, a leave or an admission then
  releases the registry without any effect. A removal that is dropped there stays among the
  removals that have not finished. A removal closes the byte budget in the step in which it takes
  the connection out of the registry; the code does so right after it has released the lock.
\<close>

datatype room_job = Joining string Uuid string | Leaving string Uuid string

fun job_connection :: "room_job \<Rightarrow> string \<times> Uuid" where
  "job_connection (Joining n c r) = (n, c)"
| "job_connection (Leaving n c r) = (n, c)"

record WsState =
  ws_manager :: ConnectionManager
  ws_readers :: "room_job list"
  ws_admission :: "Connection option"
  ws_removals :: "(string \<times> Uuid) list"
  ws_clock :: nat

text \<open>The readings of the monotonic clock that an operation takes under the lock.\<close>

fun op_instants :: "write_op \<Rightarrow> nat list" where
  "op_instants (Reauthenticate c revision replacement now now') = [now, now']"
| "op_instants (ClaimExpiry c revision budget now sent) = [now]"
| "op_instants (RequestClose c frame category now sent) = [now]"
| "op_instants _ = []"

definition may_read :: "WsState \<Rightarrow> bool" where
  "may_read s \<longleftrightarrow> ws_admission s = None"

definition may_write :: "WsState \<Rightarrow> bool" where
  "may_write s \<longleftrightarrow> ws_admission s = None \<and> ws_readers s = []"

fun job_commit :: "room_job \<Rightarrow> ConnectionManager \<Rightarrow> ConnectionManager" where
  "job_commit (Joining n c r) m = snd (join_commit n c r m)"
| "job_commit (Leaving n c r) m = snd (leave_commit n c r m)"

inductive ws_step :: "WsState \<Rightarrow> WsState \<Rightarrow> bool" where
  channel: "ws_step s (s\<lparr>ws_manager := snd (connection_control_channel (ws_manager s))\<rparr>)"
| close_sent: "ws_step s (s\<lparr>ws_manager := snd (send_close a message category sent (ws_manager s))\<rparr>)"
| room_begin: "may_read s \<Longrightarrow> room_check (fst (job_connection job)) (snd (job_connection job)) (ws_manager s) = Ok ()
    \<Longrightarrow> ws_step s (s\<lparr>ws_readers := job # ws_readers s\<rparr>)"
| room_end: "job \<in> set (ws_readers s)
    \<Longrightarrow> ws_step s (s\<lparr>ws_readers := remove1 job (ws_readers s), ws_manager := job_commit job (ws_manager s)\<rparr>)"
| room_dropped: "job \<in> set (ws_readers s) \<Longrightarrow> ws_step s (s\<lparr>ws_readers := remove1 job (ws_readers s)\<rparr>)"
| admission_start: "may_write s \<Longrightarrow> admission_begin c control ns identity instant now (ws_manager s) = (Inr x, m)
    \<Longrightarrow> ws_step s (s\<lparr>ws_admission := Some x, ws_manager := m\<rparr>)"
| admission_refused: "may_write s \<Longrightarrow> admission_begin c control ns identity instant now (ws_manager s) = (Inl e, m)
    \<Longrightarrow> ws_step s (s\<lparr>ws_manager := m\<rparr>)"
| admission_end: "ws_admission s = Some x
    \<Longrightarrow> ws_step s (s\<lparr>ws_admission := None, ws_manager := snd (admission_commit x (ws_manager s))\<rparr>)"
| admission_dropped: "ws_admission s = Some x \<Longrightarrow> ws_step s (s\<lparr>ws_admission := None\<rparr>)"
| removal_start: "may_write s \<Longrightarrow> removal_begin c (ws_manager s) = (Some x, m)
    \<Longrightarrow> ws_step s (s\<lparr>ws_removals := (conn_namespace x, c) # ws_removals s, ws_manager := m\<rparr>)"
| removal_end: "(n, c) \<in> set (ws_removals s)
    \<Longrightarrow> ws_step s (s\<lparr>ws_removals := remove1 (n, c) (ws_removals s), ws_manager := snd (removal_finish n c (ws_manager s))\<rparr>)"
| tick: "ws_clock s \<le> t \<Longrightarrow> ws_step s (s\<lparr>ws_clock := t\<rparr>)"
| write_locked: "may_write s \<Longrightarrow> list_all (\<lambda>t. ws_clock s \<le> t) (op_instants op)
    \<Longrightarrow> ws_step s (s\<lparr>ws_manager := apply_write_op op (ws_manager s)\<rparr>)"

definition ws_init :: "nat \<Rightarrow> nat \<Rightarrow> string list \<Rightarrow> bool \<Rightarrow> nat \<Rightarrow> WsState" where
  "ws_init max_rooms max_len namespaces enabled queue_bytes =
     \<lparr>ws_manager = manager_new max_rooms max_len namespaces enabled queue_bytes,
      ws_readers = [], ws_admission = None, ws_removals = [], ws_clock = 0\<rparr>"

text \<open>A member is registered in the namespace, or its removal is under way.\<close>

definition accounted :: "WsState \<Rightarrow> string \<Rightarrow> Uuid \<Rightarrow> bool" where
  "accounted s n c \<longleftrightarrow> namespace_of (ws_manager s) c = Some n \<or> (n, c) \<in> set (ws_removals s)"

definition no_ghosts :: "WsState \<Rightarrow> bool" where
  "no_ghosts s \<longleftrightarrow>
     (\<forall>n c. (n, c) \<in> present (group_abs (mgr_groups (ws_manager s))) \<longrightarrow> accounted s n c)
     \<and> (\<forall>n r c. (n, r, c) \<in> joined (group_abs (mgr_groups (ws_manager s))) \<longrightarrow> accounted s n c)"

definition ws_inv :: "WsState \<Rightarrow> bool" where
  "ws_inv s \<longleftrightarrow>
     manager_wf (ws_manager s)
     \<and> (\<forall>job\<in>set (ws_readers s). namespace_of (ws_manager s) (snd (job_connection job)) = Some (fst (job_connection job)))
     \<and> (\<forall>x. ws_admission s = Some x \<longrightarrow> ws_readers s = [] \<and> admissible (ws_manager s) x)
     \<and> no_ghosts s"

lemma room_check_namespace: "room_check n c m = Ok () \<Longrightarrow> namespace_of m c = Some n"
  by (auto simp: room_check_def namespace_of_def split: sum.splits option.splits if_splits)

text \<open>Steps that keep registrations and groups keep the invariant.\<close>

lemma ws_inv_keeps:
  assumes "ws_inv s" "manager_wf m" "keeps (ws_manager s) m" "ws_manager s' = m"
    "ws_removals s' = ws_removals s" "set (ws_readers s') \<subseteq> set (ws_readers s)"
    "\<And>x. ws_admission s' = Some x \<Longrightarrow> ws_readers s' = [] \<and> admissible m x"
  shows "ws_inv s'"
  using assms unfolding ws_inv_def no_ghosts_def accounted_def keeps_def by auto

text \<open>Group operations: what they add is accounted for, and nothing else changes.\<close>

lemma ws_inv_groups:
  assumes inv: "ws_inv s" and g: "groups_wf (mgr_max_rooms_per_connection (ws_manager s))
      (mgr_max_room_name_length (ws_manager s)) g"
    and s': "ws_manager s' = (ws_manager s)\<lparr>mgr_groups := g\<rparr>" "ws_admission s' = ws_admission s"
      "set (ws_readers s') \<subseteq> set (ws_readers s)"
    and present: "\<And>n c. (n, c) \<in> present (group_abs g) \<Longrightarrow> accounted s' n c"
    and joined: "\<And>n r c. (n, r, c) \<in> joined (group_abs g) \<Longrightarrow> accounted s' n c"
  shows "ws_inv s'"
proof -
  have "admissible ((ws_manager s)\<lparr>mgr_groups := g\<rparr>) x = admissible (ws_manager s) x" for x
    by (simp add: admissible_def)
  moreover have "namespace_of ((ws_manager s)\<lparr>mgr_groups := g\<rparr>) = namespace_of (ws_manager s)"
    by (simp add: namespace_of_def fun_eq_iff)
  moreover have "manager_wf (ws_manager s')"
    using inv g manager_wf_groups unfolding ws_inv_def s'(1) by blast
  ultimately show ?thesis
    using inv s' present joined unfolding ws_inv_def no_ghosts_def by auto
qed

lemma accounted_registered:
  "namespace_of (ws_manager s') = namespace_of (ws_manager s) \<Longrightarrow> set (ws_removals s) \<subseteq> set (ws_removals s')
    \<Longrightarrow> accounted s n c \<Longrightarrow> accounted s' n c"
  by (auto simp: accounted_def)

lemma ws_inv_ghosts:
  assumes "ws_inv s"
  shows "(n, c) \<in> present (group_abs (mgr_groups (ws_manager s))) \<Longrightarrow> accounted s n c"
    and "(n, r, c) \<in> joined (group_abs (mgr_groups (ws_manager s))) \<Longrightarrow> accounted s n c"
  using assms unfolding ws_inv_def no_ghosts_def by blast+

lemma ws_inv_group_wf:
  assumes "ws_inv s"
  shows "group_ok (mgr_groups (ws_manager s))"
    and "groups_wf (mgr_max_rooms_per_connection (ws_manager s)) (mgr_max_room_name_length (ws_manager s))
      (mgr_groups (ws_manager s))"
  using assms unfolding ws_inv_def manager_wf_def groups_wf_def by blast+

lemma ws_inv_group_step:
  assumes inv: "ws_inv s"
    and op: "case op of JoinRoom _ _ _ max_rooms max_len \<Rightarrow> max_rooms = mgr_max_rooms_per_connection (ws_manager s)
        \<and> max_len = mgr_max_room_name_length (ws_manager s) | _ \<Rightarrow> True"
    and s': "ws_manager s' = (ws_manager s)\<lparr>mgr_groups := snd (group_step op (mgr_groups (ws_manager s)))\<rparr>"
      "ws_admission s' = ws_admission s" "set (ws_readers s') \<subseteq> set (ws_readers s)"
    and present: "\<And>n c. (n, c) \<in> present (snd (membership_step op (group_abs (mgr_groups (ws_manager s))))) \<Longrightarrow> accounted s' n c"
    and joined: "\<And>n r c. (n, r, c) \<in> joined (snd (membership_step op (group_abs (mgr_groups (ws_manager s))))) \<Longrightarrow> accounted s' n c"
  shows "ws_inv s'"
proof (rule ws_inv_groups [OF inv groups_wf_step [OF ws_inv_group_wf(2) [OF inv]] s'(1,2)])
  note refines = group_step_refines(2) [OF ws_inv_group_wf(1) [OF inv], of op]
  show "accounted s' n c" if "(n, c) \<in> present (group_abs (snd (group_step op (mgr_groups (ws_manager s)))))" for n c
    using present [of n c] that by (simp only: refines snd_conv)
  show "accounted s' n c" if "(n, r, c) \<in> joined (group_abs (snd (group_step op (mgr_groups (ws_manager s)))))" for n r c
    using joined [of n r c] that by (simp only: refines snd_conv)
qed (use op s'(3) in auto)

lemma step_channel: "ws_inv s \<Longrightarrow> ws_inv (s\<lparr>ws_manager := snd (connection_control_channel (ws_manager s))\<rparr>)"
  by (rule ws_inv_keeps [of s "snd (connection_control_channel (ws_manager s))"])
    (auto simp: ws_inv_def connection_control_channel_def manager_wf_def control_new_def control_ok_def keeps_def
      namespace_of_def admissible_def)

lemma step_close_sent:
  "ws_inv s \<Longrightarrow> ws_inv (s\<lparr>ws_manager := snd (send_close a message category sent (ws_manager s))\<rparr>)"
  by (rule ws_inv_keeps [of s "snd (send_close a message category sent (ws_manager s))"])
    (auto simp: ws_inv_def manager_wf_send_close admissible_def)

lemma step_room_begin:
  assumes "ws_inv s" "may_read s" "room_check (fst (job_connection job)) (snd (job_connection job)) (ws_manager s) = Ok ()"
  shows "ws_inv (s\<lparr>ws_readers := job # ws_readers s\<rparr>)"
  using assms room_check_namespace [OF assms(3)]
  by (auto simp: ws_inv_def may_read_def no_ghosts_def accounted_def)

lemma step_room_end:
  assumes inv: "ws_inv s" and job: "job \<in> set (ws_readers s)"
  shows "ws_inv (s\<lparr>ws_readers := remove1 job (ws_readers s), ws_manager := job_commit job (ws_manager s)\<rparr>)"
proof -
  have registered: "namespace_of (ws_manager s) (snd (job_connection job)) = Some (fst (job_connection job))"
    using inv job unfolding ws_inv_def by blast
  have readers: "set (remove1 job (ws_readers s)) \<subseteq> set (ws_readers s)"
    by (rule set_remove1_subset)
  show ?thesis
  proof (cases job)
    case (Joining n c r)
    let ?s = "s\<lparr>ws_readers := remove1 job (ws_readers s), ws_manager := job_commit job (ws_manager s)\<rparr>"
    have acc: "accounted ?s n' c'" if "accounted s n' c' \<or> (n', c') = (n, c)" for n' c'
      using that registered by (auto simp: accounted_def Joining room_parts namespace_of_def)
    show ?thesis
      by (rule ws_inv_group_step [OF inv, of "JoinRoom n r c (mgr_max_rooms_per_connection (ws_manager s))
            (mgr_max_room_name_length (ws_manager s))"])
        (use readers acc ws_inv_ghosts [OF inv] in
          \<open>auto simp: Joining room_parts split: if_splits\<close>)
  next
    case (Leaving n c r)
    let ?s = "s\<lparr>ws_readers := remove1 job (ws_readers s), ws_manager := job_commit job (ws_manager s)\<rparr>"
    have acc: "accounted ?s n' c'" if "accounted s n' c'" for n' c'
      using that by (auto simp: accounted_def Leaving room_parts namespace_of_def)
    show ?thesis
      by (rule ws_inv_group_step [OF inv, of "LeaveRoom n r c"])
        (use readers acc ws_inv_ghosts [OF inv] in \<open>auto simp: Leaving room_parts\<close>)
  qed
qed

lemma step_admission_start:
  assumes "ws_inv s" "may_write s" "admission_begin c control ns identity instant now (ws_manager s) = (Inr x, m)"
  shows "ws_inv (s\<lparr>ws_admission := Some x, ws_manager := m\<rparr>)"
  using admission_begin_wf [OF _ assms(3)] assms(1,2)
  by (intro ws_inv_keeps [OF assms(1), of m]) (auto simp: ws_inv_def may_write_def)

lemma step_admission_refused:
  assumes "ws_inv s" "may_write s" "admission_begin c control ns identity instant now (ws_manager s) = (Inl e, m)"
  shows "ws_inv (s\<lparr>ws_manager := m\<rparr>)"
  using admission_begin_wf [OF _ assms(3)] assms(1,2)
  by (intro ws_inv_keeps [OF assms(1), of m]) (auto simp: ws_inv_def may_write_def)

lemma step_admission_end:
  assumes inv: "ws_inv s" and x: "ws_admission s = Some x"
  shows "ws_inv (s\<lparr>ws_admission := None, ws_manager := snd (admission_commit x (ws_manager s))\<rparr>)"
proof -
  let ?m = "ws_manager s"
  let ?s = "s\<lparr>ws_admission := None, ws_manager := snd (admission_commit x ?m)\<rparr>"
  have wf: "manager_wf ?m" and readers: "ws_readers s = []" and adm: "admissible ?m x"
    using inv x unfolding ws_inv_def by blast+
  have fresh: "namespace_of ?m (conn_id x) = None"
    using adm by (simp add: admissible_def namespace_of_def)
  obtain reply g where add: "add_connection_to_namespace (conn_namespace x) (conn_id x) (mgr_groups ?m) = (reply, g)"
    by fastforce
  have "(reply, group_abs g) = membership_step (AddConnection (conn_namespace x) (conn_id x)) (group_abs (mgr_groups ?m))"
    using group_step_refines(2) [OF ws_inv_group_wf(1) [OF inv], of "AddConnection (conn_namespace x) (conn_id x)"]
    by (simp add: add)
  then have added: "present (group_abs g) \<subseteq> present (group_abs (mgr_groups ?m))
        \<union> {(n, c). reply = Ok () \<and> (n, c) = (conn_namespace x, conn_id x)}"
      "joined (group_abs g) = joined (group_abs (mgr_groups ?m))"
    by (auto split: if_splits)
  have groups: "mgr_groups (snd (admission_commit x ?m)) = g"
    by (simp add: admission_commit_def add split: sum.splits)
  have spaces: "namespace_of (snd (admission_commit x ?m))
      = (case reply of Inl _ \<Rightarrow> namespace_of ?m | Inr _ \<Rightarrow> (namespace_of ?m)(conn_id x \<mapsto> conn_namespace x))"
    by (simp add: admission_commit_def add namespace_of_def add_principal_membership_def fun_eq_iff split: sum.splits)
  have acc: "accounted ?s n c" if "accounted s n c \<or> (reply = Ok () \<and> (n, c) = (conn_namespace x, conn_id x))" for n c
    using that fresh by (auto simp: accounted_def spaces split: sum.splits)
  have "accounted ?s n c" if "(n, c) \<in> present (group_abs g)" for n c
    by (rule acc) (use that added(1) ws_inv_ghosts(1) [OF inv] in blast)
  moreover have "accounted ?s n c" if "(n, r, c) \<in> joined (group_abs g)" for n r c
    by (rule acc) (use that added(2) ws_inv_ghosts(2) [OF inv] in blast)
  ultimately have "no_ghosts ?s"
    unfolding no_ghosts_def by (simp add: groups)
  then show ?thesis
    using admission_commit_wf [OF wf adm] readers by (simp add: ws_inv_def)
qed

lemma step_removal_start:
  assumes inv: "ws_inv s" and "may_write s" and start: "removal_begin c (ws_manager s) = (Some x, m)"
  shows "ws_inv (s\<lparr>ws_removals := (conn_namespace x, c) # ws_removals s, ws_manager := m\<rparr>)"
proof -
  let ?s = "s\<lparr>ws_removals := (conn_namespace x, c) # ws_removals s, ws_manager := m\<rparr>"
  have wf: "manager_wf (ws_manager s)"
    using inv by (simp add: ws_inv_def)
  note removal = removal_begin_wf [OF wf start]
  have "accounted ?s n d" if "accounted s n d" for n d
    using that removal(2) by (auto simp: accounted_def removal(4) namespace_of_def)
  then have "no_ghosts ?s"
    using ws_inv_ghosts [OF inv] unfolding no_ghosts_def by (simp add: removal(3))
  then show ?thesis
    using removal(1) assms(2) by (simp add: ws_inv_def may_write_def)
qed

lemma step_removal_end:
  assumes inv: "ws_inv s" and "(n, c) \<in> set (ws_removals s)"
  shows "ws_inv (s\<lparr>ws_removals := remove1 (n, c) (ws_removals s), ws_manager := snd (removal_finish n c (ws_manager s))\<rparr>)"
proof -
  let ?s = "s\<lparr>ws_removals := remove1 (n, c) (ws_removals s), ws_manager := snd (removal_finish n c (ws_manager s))\<rparr>"
  have acc: "accounted ?s n' c'" if "accounted s n' c'" "(n', c') \<noteq> (n, c)" for n' c'
    using that by (auto simp: accounted_def room_parts namespace_of_def in_set_remove1)
  show ?thesis
    by (rule ws_inv_group_step [OF inv, of "RemoveConnection n c"])
      (use acc ws_inv_ghosts [OF inv] in \<open>auto simp: room_parts\<close>)
qed

lemma step_write:
  assumes "ws_inv s" "may_write s"
  shows "ws_inv (s\<lparr>ws_manager := apply_write_op op (ws_manager s)\<rparr>)"
  using assms write_op_wf [of "ws_manager s" op]
  by (intro ws_inv_keeps [OF assms(1), of "apply_write_op op (ws_manager s)"]) (auto simp: ws_inv_def may_write_def)

lemma step_tick: "ws_inv s \<Longrightarrow> ws_inv (s\<lparr>ws_clock := t\<rparr>)"
  by (simp add: ws_inv_def no_ghosts_def accounted_def)

lemma step_room_dropped: "ws_inv s \<Longrightarrow> ws_inv (s\<lparr>ws_readers := remove1 job (ws_readers s)\<rparr>)"
  using set_remove1_subset [of job "ws_readers s"]
  by (auto simp: ws_inv_def no_ghosts_def accounted_def)

lemma step_admission_dropped: "ws_inv s \<Longrightarrow> ws_inv (s\<lparr>ws_admission := None\<rparr>)"
  by (simp add: ws_inv_def no_ghosts_def accounted_def)

lemma ws_step_inv: "ws_step s s' \<Longrightarrow> ws_inv s \<Longrightarrow> ws_inv s'"
  by (induction rule: ws_step.induct)
    (blast intro: step_channel step_close_sent step_room_begin step_room_end step_admission_start
      step_admission_refused step_admission_end step_removal_start step_removal_end step_tick step_write
      step_room_dropped step_admission_dropped)+

lemma ws_init_inv: "ws_inv (ws_init max_rooms max_len namespaces enabled queue_bytes)"
proof -
  have "registry_wf enabled [] (registry_new enabled)"
    by (rule registry_wfI) (auto simp: registry_new_def index_ok_def index_rel_def live_rel_def)
  moreover have "groups_wf max_rooms max_len (with_namespaces namespaces)"
    using with_namespaces_ok by (simp add: groups_wf_def within_limits_def rooms_of_def)
  ultimately show ?thesis
    by (simp add: ws_inv_def ws_init_def manager_new_def manager_wf_def no_ghosts_def with_namespaces_ok(2))
qed

lemma ws_reachable_inv:
  "ws_step\<^sup>*\<^sup>* (ws_init max_rooms max_len namespaces enabled queue_bytes) s \<Longrightarrow> ws_inv s"
  by (induction rule: rtranclp_induct) (auto intro: ws_init_inv ws_step_inv)

text \<open>An operation that runs without interruption is a sequence of steps.\<close>

lemma reach_add_connection:
  assumes "may_write s" "fst (add_connection c control ns identity instant now (ws_manager s)) = Ok ()"
  shows "ws_step\<^sup>*\<^sup>* s (s\<lparr>ws_manager := snd (add_connection c control ns identity instant now (ws_manager s))\<rparr>)"
proof -
  obtain x m where start: "admission_begin c control ns identity instant now (ws_manager s) = (Inr x, m)"
    using assms(2) by (auto simp: add_connection_def split: prod.splits sum.splits)
  note steps = admission_start [OF assms(1) start]
    admission_end [of "s\<lparr>ws_admission := Some x, ws_manager := m\<rparr>" x]
  have "s\<lparr>ws_admission := None\<rparr> = s"
    using assms(1) by (simp add: may_write_def)
  then have "s\<lparr>ws_admission := None, ws_manager := m'\<rparr> = s\<lparr>ws_manager := m'\<rparr>" for m'
    by simp
  with steps show ?thesis
    using start by (simp add: add_connection_def)
qed

lemma reach_join_room:
  assumes "may_read s" "room_check n c (ws_manager s) = Ok ()"
  shows "ws_step\<^sup>*\<^sup>* s (s\<lparr>ws_manager := snd (manager_join_room n c r (ws_manager s))\<rparr>)"
  using room_begin [OF assms(1), of "Joining n c r"] room_end [of "Joining n c r" "s\<lparr>ws_readers := Joining n c r # ws_readers s\<rparr>"]
    assms(2) by (simp add: manager_join_room_def)

text \<open>
  C37. Whatever tasks interleave, the manager is well formed. Every entry of the registry sits
  under its own identifier, has an identity exactly if the identity index is on, at most 32 valid
  metadata entries and a byte budget of its own that is closed exactly when the connection is
  closing. The principal index lists exactly the connected connections of each principal and
  namespace. No room is empty or badly named, no connection exceeds its room limit, and a close
  slot was written at most once.
\<close>

theorem manager_well_formed:
  assumes "ws_step\<^sup>*\<^sup>* (ws_init max_rooms max_len namespaces enabled queue_bytes) s"
  shows "manager_wf (ws_manager s)"
  using ws_reachable_inv [OF assms] by (simp add: ws_inv_def)

definition demo_identity :: WebSocketIdentitySnapshot where
  "demo_identity = snapshot_authenticated \<lparr>auth_subject = ''ada'', auth_principal_id = ''ada'', auth_expires_at = Some 50\<rparr>"

definition demo_admitted :: ConnectionManager where
  "demo_admitted = snd (add_connection 7 0 (Some ''chat'') (Some demo_identity) 1 1 (manager_new 2 10 [''chat''] True 100))"

definition demo_joined :: ConnectionManager where
  "demo_joined = snd (manager_join_room ''chat'' 7 ''lobby'' demo_admitted)"

lemma demo_reach_admitted:
  "ws_step\<^sup>*\<^sup>* (ws_init 2 10 [''chat''] True 100) ((ws_init 2 10 [''chat''] True 100)\<lparr>ws_manager := demo_admitted\<rparr>)"
proof -
  have "may_write (ws_init 2 10 [''chat''] True 100)"
    by (simp add: may_write_def ws_init_def)
  moreover have "fst (add_connection 7 0 (Some ''chat'') (Some demo_identity) 1 1 (manager_new 2 10 [''chat''] True 100)) = Ok ()"
    by code_simp
  ultimately show ?thesis
    using reach_add_connection [of "ws_init 2 10 [''chat''] True 100" 7 0 "Some ''chat''" "Some demo_identity" 1 1]
    by (simp add: demo_admitted_def ws_init_def)
qed

lemma demo_reach_joined:
  "ws_step\<^sup>*\<^sup>* (ws_init 2 10 [''chat''] True 100) ((ws_init 2 10 [''chat''] True 100)\<lparr>ws_manager := demo_joined\<rparr>)"
proof -
  let ?s = "(ws_init 2 10 [''chat''] True 100)\<lparr>ws_manager := demo_admitted\<rparr>"
  have "may_read ?s" "room_check ''chat'' 7 demo_admitted = Ok ()"
    by (simp add: may_read_def ws_init_def) code_simp
  then have "ws_step\<^sup>*\<^sup>* ?s (?s\<lparr>ws_manager := demo_joined\<rparr>)"
    using reach_join_room [of ?s "''chat''" 7 "''lobby''"] by (simp add: demo_joined_def)
  then show ?thesis
    using rtranclp_trans [OF demo_reach_admitted] by simp
qed

theorem manager_well_formed_witness:
  "manager_wf demo_joined \<and> map_option conn_state (get_connection 7 demo_joined) = Some Connected"
proof -
  have "map_option conn_state (get_connection 7 demo_joined) = Some Connected"
    by code_simp
  then show ?thesis
    using manager_well_formed [OF demo_reach_joined] by simp
qed

text \<open>
  C38. No room keeps a member that has left. In every interleaving, a connection that a room or a
  namespace lists is registered in that namespace, or its removal has started and has the group
  cleanup still to run. The registry's read lock that a join holds is what makes this true.
\<close>

theorem no_ghost_members:
  assumes "ws_step\<^sup>*\<^sup>* (ws_init max_rooms max_len namespaces enabled queue_bytes) s"
    and "c \<in> room_members n r (mgr_groups (ws_manager s)) \<union> namespace_members n (mgr_groups (ws_manager s))"
  shows "namespace_of (ws_manager s) c = Some n \<or> (n, c) \<in> set (ws_removals s)"
  using ws_inv_ghosts [OF ws_reachable_inv [OF assms(1)]] assms(2) unfolding lookups_abs accounted_def by blast

theorem no_ghost_members_witness:
  "7 \<in> room_members ''chat'' ''lobby'' (mgr_groups demo_joined) \<and> namespace_of demo_joined 7 = Some ''chat''"
proof -
  have "7 \<in> room_members ''chat'' ''lobby'' (mgr_groups demo_joined)"
    by code_simp
  then show ?thesis
    using no_ghost_members [OF demo_reach_joined, of 7 "''chat''" "''lobby''"] by (simp add: ws_init_def)
qed

text \<open>
  The converse of the property above holds only as long as an identifier is not used again. A
  removal that has left the registry may run its group cleanup after a new connection with the
  same identifier has been admitted: the new connection is then registered and connected, no
  removal is pending, and its namespace does not list it.
\<close>

definition demo_removing :: ConnectionManager where
  "demo_removing = snd (removal_begin 7 demo_admitted)"

definition demo_readmitted :: ConnectionManager where
  "demo_readmitted = snd (add_connection 7 0 (Some ''chat'') (Some demo_identity) 2 2 demo_removing)"

definition demo_lost :: ConnectionManager where
  "demo_lost = snd (removal_finish ''chat'' 7 demo_readmitted)"

lemma readmission_race:
  "ws_step\<^sup>*\<^sup>* (ws_init 2 10 [''chat''] True 100) ((ws_init 2 10 [''chat''] True 100)\<lparr>ws_manager := demo_lost\<rparr>)
    \<and> namespace_of demo_lost 7 = Some ''chat'' \<and> map_option conn_state (get_connection 7 demo_lost) = Some Connected
    \<and> namespace_members ''chat'' (mgr_groups demo_lost) = {}"
proof -
  let ?i = "ws_init 2 10 [''chat''] True 100"
  let ?s1 = "?i\<lparr>ws_manager := demo_admitted\<rparr>"
  let ?s2 = "?i\<lparr>ws_manager := demo_removing, ws_removals := [(''chat'', 7)]\<rparr>"
  let ?s3 = "?i\<lparr>ws_manager := demo_readmitted, ws_removals := [(''chat'', 7)]\<rparr>"
  have "map_option conn_namespace (fst (removal_begin 7 demo_admitted)) = Some ''chat''"
    by code_simp
  then obtain x where x: "removal_begin 7 demo_admitted = (Some x, demo_removing)" "conn_namespace x = ''chat''"
    by (auto simp: demo_removing_def prod_eq_iff)
  have "ws_step ?s1 ?s2"
    using removal_start [of ?s1 7 x demo_removing] x by (simp add: may_write_def ws_init_def)
  moreover have "fst (add_connection 7 0 (Some ''chat'') (Some demo_identity) 2 2 demo_removing) = Ok ()"
    by code_simp
  then have "ws_step\<^sup>*\<^sup>* ?s2 ?s3"
    using reach_add_connection [of ?s2 7 0 "Some ''chat''" "Some demo_identity" 2 2]
    by (simp add: may_write_def ws_init_def demo_readmitted_def)
  moreover have "ws_step ?s3 (?i\<lparr>ws_manager := demo_lost\<rparr>)"
    using removal_end [of "''chat''" 7 ?s3] by (simp add: ws_init_def demo_lost_def)
  ultimately have "ws_step\<^sup>*\<^sup>* ?i (?i\<lparr>ws_manager := demo_lost\<rparr>)"
    using demo_reach_admitted by (meson rtranclp.rtrancl_into_rtrancl rtranclp_trans)
  moreover have "namespace_of demo_lost 7 = Some ''chat'' \<and> map_option conn_state (get_connection 7 demo_lost) = Some Connected
    \<and> namespace_members ''chat'' (mgr_groups demo_lost) = {}"
    by code_simp
  ultimately show ?thesis by blast
qed

end
