(* ===== verification/Ws_Outbound.thy ===== *)
theory Ws_Outbound
  imports Ws_Manager
begin

text \<open>
  Sending to connections of the node (\<open>lily_websocket/src/connection.rs\<close> and
  \<open>connection/broadcast.rs\<close>): the validation of a broadcast, the local broadcast with the
  report that accounts for every target, and the retry loop that sends a frame to one connection.
\<close>

section \<open>Local broadcast\<close>

datatype BroadcastTarget =
    BroadcastNamespace string
  | BroadcastRoom string string
  | BroadcastRooms string "string list"
  | BroadcastPrincipal string string
  | BroadcastConnections string "Uuid list"

fun broadcast_namespace :: "BroadcastTarget \<Rightarrow> string" where
  "broadcast_namespace (BroadcastNamespace namespace) = namespace"
| "broadcast_namespace (BroadcastRoom namespace _) = namespace"
| "broadcast_namespace (BroadcastRooms namespace _) = namespace"
| "broadcast_namespace (BroadcastPrincipal namespace _) = namespace"
| "broadcast_namespace (BroadcastConnections namespace _) = namespace"

record BroadcastReport =
  targeted :: nat
  sent :: nat
  backpressured :: nat
  closed :: nat
  missing :: nat

definition is_fully_delivered :: "BroadcastReport \<Rightarrow> bool" where
  "is_fully_delivered report \<longleftrightarrow> targeted report = sent report"

definition is_balanced :: "BroadcastReport \<Rightarrow> bool" where
  "is_balanced report \<longleftrightarrow> targeted report = sent report + backpressured report + closed report + missing report"

fun broadcast_filter :: "BroadcastTarget \<Rightarrow> ConnectionTargetFilter" where
  "broadcast_filter (BroadcastPrincipal namespace principal_id) =
     PrincipalFilter \<lparr>key_namespace = namespace, key_principal_id = principal_id\<rparr>"
| "broadcast_filter target = NamespaceFilter (broadcast_namespace target)"

text \<open>The connections a target selects, sorted and without duplicates.\<close>

fun broadcast_connections :: "BroadcastTarget \<Rightarrow> ConnectionManager \<Rightarrow> (ConnectionError, Uuid list) result" where
  "broadcast_connections (BroadcastNamespace namespace) m =
     Ok (sorted_list_of_set (namespace_members namespace (mgr_groups m)))"
| "broadcast_connections (BroadcastRoom namespace room) m =
     Ok (sorted_list_of_set (room_members namespace room (mgr_groups m)))"
| "broadcast_connections (BroadcastRooms namespace rooms) m =
     Ok (sorted_list_of_set (fold (\<lambda>room unique. unique \<union> room_members namespace room (mgr_groups m)) rooms {}))"
| "broadcast_connections (BroadcastPrincipal namespace principal_id) m =
     (case principal_index (mgr_registry m) of
        None \<Rightarrow> Err (InvalidOperation IdentityLifecycleUnavailable)
      | Some index \<Rightarrow>
          Ok (case hm_get index \<lparr>key_namespace = namespace, key_principal_id = principal_id\<rparr> of
                None \<Rightarrow> [] | Some ids \<Rightarrow> sorted_list_of_set ids))"
| "broadcast_connections (BroadcastConnections namespace ids) m = Ok (remdups_adj (sort ids))"

text \<open>The first look at the registry: what cannot be sent is counted, the rest is to be admitted.\<close>

fun select_targets ::
  "Uuid list \<Rightarrow> ConnectionTargetFilter \<Rightarrow> nat \<Rightarrow> ConnectionManager \<Rightarrow> Uuid list \<Rightarrow> BroadcastReport
    \<Rightarrow> ConnectionAdmissionTarget list \<times> BroadcastReport" where
  "select_targets exclude target_filter now m [] report = ([], report)"
| "select_targets exclude target_filter now m (c # cs) report =
     (if c \<in> set exclude then select_targets exclude target_filter now m cs report
      else case get_connection c m of
        None \<Rightarrow> select_targets exclude target_filter now m cs (report\<lparr>missing := Suc (missing report)\<rparr>)
      | Some connection \<Rightarrow>
          if \<not> target_matches target_filter connection
          then select_targets exclude target_filter now m cs (report\<lparr>missing := Suc (missing report)\<rparr>)
          else if conn_state connection \<noteq> Connected \<or> identity_expired now connection
          then select_targets exclude target_filter now m cs (report\<lparr>closed := Suc (closed report)\<rparr>)
          else
            let (targets, report') = select_targets exclude target_filter now m cs report
            in (\<lparr>target_connection_id = c, target_budget = conn_outbound_budget connection\<rparr> # targets, report'))"

text \<open>The admissions in the order in which they complete.\<close>

fun account_admissions ::
  "nat \<Rightarrow> (Uuid \<Rightarrow> bool) \<Rightarrow> (ConnectionAdmissionTarget \<times> (OutboundAdmissionFailure, unit) result) list
    \<Rightarrow> BroadcastReport \<Rightarrow> ConnectionManager \<Rightarrow> BroadcastReport \<times> ConnectionManager" where
  "account_admissions now close_sent [] report m = (report, m)"
| "account_admissions now close_sent ((target, outcome) # rest) report m =
     (let c = target_connection_id target
      in case outcome of
        Inr _ \<Rightarrow> account_admissions now close_sent rest (report\<lparr>sent := Suc (sent report)\<rparr>) m
      | Inl AdmissionTimedOut \<Rightarrow>
          (let (closed_current, m') = close_slow_consumer target (close_sent c) m
           in account_admissions now close_sent rest
                (if closed_current then report\<lparr>backpressured := Suc (backpressured report)\<rparr>
                 else report\<lparr>closed := Suc (closed report)\<rparr>) m')
      | Inl AdmissionMissing \<Rightarrow> account_admissions now close_sent rest (report\<lparr>missing := Suc (missing report)\<rparr>) m
      | Inl AdmissionTargetChanged \<Rightarrow> account_admissions now close_sent rest (report\<lparr>missing := Suc (missing report)\<rparr>) m
      | Inl AdmissionClosed \<Rightarrow> account_admissions now close_sent rest (report\<lparr>closed := Suc (closed report)\<rparr>) m
      | Inl (AdmissionIdentityExpired revision) \<Rightarrow>
          account_admissions now close_sent rest (report\<lparr>closed := Suc (closed report)\<rparr>)
            (snd (claim_identity_expiry_for_generation c revision (Some (target_budget target)) now (close_sent c) m)))"

text \<open>
  The argument \<open>admit\<close> is the set of futures: it gives the outcome of every admission in the
  order of completion. The groups and the registry are read in one state and at one clock reading,
  and the accounting changes that state only itself; in the code the locks are released between
  these parts, other tasks run there, and every connection reads the clock anew.
\<close>

definition handle_broadcast ::
  "(ConnectionAdmissionTarget list \<Rightarrow> (ConnectionAdmissionTarget \<times> (OutboundAdmissionFailure, unit) result) list)
    \<Rightarrow> (Uuid \<Rightarrow> bool) \<Rightarrow> nat \<Rightarrow> BroadcastTarget \<Rightarrow> Uuid list \<Rightarrow> ConnectionManager
    \<Rightarrow> BroadcastReport manager_result" where
  "handle_broadcast admit close_sent now target exclude m =
     (case broadcast_connections target m of
        Inl e \<Rightarrow> (Err e, m)
      | Inr target_connections \<Rightarrow>
          let exclude' = remdups_adj (sort exclude);
              report = \<lparr>targeted = length (filter (\<lambda>c. c \<notin> set exclude') target_connections),
                sent = 0, backpressured = 0, closed = 0, missing = 0\<rparr>;
              (targets, report') = select_targets exclude' (broadcast_filter target) now m target_connections report;
              (report'', m') = account_admissions now close_sent (admit targets) report' m
          in (Ok report'', m'))"

text \<open>Documented behaviour of \<open>FuturesUnordered\<close>: every future completes once.\<close>

definition completes_each :: "('a list \<Rightarrow> ('a \<times> 'b) list) \<Rightarrow> bool" where
  "completes_each admit \<longleftrightarrow> (\<forall>xs. mset (map fst (admit xs)) = mset xs)"

definition outcomes :: "BroadcastReport \<Rightarrow> nat" where
  "outcomes report = sent report + backpressured report + closed report + missing report"

definition deliverable :: "ConnectionTargetFilter \<Rightarrow> nat \<Rightarrow> ConnectionManager \<Rightarrow> Uuid \<Rightarrow> bool" where
  "deliverable target_filter now m c \<longleftrightarrow>
     (case get_connection c m of
        None \<Rightarrow> False
      | Some x \<Rightarrow> target_matches target_filter x \<and> conn_state x = Connected \<and> \<not> identity_expired now x)"

lemma select_targets_accounts:
  assumes "select_targets exclude target_filter now m cs report = (targets, report')"
  shows "outcomes report' + length targets = outcomes report + length (filter (\<lambda>c. c \<notin> set exclude) cs)
    \<and> targeted report' = targeted report \<and> sent report' = sent report
    \<and> map target_connection_id targets = filter (\<lambda>c. c \<notin> set exclude \<and> deliverable target_filter now m c) cs"
  using assms
proof (induction cs arbitrary: report targets)
  case (Cons c cs)
  note IH = Cons.IH
  note missing = IH [of "report\<lparr>missing := Suc (missing report)\<rparr>" targets]
  note closed = IH [of "report\<lparr>closed := Suc (closed report)\<rparr>" targets]
  show ?case
  proof (cases "c \<in> set exclude")
    case True
    then show ?thesis using IH [of report targets] Cons.prems by simp
  next
    case included: False
    show ?thesis
    proof (cases "get_connection c m")
      case None
      then show ?thesis
        using missing Cons.prems included by (simp add: outcomes_def deliverable_def)
    next
      case (Some x)
      consider "\<not> target_matches target_filter x"
        | "target_matches target_filter x" "conn_state x \<noteq> Connected \<or> identity_expired now x"
        | "target_matches target_filter x" "conn_state x = Connected" "\<not> identity_expired now x"
        by blast
      then show ?thesis
      proof cases
        case 1
        then show ?thesis
          using missing Cons.prems included Some by (simp add: outcomes_def deliverable_def)
      next
        case 2
        then show ?thesis
          using closed Cons.prems included Some by (auto simp: outcomes_def deliverable_def)
      next
        case 3
        obtain ts where ts: "select_targets exclude target_filter now m cs report = (ts, report')"
          "targets = \<lparr>target_connection_id = c, target_budget = conn_outbound_budget x\<rparr> # ts"
          using 3 included Some Cons.prems by (cases "select_targets exclude target_filter now m cs report") auto
        show ?thesis using IH [OF ts(1)] ts(2) included 3 Some by (simp add: deliverable_def)
      qed
    qed
  qed
qed simp

lemma account_admissions_accounts:
  assumes "account_admissions now close_sent os report m = (report', m')"
  shows "outcomes report' = outcomes report + length os \<and> targeted report' = targeted report
    \<and> sent report' = sent report + length (filter (\<lambda>(t, r). \<exists>u. r = Inr u) os)"
  using assms
proof (induction os arbitrary: report m)
  case (Cons o1 os)
  then show ?case
    by (cases o1) (force simp: outcomes_def Let_def
        split: sum.splits OutboundAdmissionFailure.splits prod.splits if_splits)
qed (simp add: outcomes_def)

lemma distinct_sorted_remdups_adj: "sorted xs \<Longrightarrow> distinct (remdups_adj (xs :: 'a::linorder list))"
proof (induction xs rule: remdups_adj.induct)
  case (3 x y xs)
  have "x \<notin> set (y # xs)" if "x \<noteq> y"
    using 3(3) that by auto
  then show ?case
    using 3 by auto
qed simp_all

lemma broadcast_connections_distinct: "broadcast_connections target m = Ok cs \<Longrightarrow> distinct cs"
  by (cases target) (auto simp: distinct_sorted_remdups_adj split: option.splits)

text \<open>
  C39. A broadcast accounts for every connection it selects. Each one that is not excluded counts
  once: as sent, backpressured, closed or missing. No more are counted as sent than were
  registered, connected, unexpired and within the target when the registry was read.
\<close>

theorem broadcast_accounted:
  assumes "completes_each admit" "handle_broadcast admit close_sent now target exclude m = (Inr report, m')"
  shows "is_balanced report
    \<and> (\<exists>cs. broadcast_connections target m = Ok cs \<and> targeted report = card (set cs - set exclude)
        \<and> sent report \<le> card {c \<in> set cs - set exclude. deliverable (broadcast_filter target) now m c})"
proof -
  obtain cs where cs: "broadcast_connections target m = Ok cs"
    using assms(2) by (cases "broadcast_connections target m") (auto simp: handle_broadcast_def)
  define ex where "ex = remdups_adj (sort exclude)"
  define report0 where "report0 = \<lparr>targeted = length (filter (\<lambda>c. c \<notin> set ex) cs),
    sent = 0, backpressured = 0, closed = 0, missing = 0\<rparr>"
  obtain targets report1 where select:
    "select_targets ex (broadcast_filter target) now m cs report0 = (targets, report1)"
    by fastforce
  have account: "account_admissions now close_sent (admit targets) report1 m = (report, m')"
    using assms(2) select by (simp add: handle_broadcast_def cs ex_def report0_def Let_def split: prod.splits)
  have len: "length (admit targets) = length targets"
    using assms(1) unfolding completes_each_def by (metis length_map size_mset)
  have ex: "set ex = set exclude"
    by (simp add: ex_def)
  have card: "length (filter P cs) = card {c \<in> set cs. P c}" for P
    using distinct_card [OF distinct_filter [OF broadcast_connections_distinct [OF cs]], of P] by simp
  have sent: "sent report \<le> length targets"
    using account_admissions_accounts [OF account] select_targets_accounts [OF select] len
      length_filter_le [of "\<lambda>(t, r). \<exists>u. r = Inr u" "admit targets"]
    by (simp add: report0_def)
  moreover have "length targets = card {c \<in> set cs - set exclude. deliverable (broadcast_filter target) now m c}"
  proof -
    have "length targets = length (filter (\<lambda>c. c \<notin> set ex \<and> deliverable (broadcast_filter target) now m c) cs)"
      using select_targets_accounts [OF select] by (metis length_map)
    also have "\<dots> = card {c \<in> set cs. c \<notin> set ex \<and> deliverable (broadcast_filter target) now m c}"
      by (rule card)
    also have "{c \<in> set cs. c \<notin> set ex \<and> deliverable (broadcast_filter target) now m c}
        = {c \<in> set cs - set exclude. deliverable (broadcast_filter target) now m c}"
      using ex by auto
    finally show ?thesis .
  qed
  moreover have "targeted report = card (set cs - set exclude)"
    using account_admissions_accounts [OF account] select_targets_accounts [OF select] card
    by (simp add: report0_def ex set_diff_eq)
  moreover have "is_balanced report"
    using account_admissions_accounts [OF account] select_targets_accounts [OF select] len
    by (simp add: is_balanced_def outcomes_def report0_def)
  ultimately show ?thesis
    using cs by auto
qed

theorem broadcast_accounted_witness:
  "\<exists>report m'. handle_broadcast (map (\<lambda>t. (t, Ok ()))) (\<lambda>_. True) 1 (BroadcastConnections ''chat'' [9, 7, 7, 8]) [8] demo_joined
      = (Inr report, m') \<and> is_balanced report \<and> targeted report = 2 \<and> sent report = 1"
proof -
  let ?run = "handle_broadcast (map (\<lambda>t. (t, Ok ()))) (\<lambda>_. True) 1 (BroadcastConnections ''chat'' [9, 7, 7, 8]) [8] demo_joined"
  define report where "report = \<lparr>targeted = 2, sent = 1, backpressured = 0, closed = 0, missing = 1\<rparr>"
  have "fst ?run = Inr report"
    unfolding report_def by code_simp
  then have run: "?run = (Inr report, snd ?run)"
    by (metis prod.collapse)
  have "completes_each (map (\<lambda>t. (t, Ok ())))"
    by (simp add: completes_each_def comp_def)
  from broadcast_accounted [OF this run] run show ?thesis
    by (metis (no_types, lifting) BroadcastReport.select_convs(1,2) report_def)
qed

section \<open>Preparing a broadcast\<close>

datatype Message =
    TextMessage string
  | BinaryMessage string
  | PingMessage string
  | PongMessage string
  | CloseMessage "CloseFrame option"
  | FrameMessage string

text \<open>The length of a message is a function of the \<open>tungstenite\<close> crate.\<close>

definition validate_outbound_application_frame ::
  "(Message \<Rightarrow> nat) \<Rightarrow> nat \<Rightarrow> Message \<Rightarrow> (ConnectionError, unit) result" where
  "validate_outbound_application_frame message_len max_outbound_message_size frame =
     (if \<not> (case frame of TextMessage _ \<Rightarrow> True | BinaryMessage _ \<Rightarrow> True | _ \<Rightarrow> False)
      then Err (InvalidOperation InvalidApplicationFrame)
      else if max_outbound_message_size < message_len frame
      then Err (InvalidOperation OutboundMessageTooLarge)
      else Ok ())"

text \<open>
  \<open>encoded\<close> is what the message body's conversion to a text or binary frame returns, with its
  error already wrapped.
\<close>

definition encode_outbound_application_frame ::
  "(Message \<Rightarrow> nat) \<Rightarrow> nat \<Rightarrow> (ConnectionError, Message) result \<Rightarrow> (ConnectionError, Message) result" where
  "encode_outbound_application_frame message_len max_outbound_message_size encoded =
     and_then encoded (\<lambda>frame.
     and_then (validate_outbound_application_frame message_len max_outbound_message_size frame) (\<lambda>_. Ok frame))"

definition MAX_BROADCAST_CONNECTION_TARGETS :: nat where "MAX_BROADCAST_CONNECTION_TARGETS = 256"
definition MAX_BROADCAST_EXCLUSIONS :: nat where "MAX_BROADCAST_EXCLUSIONS = 256"
definition MAX_BROADCAST_ROOMS :: nat where "MAX_BROADCAST_ROOMS = 256"

definition operation_failure :: "(ConnectionOperationError, 'a) result \<Rightarrow> (ConnectionError, 'a) result" where
  "operation_failure r = (case r of Inl e \<Rightarrow> Err (InvalidOperation e) | Inr a \<Rightarrow> Ok a)"

definition validate_room :: "nat \<Rightarrow> string \<Rightarrow> (ConnectionOperationError, unit) result" where
  "validate_room max_room_name_length room =
     (if is_canonical_room room max_room_name_length then Ok () else Err InvalidBackplaneTarget)"

fun validate_rooms :: "nat \<Rightarrow> string list \<Rightarrow> (ConnectionOperationError, unit) result" where
  "validate_rooms max_room_name_length [] = Ok ()"
| "validate_rooms max_room_name_length (room # rooms) =
     and_then (validate_room max_room_name_length room) (\<lambda>_. validate_rooms max_room_name_length rooms)"

definition validate_connection_ids :: "Uuid list \<Rightarrow> (ConnectionOperationError, Uuid list) result" where
  "validate_connection_ids ids =
     (if MAX_BROADCAST_CONNECTION_TARGETS < length ids then Err BackplaneTargetLimitExceeded
      else Ok (remdups_adj (sort ids)))"

text \<open>The target after validation: lists are sorted and free of duplicates.\<close>

fun prepare_target :: "nat \<Rightarrow> BroadcastTarget \<Rightarrow> (ConnectionOperationError, BroadcastTarget) result" where
  "prepare_target max_room_name_length (BroadcastNamespace namespace) = Ok (BroadcastNamespace namespace)"
| "prepare_target max_room_name_length (BroadcastRoom namespace room) =
     and_then (validate_room max_room_name_length room) (\<lambda>_. Ok (BroadcastRoom namespace room))"
| "prepare_target max_room_name_length (BroadcastRooms namespace rooms) =
     (if MAX_BROADCAST_ROOMS < length rooms then Err BackplaneTargetLimitExceeded
      else let rooms' = remdups_adj (sort rooms)
        in and_then (validate_rooms max_room_name_length rooms') (\<lambda>_. Ok (BroadcastRooms namespace rooms')))"
| "prepare_target max_room_name_length (BroadcastPrincipal namespace principal_id) =
     Ok (BroadcastPrincipal namespace principal_id)"
| "prepare_target max_room_name_length (BroadcastConnections namespace ids) =
     and_then (validate_connection_ids ids) (\<lambda>ids'. Ok (BroadcastConnections namespace ids'))"

record PreparedBroadcast =
  prepared_target :: BroadcastTarget
  prepared_exclude :: "Uuid list"
  prepared_frame :: Message

definition prepare_broadcast ::
  "(Message \<Rightarrow> nat) \<Rightarrow> nat \<Rightarrow> nat \<Rightarrow> (ConnectionError, Message) result \<Rightarrow> BroadcastTarget \<Rightarrow> Uuid list
    \<Rightarrow> (ConnectionError, PreparedBroadcast) result" where
  "prepare_broadcast message_len max_outbound_message_size max_room_name_length encoded target exclude =
     and_then (encode_outbound_application_frame message_len max_outbound_message_size encoded) (\<lambda>frame.
     and_then (operation_failure (validate_broadcast_namespace (broadcast_namespace target))) (\<lambda>_.
     and_then (operation_failure (prepare_target max_room_name_length target)) (\<lambda>target'.
       if MAX_BROADCAST_EXCLUSIONS < length exclude
       then Err (InvalidOperation BackplaneExclusionLimitExceeded)
       else Ok \<lparr>prepared_target = target', prepared_exclude = remdups_adj (sort exclude), prepared_frame = frame\<rparr>)))"

fun has_no_targets :: "BroadcastTarget \<Rightarrow> Uuid list \<Rightarrow> bool" where
  "has_no_targets (BroadcastConnections namespace ids) exclude = list_all (\<lambda>c. c \<in> set exclude) ids"
| "has_no_targets (BroadcastRooms namespace rooms) exclude = (rooms = [])"
| "has_no_targets _ exclude = False"

text \<open>Preparing keeps the connections that a target selects.\<close>

lemma remdups_adj_sorted_eq: "sorted xs \<Longrightarrow> distinct xs \<Longrightarrow> remdups_adj (xs :: 'a::linorder list) = xs"
  by (induction xs rule: remdups_adj.induct) auto

lemma sorted_sort_remdups_adj: "sorted (remdups_adj (sort (xs :: 'a::linorder list)))"
  by (simp add: sorted_remdups_adj)

lemma fold_union_members: "fold (\<lambda>room unique. unique \<union> f room) rooms A = A \<union> (\<Union>room\<in>set rooms. f room)"
  by (induction rooms arbitrary: A) auto

lemma prepare_target_selects:
  assumes "prepare_target max_len target = Ok target'"
  shows "broadcast_connections target' m = broadcast_connections target m
    \<and> broadcast_filter target' = broadcast_filter target"
proof -
  have again: "remdups_adj (sort (remdups_adj (sort ids))) = remdups_adj (sort ids)" for ids :: "Uuid list"
    by (simp add: sorted_sort_id sorted_remdups_adj distinct_sorted_remdups_adj remdups_adj_sorted_eq)
  show ?thesis
    using assms by (cases target) (auto simp: Let_def validate_connection_ids_def fold_union_members again split: if_splits)
qed

text \<open>A command that addresses nobody selects nobody.\<close>

lemma has_no_targets_empty:
  assumes "has_no_targets target exclude" "broadcast_connections target m = Ok cs"
  shows "set cs \<subseteq> set exclude"
  using assms by (cases target) (auto simp: list_all_iff)

section \<open>Protocol frames\<close>

definition send_raw_to_connection :: "Uuid \<Rightarrow> Message \<Rightarrow> bool \<Rightarrow> ConnectionManager \<Rightarrow> (ConnectionError, unit) result" where
  "send_raw_to_connection c message accepted m =
     (if (case message of PingMessage _ \<Rightarrow> True | PongMessage _ \<Rightarrow> True | _ \<Rightarrow> False)
      then (case get_connection c m of
              None \<Rightarrow> Err (ConnectionNotFound c)
            | Some _ \<Rightarrow> if accepted then Ok () else Err (ConnectionClosed c))
      else Err (InvalidOperation InvalidProtocolFrame))"

section \<open>Sending to one connection\<close>

text \<open>
  One round of the loop sees the registry three times, and other tasks run in between: when the
  target is looked up, when the admission looks again, and when an expiry is claimed or a slow
  consumer is closed. The arguments are the states of the system at these moments, with the
  reading of the clock in each. The result \<open>None\<close> is the \<open>continue\<close> of the source.
\<close>

record send_round =
  round_reservation :: "(OutboundAdmissionWaitError, unit) result"
  round_permit :: "(OutboundAdmissionWaitError, unit) result"
  round_close_sent :: bool
  round_lookup :: WsState
  round_admission :: WsState
  round_claim :: WsState

definition claim_result :: "(ConnectionError, IdentityExpiryClaim) result \<Rightarrow> (ConnectionError, unit) result option" where
  "claim_result r =
     (case r of
        Inl e \<Rightarrow> Some (Err e)
      | Inr ExpirySuperseded \<Rightarrow> None
      | Inr (ExpiryClosing _) \<Rightarrow> Some (Err (InvalidOperation IdentityExpired)))"

definition expiry_claim ::
  "Uuid \<Rightarrow> WebSocketIdentityRevision \<Rightarrow> nat \<Rightarrow> send_round \<Rightarrow> (ConnectionError, unit) result option" where
  "expiry_claim c revision budget r =
     claim_result (fst (claim_identity_expiry_for_generation c revision (Some budget)
       (ws_clock (round_claim r)) (round_close_sent r) (ws_manager (round_claim r))))"

definition send_attempt ::
  "string \<Rightarrow> ConnectionAdmissionTarget \<Rightarrow> send_round \<Rightarrow> (ConnectionError, unit) result option" where
  "send_attempt namespace target r =
     (let c = target_connection_id target
      in case admit_outbound_application_frame (round_reservation r) (round_permit r) target
           (ws_clock (round_admission r)) (NamespaceFilter namespace) (ws_manager (round_admission r)) of
        Inr _ \<Rightarrow> Some (Ok ())
      | Inl AdmissionTimedOut \<Rightarrow>
          if fst (close_slow_consumer target (round_close_sent r) (ws_manager (round_claim r)))
          then Some (Err (Backpressure c)) else Some (Err (ConnectionClosed c))
      | Inl (AdmissionIdentityExpired revision) \<Rightarrow> expiry_claim c revision (target_budget target) r
      | Inl AdmissionMissing \<Rightarrow> Some (Err (ConnectionNotFound c))
      | Inl AdmissionTargetChanged \<Rightarrow> Some (Err (ConnectionNotFound c))
      | Inl AdmissionClosed \<Rightarrow> Some (Err (ConnectionClosed c)))"

definition send_one_round :: "string \<Rightarrow> Uuid \<Rightarrow> send_round \<Rightarrow> (ConnectionError, unit) result option" where
  "send_one_round namespace c r =
     (case get_connection c (ws_manager (round_lookup r)) of
        None \<Rightarrow> Some (Err (ConnectionNotFound c))
      | Some connection \<Rightarrow>
          if \<not> target_matches (NamespaceFilter namespace) connection then Some (Err (ConnectionNotFound c))
          else if conn_state connection \<noteq> Connected then Some (Err (ConnectionClosed c))
          else
            let target = \<lparr>target_connection_id = c, target_budget = conn_outbound_budget connection\<rparr>
            in case conn_identity connection of
                 None \<Rightarrow> send_attempt namespace target r
               | Some snapshot \<Rightarrow>
                   if elapsed (ws_clock (round_lookup r)) (snapshot_expiry snapshot)
                   then expiry_claim c (snap_revision snapshot) (target_budget target) r
                   else send_attempt namespace target r)"

fun send_rounds :: "string \<Rightarrow> Uuid \<Rightarrow> send_round list \<Rightarrow> (ConnectionError, unit) result option" where
  "send_rounds namespace c [] = None"
| "send_rounds namespace c (r # rs) =
     (case send_one_round namespace c r of Some result \<Rightarrow> Some result | None \<Rightarrow> send_rounds namespace c rs)"

definition send_application_frame ::
  "(Message \<Rightarrow> nat) \<Rightarrow> nat \<Rightarrow> string \<Rightarrow> Uuid \<Rightarrow> Message \<Rightarrow> send_round list
    \<Rightarrow> (ConnectionError, unit) result option" where
  "send_application_frame message_len max_outbound_message_size namespace c frame rounds =
     (case validate_outbound_application_frame message_len max_outbound_message_size frame of
        Inl e \<Rightarrow> Some (Err e)
      | Inr _ \<Rightarrow>
          (case validate_broadcast_namespace namespace of
             Inl e \<Rightarrow> Some (Err (InvalidOperation e))
           | Inr _ \<Rightarrow> send_rounds namespace c rounds))"

section \<open>An expired identity stays as it is\<close>

text \<open>Operations that leave the identity of every connection alone.\<close>

definition steady :: "ConnectionManager \<Rightarrow> ConnectionManager \<Rightarrow> bool" where
  "steady m m' \<longleftrightarrow> length (mgr_budgets m) \<le> length (mgr_budgets m')
     \<and> (\<forall>c y. get_connection c m' = Some y \<longrightarrow> (\<exists>x. get_connection c m = Some x
          \<and> conn_outbound_budget y = conn_outbound_budget x \<and> conn_identity y = conn_identity x))"

lemma steady_refl [simp]: "steady m m"
  by (simp add: steady_def)

lemma steady_trans: "steady m m' \<Longrightarrow> steady m' m'' \<Longrightarrow> steady m m''"
  unfolding steady_def by (meson le_trans order_trans) (metis (full_types) le_trans)

lemma steady_send_close [simp]: "steady m (snd (send_close a message category queued m'')) = steady m m''"
  by (simp add: steady_def)

lemma steady_close_budget [simp]: "steady m (close_budget a m'') = steady m m''"
  by (simp add: steady_def close_budget_def)

lemma steady_put:
  "get_connection c m = Some x \<Longrightarrow> conn_outbound_budget y = conn_outbound_budget x
    \<Longrightarrow> conn_identity y = conn_identity x \<Longrightarrow> steady m (on_registry (put_connection c y) m)"
  by (auto simp: steady_def simp del: map_of_eq_Some_iff split: if_splits)

lemma steady_withdraw: "get_connection c m = Some x \<Longrightarrow> steady m (withdraw c x m)"
  by (auto simp: steady_def withdraw_def simp del: map_of_eq_Some_iff split: if_splits)

lemma steady_remove_parts [simp]: "steady m (on_registry (remove_principal_membership_parts ns c identity) m)"
  by (simp add: steady_def)

lemma steady_groups [simp]: "steady m (m\<lparr>mgr_groups := g\<rparr>)"
  by (simp add: steady_def)

lemma steady_claim_all_stale: "steady m (foldl (\<lambda>m c. claim_stale c m) m cs)"
proof (induction cs arbitrary: m)
  case (Cons c cs)
  have "steady m (claim_stale c m)"
    by (auto simp: claim_stale_def steady_withdraw split: option.splits)
  then show ?case
    using Cons [of "claim_stale c m"] steady_trans by simp
qed simp

text \<open>Only a re-authentication that finds the identity unexpired replaces it.\<close>

lemma reauthenticate_identity:
  assumes "get_connection d (snd (reauthenticate c revision replacement now now' m)) = Some y"
  shows "\<exists>x. get_connection d m = Some x \<and> conn_outbound_budget y = conn_outbound_budget x
    \<and> (conn_identity y = conn_identity x \<or> (\<exists>current. conn_identity x = Some current \<and> \<not> elapsed now (snapshot_expiry current)))"
  using assms
  by (auto simp: reauthenticate_def simp del: map_of_eq_Some_iff split: option.splits if_splits)

lemma write_op_identity:
  assumes "get_connection d (apply_write_op op m) = Some y" "list_all (\<lambda>t. clock \<le> t) (op_instants op)"
  shows "\<exists>x. get_connection d m = Some x \<and> conn_outbound_budget y = conn_outbound_budget x
    \<and> (conn_identity y = conn_identity x \<or>
        (\<exists>current. conn_identity x = Some current \<and> \<not> elapsed clock (snapshot_expiry current)))"
proof (cases "\<exists>c revision replacement now now'. op = Reauthenticate c revision replacement now now'")
  case True
  then obtain c revision replacement now now' where op: "op = Reauthenticate c revision replacement now now'"
    by blast
  have "elapsed now e" if "elapsed clock e" for e
    using that assms(2) by (auto simp: op elapsed_def split: option.splits)
  moreover obtain x where "get_connection d m = Some x" "conn_outbound_budget y = conn_outbound_budget x"
    "conn_identity y = conn_identity x \<or> (\<exists>current. conn_identity x = Some current \<and> \<not> elapsed now (snapshot_expiry current))"
    using reauthenticate_identity assms(1) unfolding op apply_write_op.simps by blast
  ultimately show ?thesis by blast
next
  case False
  have "steady m (apply_write_op op m)"
  proof (cases op)
    case (ClaimExpiry c revision budget now queued)
    then show ?thesis
      by (auto simp: claim_identity_expiry_for_generation_def Let_def split_beta steady_withdraw
          split: option.splits sum.splits)
  next
    case (RequestClose c frame category now queued)
    then show ?thesis
      by (auto simp: request_close_frame_def Let_def split_beta steady_withdraw split: option.splits sum.splits)
  next
    case (SetMetadata ns c key val)
    then show ?thesis
      by (auto simp: set_connection_metadata_def steady_put split: option.splits sum.splits)
  qed (use False in \<open>auto simp: record_liveness_def record_application_activity_def mark_closing_def
      close_slow_consumer_def claim_inactive_connections_def Let_def steady_put steady_withdraw
      steady_claim_all_stale split: option.splits\<close>)
  then show ?thesis
    using assms(1) unfolding steady_def by blast
qed

lemma write_op_budgets: "length (mgr_budgets (apply_write_op op m)) = length (mgr_budgets m)"
proof -
  have fold: "length (mgr_budgets (foldl (\<lambda>m c. claim_stale c m) m cs)) = length (mgr_budgets m)" for cs m
    by (induction cs arbitrary: m) (auto simp: claim_stale_def close_budget_def withdraw_def split: option.splits)
  show ?thesis
    by (cases op)
      (auto simp: record_liveness_def record_application_activity_def set_connection_metadata_def reauthenticate_def
        claim_identity_expiry_for_generation_def mark_closing_def close_slow_consumer_def request_close_frame_def
        claim_inactive_connections_def Let_def split_beta close_budget_def withdraw_def fold
        split: option.splits sum.splits)
qed

text \<open>
  What stays true of a generation whose identity has expired: nobody else gets its budget, and
  whoever holds it has that identity.
\<close>

definition expired_generation :: "nat \<Rightarrow> WebSocketIdentitySnapshot \<Rightarrow> WsState \<Rightarrow> bool" where
  "expired_generation a snapshot s \<longleftrightarrow>
     elapsed (ws_clock s) (snapshot_expiry snapshot)
     \<and> a < length (mgr_budgets (ws_manager s))
     \<and> (\<forall>x. ws_admission s = Some x \<longrightarrow> conn_outbound_budget x \<noteq> a)
     \<and> (\<forall>c x. get_connection c (ws_manager s) = Some x \<and> conn_outbound_budget x = a \<longrightarrow> conn_identity x = Some snapshot)"

lemma expired_generation_steady:
  assumes "expired_generation a snapshot s" "steady (ws_manager s) (ws_manager s')"
    "ws_clock s' = ws_clock s" "\<And>x. ws_admission s' = Some x \<Longrightarrow> ws_admission s = Some x \<or> conn_outbound_budget x \<noteq> a"
  shows "expired_generation a snapshot s'"
proof -
  have "conn_identity y = Some snapshot" if "get_connection c (ws_manager s') = Some y" "conn_outbound_budget y = a" for c y
    using assms(1,2) that unfolding expired_generation_def steady_def by fastforce
  moreover have "a < length (mgr_budgets (ws_manager s'))"
    using assms(1,2) by (simp add: expired_generation_def steady_def)
  moreover have "conn_outbound_budget x \<noteq> a" if "ws_admission s' = Some x" for x
    using assms(1,4) that unfolding expired_generation_def by blast
  ultimately show ?thesis
    using assms(1) unfolding expired_generation_def assms(3) by blast
qed

lemma steady_admission_begin:
  assumes "admission_begin c control ns identity instant now m = (r, m')"
  shows "steady m m'" and "\<And>x. r = Ok x \<Longrightarrow> conn_outbound_budget x = length (mgr_budgets m)"
  using assms by (auto simp: admission_begin_def Let_def steady_def split: option.splits if_splits)

lemma steady_removal_begin: "removal_begin c m = (r, m') \<Longrightarrow> steady m m'"
  by (auto simp: removal_begin_def steady_def close_budget_def remove_principal_membership_def delete_conv'
      simp del: map_of_eq_Some_iff split: option.splits if_splits)

lemma admission_commit_get:
  "get_connection d (snd (admission_commit x m)) = Some y \<Longrightarrow> get_connection d m = Some y \<or> y = x"
  "mgr_budgets (snd (admission_commit x m)) = mgr_budgets m"
  by (auto simp: admission_commit_def add_principal_membership_def simp del: map_of_eq_Some_iff
      split: prod.splits sum.splits if_splits)

lemma elapsed_mono: "elapsed t e \<Longrightarrow> t \<le> t' \<Longrightarrow> elapsed t' e"
  by (auto simp: elapsed_def split: option.splits)

lemma expired_generation_step:
  assumes "ws_step s s'" "expired_generation a snapshot s"
  shows "expired_generation a snapshot s'"
  using assms
proof (induction rule: ws_step.induct)
  case (channel s)
  then show ?case
    by (rule expired_generation_steady) (auto simp: connection_control_channel_def steady_def)
next
  case (close_sent s b message category queued)
  then show ?case
    by (rule expired_generation_steady) auto
next
  case (room_begin s job)
  then show ?case
    by (auto simp: expired_generation_def)
next
  case (room_end job s)
  then show ?case
    by (intro expired_generation_steady [OF room_end.prems]) (cases job; auto simp: room_parts)+
next
  case (room_dropped job s)
  then show ?case
    by (auto simp: expired_generation_def)
next
  case (admission_dropped s x)
  then show ?case
    by (auto simp: expired_generation_def)
next
  case (admission_start s c control ns identity instant now x m)
  note steady = steady_admission_begin [OF admission_start.hyps(2)]
  have "a < length (mgr_budgets (ws_manager s))"
    using admission_start.prems by (simp add: expired_generation_def)
  then show ?case
    using steady by (intro expired_generation_steady [OF admission_start.prems]) auto
next
  case (admission_refused s c control ns identity instant now e m)
  then show ?case
    using steady_admission_begin(1) [OF admission_refused.hyps(2)]
    by (intro expired_generation_steady [OF admission_refused.prems]) auto
next
  case (admission_end s x)
  let ?m = "snd (admission_commit x (ws_manager s))"
  have "conn_outbound_budget x \<noteq> a"
    using admission_end by (simp add: expired_generation_def)
  then have "conn_identity y = Some snapshot" if "get_connection d ?m = Some y" "conn_outbound_budget y = a" for d y
    using admission_commit_get(1) [OF that(1)] that(2) admission_end.prems unfolding expired_generation_def by blast
  then show ?case
    using admission_end.prems by (auto simp: expired_generation_def admission_commit_get(2) simp del: map_of_eq_Some_iff)
next
  case (removal_start s c x m)
  then show ?case
    using steady_removal_begin [OF removal_start.hyps(2)]
    by (intro expired_generation_steady [OF removal_start.prems]) auto
next
  case (removal_end n c s)
  then show ?case
    by (intro expired_generation_steady [OF removal_end.prems]) (auto simp: room_parts)
next
  case (tick s t)
  then show ?case
    using elapsed_mono by (auto simp: expired_generation_def)
next
  case (write_locked s op)
  have "conn_identity y = Some snapshot"
    if "get_connection d (apply_write_op op (ws_manager s)) = Some y" "conn_outbound_budget y = a" for d y
  proof -
    note found = that
    obtain x where x: "get_connection d (ws_manager s) = Some x" "conn_outbound_budget y = conn_outbound_budget x"
      "conn_identity y = conn_identity x \<or>
        (\<exists>current. conn_identity x = Some current \<and> \<not> elapsed (ws_clock s) (snapshot_expiry current))"
      using write_op_identity [OF found(1) write_locked.hyps(2)] by blast
    then have "conn_identity x = Some snapshot"
      using write_locked.prems found(2) unfolding expired_generation_def by metis
    then show ?thesis
      using x(3) write_locked.prems by (auto simp: expired_generation_def)
  qed
  then show ?case
    using write_locked.prems by (auto simp: expired_generation_def write_op_budgets simp del: map_of_eq_Some_iff)
qed

lemma expired_generation_reach:
  "ws_step\<^sup>*\<^sup>* s s' \<Longrightarrow> expired_generation a snapshot s \<Longrightarrow> expired_generation a snapshot s'"
  by (induction rule: rtranclp_induct) (auto intro: expired_generation_step)

lemma expired_generationI:
  assumes "ws_inv s" "get_connection c (ws_manager s) = Some x" "conn_identity x = Some snapshot"
    "elapsed (ws_clock s) (snapshot_expiry snapshot)"
  shows "expired_generation (conn_outbound_budget x) snapshot s"
proof -
  have wf: "manager_wf (ws_manager s)" and adm: "\<And>y. ws_admission s = Some y \<Longrightarrow> admissible (ws_manager s) y"
    using assms(1) unfolding ws_inv_def by blast+
  have reg: "registry_wf (mgr_identity_index_enabled (ws_manager s)) (mgr_budgets (ws_manager s)) (mgr_registry (ws_manager s))"
    using wf by (simp add: manager_wf_def)
  have "conn_identity y = Some snapshot"
    if "get_connection d (ws_manager s) = Some y" "conn_outbound_budget y = conn_outbound_budget x" for d y
    using registry_wf_inj [OF reg that(1) assms(2) that(2)] that(1) assms(2,3) by simp
  moreover have "conn_outbound_budget x < length (mgr_budgets (ws_manager s))"
    using manager_wf_connection [OF wf assms(2)] by (simp add: connection_ok_def)
  moreover have "conn_outbound_budget y \<noteq> conn_outbound_budget x" if "ws_admission s = Some y" for y
    using adm [OF that] assms(2) unfolding admissible_def by metis
  ultimately show ?thesis
    using assms(4) unfolding expired_generation_def by blast
qed

text \<open>A claim on an expired generation is never superseded.\<close>

lemma expiry_claim_returns:
  assumes "expired_generation a snapshot (round_claim r)"
  shows "expiry_claim c (snap_revision snapshot) a r \<noteq> None"
proof (cases "get_connection c (ws_manager (round_claim r))")
  case (Some x)
  show ?thesis
  proof (cases "conn_outbound_budget x = a")
    case True
    then have "conn_identity x = Some snapshot" "elapsed (ws_clock (round_claim r)) (snapshot_expiry snapshot)"
      using assms Some unfolding expired_generation_def by blast+
    then show ?thesis
      using Some True
      by (auto simp: expiry_claim_def claim_result_def claim_identity_expiry_for_generation_def Let_def split_beta
          split: sum.splits)
  qed (use Some in \<open>auto simp: expiry_claim_def claim_result_def claim_identity_expiry_for_generation_def\<close>)
qed (simp add: expiry_claim_def claim_result_def claim_identity_expiry_for_generation_def)

lemma revalidate_expired:
  assumes "revalidate target now (NamespaceFilter namespace) m = Err (AdmissionIdentityExpired revision)"
  shows "\<exists>x snapshot. get_connection (target_connection_id target) m = Some x \<and> conn_outbound_budget x = target_budget target
    \<and> conn_identity x = Some snapshot \<and> snap_revision snapshot = revision \<and> elapsed now (snapshot_expiry snapshot)"
  using assms by (auto simp: revalidate_def simp del: map_of_eq_Some_iff split: option.splits if_splits)

lemma revalidate_deliverable:
  "revalidate target now target_filter m = Ok () \<Longrightarrow> deliverable target_filter now m (target_connection_id target)"
  by (auto simp: revalidate_def deliverable_def identity_expired_def elapsed_def simp del: map_of_eq_Some_iff
      split: option.splits if_splits)

lemma admit_revalidates:
  "admit_outbound_application_frame reservation permit target now target_filter m = Ok u
    \<Longrightarrow> revalidate target now target_filter m = Ok ()"
  "admit_outbound_application_frame reservation permit target now target_filter m = Err (AdmissionIdentityExpired revision)
    \<Longrightarrow> revalidate target now target_filter m = Err (AdmissionIdentityExpired revision)"
proof -
  have "wait_failure e \<noteq> AdmissionIdentityExpired revision" for e
    by (cases e) auto
  then show "admit_outbound_application_frame reservation permit target now target_filter m = Ok u
      \<Longrightarrow> revalidate target now target_filter m = Ok ()"
    "admit_outbound_application_frame reservation permit target now target_filter m = Err (AdmissionIdentityExpired revision)
      \<Longrightarrow> revalidate target now target_filter m = Err (AdmissionIdentityExpired revision)"
    by (auto simp: admit_outbound_application_frame_def split: sum.splits)
qed

lemma send_attempt_returns:
  assumes "ws_inv (round_admission r)" "ws_step\<^sup>*\<^sup>* (round_admission r) (round_claim r)"
  shows "\<exists>result. send_attempt namespace target r = Some result
    \<and> (result = Ok () \<longrightarrow> deliverable (NamespaceFilter namespace) (ws_clock (round_admission r))
          (ws_manager (round_admission r)) (target_connection_id target))"
proof -
  let ?admit = "admit_outbound_application_frame (round_reservation r) (round_permit r) target
    (ws_clock (round_admission r)) (NamespaceFilter namespace) (ws_manager (round_admission r))"
  have claim: "expiry_claim (target_connection_id target) revision (target_budget target) r \<noteq> None"
    if "?admit = Err (AdmissionIdentityExpired revision)" for revision
  proof -
    note expired = that
    obtain x snapshot where x: "get_connection (target_connection_id target) (ws_manager (round_admission r)) = Some x"
      "conn_outbound_budget x = target_budget target" "conn_identity x = Some snapshot"
      "snap_revision snapshot = revision" "elapsed (ws_clock (round_admission r)) (snapshot_expiry snapshot)"
      using revalidate_expired [OF admit_revalidates(2) [OF expired]] by blast
    show ?thesis
      using expiry_claim_returns [OF expired_generation_reach [OF assms(2) expired_generationI [OF assms(1) x(1,3,5)]]] x(2,4)
      by metis
  qed
  have "result \<noteq> Ok ()" if "expiry_claim (target_connection_id target) revision (target_budget target) r = Some result"
    for revision result
    using that by (auto simp: expiry_claim_def claim_result_def split: sum.splits IdentityExpiryClaim.splits)
  moreover have "deliverable (NamespaceFilter namespace) (ws_clock (round_admission r)) (ws_manager (round_admission r))
      (target_connection_id target)" if "?admit = Ok u" for u
    by (rule revalidate_deliverable [OF admit_revalidates(1) [OF that]])
  ultimately show ?thesis
    using claim
    by (cases ?admit; cases "projl ?admit") (auto simp: send_attempt_def Let_def)
qed

text \<open>
  C40. Sending to one connection returns in its first round, whatever the other tasks do: with a
  monotonic clock an identity that was found expired cannot be replaced any more, so the claim is
  never superseded and the loop is not repeated. A send that succeeds found the connection
  registered in the namespace, connected and unexpired at the moment its frame was queued.
\<close>

theorem send_application_frame_returns:
  assumes "ws_step\<^sup>*\<^sup>* (ws_init max_rooms max_len namespaces enabled queue_bytes) (round_lookup r)"
    and "ws_step\<^sup>*\<^sup>* (round_lookup r) (round_admission r)" and "ws_step\<^sup>*\<^sup>* (round_admission r) (round_claim r)"
  shows "\<exists>result. send_application_frame message_len max_size namespace c frame (r # rs) = Some result
    \<and> (result = Ok () \<longrightarrow> deliverable (NamespaceFilter namespace) (ws_clock (round_admission r))
          (ws_manager (round_admission r)) c)"
proof -
  have inv: "ws_inv (round_lookup r)" "ws_inv (round_admission r)"
    using ws_reachable_inv assms(1) rtranclp_trans [OF assms(1,2)] by blast+
  note attempt = send_attempt_returns [OF inv(2) assms(3), of namespace]
  have claim: "\<exists>e. expiry_claim c (snap_revision snapshot) (conn_outbound_budget x) r = Some (Err e)"
    if "get_connection c (ws_manager (round_lookup r)) = Some x" "conn_identity x = Some snapshot"
      "elapsed (ws_clock (round_lookup r)) (snapshot_expiry snapshot)" for x snapshot
    using expiry_claim_returns [OF expired_generation_reach [OF rtranclp_trans [OF assms(2,3)]
          expired_generationI [OF inv(1) that]], of c]
    by (auto simp: expiry_claim_def claim_result_def split: sum.splits IdentityExpiryClaim.splits)
  have "\<exists>result. send_one_round namespace c r = Some result
    \<and> (result = Ok () \<longrightarrow> deliverable (NamespaceFilter namespace) (ws_clock (round_admission r))
          (ws_manager (round_admission r)) c)"
  proof (cases "get_connection c (ws_manager (round_lookup r))")
    case (Some x)
    let ?target = "\<lparr>target_connection_id = c, target_budget = conn_outbound_budget x\<rparr>"
    show ?thesis
      using Some attempt [of ?target] claim [OF Some]
      by (cases "conn_identity x") (auto simp: send_one_round_def Let_def)
  qed (simp add: send_one_round_def)
  then show ?thesis
    by (auto simp: send_application_frame_def split: sum.splits)
qed

theorem send_application_frame_returns_witness:
  "\<exists>result. send_application_frame (\<lambda>_. 5) 100 ''chat'' 7 (TextMessage ''hello'')
      [\<lparr>round_reservation = Ok (), round_permit = Ok (), round_close_sent = True,
        round_lookup = (ws_init 2 10 [''chat''] True 100)\<lparr>ws_manager := demo_joined\<rparr>,
        round_admission = (ws_init 2 10 [''chat''] True 100)\<lparr>ws_manager := demo_joined\<rparr>,
        round_claim = (ws_init 2 10 [''chat''] True 100)\<lparr>ws_manager := demo_joined\<rparr>\<rparr>] = Some result
    \<and> result = Ok () \<and> deliverable (NamespaceFilter ''chat'') 0 demo_joined 7"
proof -
  let ?s = "(ws_init 2 10 [''chat''] True 100)\<lparr>ws_manager := demo_joined\<rparr>"
  let ?r = "\<lparr>round_reservation = Ok (), round_permit = Ok (), round_close_sent = True,
    round_lookup = ?s, round_admission = ?s, round_claim = ?s\<rparr>"
  have "send_application_frame (\<lambda>_. 5) 100 ''chat'' 7 (TextMessage ''hello'') [?r] = Some (Ok ())"
    by code_simp
  then show ?thesis
    using send_application_frame_returns [where r = ?r and message_len = "\<lambda>_. 5" and max_size = 100
        and namespace = "''chat''" and c = 7 and frame = "TextMessage ''hello''" and rs = "[]"] demo_reach_joined
    by (simp add: ws_init_def)
qed

end
