(* ===== verification/Spec2Isabelle.thy ===== *)
theory Spec2Isabelle
  imports Route_Table Registration_Plan Csrf_Safety Queue_Topology Settlement Delivery_Pipeline Url_Encoded Ws_Outbound
begin

text \<open>
  Lily is an application platform in Rust: an HTTP framework, a WebSocket framework, a RabbitMQ
  consumer and the dependency injection, configuration and client crates they share. An HTTP
  request is routed, its cookies, query and form are decoded, and its CSRF token is checked before
  a handler runs. A WebSocket connection is admitted by a manager, joins rooms and receives sends
  and broadcasts. A queue delivery runs through middlewares and a handler, and its outcome is
  settled: acknowledged, retried or dead-lettered. All services are started in an order computed
  from their declared dependencies. Below, paths are relative to \<open>src/crates\<close>.

  \<^bold>\<open>Conventions.\<close> A Rust string is its list of bytes, a \<open>Result\<close> is a sum with \<open>Err\<close> on the left
  and \<open>?\<close> is \<open>and_then\<close>, a \<open>HashMap\<close> is an association list with distinct keys, machine integers
  are words where wrap-around can matter. Clock readings, random bytes and the outcomes of hooks,
  channels and stores are arguments. Third-party crates are parameters; what a theorem needs of one
  is a hypothesis that states documented behaviour. Shared values behind an \<open>Arc\<close> live in a store
  and are named by their position.

  \<^bold>\<open>Prelude.\<close> \<open>Lily_Prelude\<close> has the result type, splitting and joining, hash maps, ASCII classes,
  decimal numbers, checked and saturating addition, and two interfaces: \<open>hash_map\<close>, interpreted on
  association lists, and \<open>precedence_table\<close>, interpreted on routes.

  \<^bold>\<open>HTTP routing.\<close> \<open>Route_Table\<close> models \<open>framework/lily_http_api/src/route_table/route_table.rs\<close>:
  template validation, \<open>from_routes\<close> with its duplicate and ambiguity checks and precedence sort,
  \<open>resolve\<close>, \<open>allowed_methods\<close> and \<open>extract_params\<close>. The theorems: a found route is the most
  specific match, misses are reported exactly, the registration order does not matter, the overlap
  test is exact, and extracted parameters rebuild the path.

  \<^bold>\<open>Dependency injection.\<close> \<open>Injection_Error\<close> models the error types of \<open>lily_error\<close>;
  \<open>Service_Graph\<close> models \<open>foundation/lily_injection_registry/src/lib.rs\<close> (\<open>analyze_service_graph\<close>, the cycle
  search and Kahn's algorithm); \<open>Registration_Plan\<close> models
  \<open>foundation/lily_injection/src/storage/registration_plan.rs\<close> (\<open>discover\<close>). Analysis succeeds
  exactly on valid acyclic graphs, the start order respects every dependency, every error names a
  real defect, and a discovered plan resolves every dependency. The searches are total functions
  with termination proofs.

  \<^bold>\<open>Cookies.\<close> \<open>Cookie\<close> models \<open>foundation/lily_web_core/src/cookie.rs\<close>: built cookies are safe to
  send, rendering is bounded and never truncates, the request jar holds exactly what was sent, and
  key rotation reads old cookies and flags them.

  \<^bold>\<open>Queries and forms.\<close> \<open>Url_Encoded\<close> models \<open>request/query.rs\<close> and \<open>request/form.rs\<close> of
  \<open>lily_web_core\<close>. Both containers interpret \<open>ordered_multimap\<close>; the form refines a list of pairs,
  encoding and parsing round-trip, and both decoders accept the same inputs with the same errors.

  \<^bold>\<open>CSRF.\<close> \<open>Csrf_Policy\<close> and \<open>Csrf_Runtime\<close> model \<open>foundation/lily_middleware/src/csrf.rs\<close>: session
  bindings, \<open>validate\<close>, \<open>try_new\<close>, tokens, and \<open>enforce\<close>, \<open>issue\<close>, \<open>rotate\<close> and \<open>clear\<close> of both
  token profiles. They use the cookie jar and the form decoder above. \<open>Csrf_Safety\<close> shows which
  requests a signed policy accepts, that issued tokens are accepted until they expire and across
  key rotation, and, inside the interface \<open>token_store\<close> that states the documented contract of a
  store for the key of a call, that a synchronizer profile accepts only the token the store holds. The interface is
  interpreted on the in-memory store of the module's tests, the only store the repository has
  besides the one in the tests of \<open>lily_http_api\<close>.

  \<^bold>\<open>Queue topology.\<close> \<open>Topology_Plan\<close> models \<open>foundation/lily_config/src/topology_plan.rs\<close> and
  \<open>Queue_Topology\<close> models \<open>providers/rabbitmq/topology.rs\<close> of \<open>integrations/lily_queue\<close>. A compiled
  topology has no name collision, and every configured retry attempt reaches a declared bucket.

  \<^bold>\<open>Queue deliveries.\<close> \<open>Shutdown_Budget\<close>, \<open>Settlement\<close> and \<open>Delivery_Pipeline\<close> model
  \<open>shutdown_budget.rs\<close>, \<open>settlement.rs\<close>, and \<open>pipeline.rs\<close> with \<open>delivery_lifecycle.rs\<close> of
  \<open>integrations/lily_queue\<close>. Bounded operations refine a contract that rereads the limit at every
  poll, and return once polled past it; settlement refines a contract and happens at most once, an
  acknowledgement follows success or a confirmed handoff, a report says settled exactly if the
  adapter accepted the settlement in time, retries are bounded; every entered middleware that did
  not finish its exit gets one termination hook in reverse order, unless its deadline had passed,
  no cleanup pass panics, and the hooks share the time that is left. The interface \<open>shortening\<close> holds what the
  deadline caps share.

  \<^bold>\<open>WebSocket groups and connections.\<close> \<open>Ws_Groups\<close> models \<open>groups.rs\<close> of
  \<open>framework/lily_websocket/src\<close>, and \<open>Ws_Registry\<close>, \<open>Ws_Manager\<close> and \<open>Ws_Outbound\<close> model
  \<open>connection.rs\<close> and \<open>connection/broadcast.rs\<close>. Operations are split at their lock scopes and
  interleaved by the step relation \<open>ws_step\<close>, in which tasks can also be dropped. Groups refine a membership relation; every reachable
  manager is well formed and lists no member without a connection, unless its removal is still
  running; a broadcast report counts every target once; the send loop returns. \<open>Ws_Manager\<close> also
  exhibits a race of removal with the admission of the same identifier (lemma \<open>readmission_race\<close>).

  \<^bold>\<open>Bounds.\<close> No definition runs on invented fuel. \<open>run_until\<close> and the hooks consume explicit
  sequences of polls, and \<open>send_rounds\<close> the sequence of what other tasks do in each round; the
  theorems on them say how much of the sequence is enough for the operation to have returned.
  Decimal and big-endian encodings have the width of the machine integer.

  \<^bold>\<open>Not modelled.\<close> The servers, clients and their task ownership are socket input and output
  scheduled by tokio, hyper, tungstenite and lapin. Database, cache and tracing crates adapt
  services whose behaviour is not in the repository. The macro crates run in the compiler on syntax
  trees. OpenAPI and AsyncAPI modules render documents. Of modelled modules, Display and Debug
  texts, plain accessors, test-only helpers, the fluent setters of the CSRF policy and the
  conversion of its rejections to responses are left out, as are scope creation and disposal around
  a delivery and the cross-process backplane of broadcasts.
\<close>

end
